(* ===== verification/Prelude.thy ===== *)
theory Prelude
  imports Main "HOL-Library.Word"
begin

text \<open>
  Shared ground of the development: bytes, machine integers, monotonic clock
  instants, and the parts of Rust's string library that the servers call
  (\<open>str::split\<close>, \<open>join\<close>, the \<open>Display\<close> of unsigned integers in decimal and
  hexadecimal). A Rust \<open>String\<close> is a \<^typ>\<open>string\<close>, one \<^typ>\<open>char\<close> per byte, so
  \<^const>\<open>length\<close> is \<open>String::len\<close>.
\<close>

type_synonym byte = "8 word"
type_synonym bytes = "byte list"
type_synonym i32 = "32 word"
type_synonym u16 = "16 word"
type_synonym usize = "64 word"

text \<open>
  A \<open>std::time::Instant\<close> is the number of nanoseconds since the least instant the
  platform can represent. \<open>Instant::elapsed\<close> saturates at zero, as truncating
  subtraction does; \<open>as_secs\<close> and \<open>as_millis\<close> round down.
\<close>

type_synonym instant = nat

text \<open>The facts that compute elapsed times.\<close>

named_theorems clock_simps

definition elapsed_secs :: "instant \<Rightarrow> instant \<Rightarrow> nat" where
  "elapsed_secs now t = (now - t) div 1000000000"

definition elapsed_millis :: "instant \<Rightarrow> instant \<Rightarrow> nat" where
  "elapsed_millis now t = (now - t) div 1000000"

text \<open>The cast \<open>x as i32\<close> keeps the low 32 bits.\<close>

definition as_i32 :: "nat \<Rightarrow> i32" where
  "as_i32 n = word_of_nat n"

declare elapsed_secs_def [clock_simps] elapsed_millis_def [clock_simps]

lemma elapsed_secs_self [simp]: "elapsed_secs t t = 0"
  by (simp add: elapsed_secs_def)

lemma elapsed_millis_self [simp]: "elapsed_millis t t = 0"
  by (simp add: elapsed_millis_def)

lemma elapsed_secs_mono: "now \<le> now' \<Longrightarrow> elapsed_secs now t \<le> elapsed_secs now' t"
  by (simp add: elapsed_secs_def div_le_mono)

lemma elapsed_secs_antimono: "t \<le> t' \<Longrightarrow> elapsed_secs now t' \<le> elapsed_secs now t"
  by (simp add: elapsed_secs_def div_le_mono)

lemma sint_as_i32: "sint (as_i32 n) = signed_take_bit 31 (int n)"
  by (simp add: as_i32_def sint_uint unsigned_of_nat of_nat_take_bit signed_take_bit_take_bit)

lemma sint_as_i32_small [clock_simps]: "n < 2147483648 \<Longrightarrow> sint (as_i32 n) = int n"
  by (simp add: sint_as_i32 signed_take_bit_int_eq_self)

subsection \<open>Splitting and joining strings\<close>

text \<open>\<open>s.split(c)\<close>, collected: always at least one piece, empty pieces kept.\<close>

fun split_on :: "char \<Rightarrow> string \<Rightarrow> string list" where
  "split_on c [] = [[]]"
| "split_on c (x # xs) =
     (if x = c then [] # split_on c xs
      else (case split_on c xs of [] \<Rightarrow> [[x]] | p # ps \<Rightarrow> (x # p) # ps))"

fun join_on :: "char \<Rightarrow> string list \<Rightarrow> string" where
  "join_on c [] = []"
| "join_on c [p] = p"
| "join_on c (p # ps) = p @ c # join_on c ps"

lemma split_on_not_Nil [simp]: "split_on c s \<noteq> []"
  by (induction s) (auto split: list.splits)

lemma split_on_free: "c \<notin> set s \<Longrightarrow> split_on c s = [s]"
  by (induction s) auto

lemma split_on_append: "c \<notin> set p \<Longrightarrow> split_on c (p @ c # s) = p # split_on c s"
  by (induction p) auto

lemma split_join:
  "ps \<noteq> [] \<Longrightarrow> \<forall>p \<in> set ps. c \<notin> set p \<Longrightarrow> split_on c (join_on c ps) = ps"
  by (induction ps rule: join_on.induct) (auto simp: split_on_free split_on_append)

lemma join_split: "join_on c (split_on c s) = s"
proof (induction s)
  case (Cons x s)
  obtain p ps where ps: "split_on c s = p # ps"
    by (cases "split_on c s") auto
  with Cons.IH show ?case by (cases ps) auto
qed simp

lemma split_on_pieces: "p \<in> set (split_on c s) \<Longrightarrow> c \<notin> set p"
  by (induction s arbitrary: p) (auto split: list.splits if_splits)

lemma set_join_on: "set (join_on c ps) \<subseteq> insert c (\<Union>p \<in> set ps. set p)"
  by (induction ps rule: join_on.induct) auto

subsection \<open>Printing unsigned integers\<close>

text \<open>
  \<open>Display\<close> (base 10) and \<open>LowerHex\<close> (base 16) of an unsigned integer: the digits,
  most significant first, no leading zero.
\<close>

definition digit_char :: "nat \<Rightarrow> char" where
  "digit_char d = (if d < 10 then char_of (48 + d) else char_of (87 + d))"

definition digit_val :: "char \<Rightarrow> nat" where
  "digit_val c = (let k = (of_char c :: nat) in if k < 58 then k - 48 else k - 87)"

fun show_base :: "nat \<Rightarrow> nat \<Rightarrow> string" where
  "show_base b n =
     (if b < 2 \<or> n < b then [digit_char n] else show_base b (n div b) @ [digit_char (n mod b)])"

declare show_base.simps [simp del]

abbreviation show_nat :: "nat \<Rightarrow> string" where "show_nat \<equiv> show_base 10"
abbreviation show_hex :: "nat \<Rightarrow> string" where "show_hex \<equiv> show_base 16"

definition read_base :: "nat \<Rightarrow> string \<Rightarrow> nat" where
  "read_base b s = foldl (\<lambda>acc c. acc * b + digit_val c) 0 s"

lemma digit_val_char: "d < 36 \<Longrightarrow> digit_val (digit_char d) = d"
  by (simp add: digit_val_def digit_char_def)

lemma digit_char_neq: "d < 36 \<Longrightarrow> digit_char d \<noteq> CHR ''.'' \<and> digit_char d \<noteq> CHR '':''"
proof -
  assume d: "d < 36"
  have "of_char (digit_char d) \<noteq> (46 :: nat)" "of_char (digit_char d) \<noteq> (58 :: nat)"
    using d by (auto simp: digit_char_def)
  then show ?thesis by auto
qed

lemma read_show_base: "2 \<le> b \<Longrightarrow> b \<le> 36 \<Longrightarrow> read_base b (show_base b n) = n"
proof (induction b n rule: show_base.induct)
  case (1 b n)
  show ?case
  proof (cases "n < b")
    case True
    with 1 show ?thesis
      by (subst show_base.simps) (simp add: read_base_def digit_val_char)
  next
    case False
    with 1 have "read_base b (show_base b (n div b)) = n div b" by simp
    moreover have "n mod b < 36"
      by (rule less_le_trans [OF mod_less_divisor]) (use 1(2,3) in auto)
    ultimately show ?thesis using False 1(2)
      by (subst show_base.simps) (simp add: read_base_def digit_val_char)
  qed
qed

lemma show_base_chars:
  "2 \<le> b \<Longrightarrow> b \<le> 36 \<Longrightarrow> CHR ''.'' \<notin> set (show_base b n) \<and> CHR '':'' \<notin> set (show_base b n)"
proof (induction b n rule: show_base.induct)
  case (1 b n)
  show ?case
  proof (cases "n < b")
    case True
    with 1 show ?thesis by (subst (1 2) show_base.simps) (simp, metis digit_char_neq less_le_trans)
  next
    case False
    have "n mod b < 36"
      by (rule less_le_trans [OF mod_less_divisor]) (use 1(2,3) in auto)
    with 1 False digit_char_neq [of "n mod b"] show ?thesis
      by (subst (1 2) show_base.simps) auto
  qed
qed

lemma show_base_not_Nil [simp]: "show_base b n \<noteq> []"
  by (subst show_base.simps) simp

lemma show_base_inj: "2 \<le> b \<Longrightarrow> b \<le> 36 \<Longrightarrow> show_base b m = show_base b n \<Longrightarrow> m = n"
  by (metis read_show_base)

end
