(* ===== verification/Net.thy ===== *)
theory Net
  imports Prelude
begin

unbundle bit_operations_syntax

text \<open>
  The part of \<open>std::net\<close> the servers use: \<open>IpAddr\<close>, \<open>SocketAddr\<close>, the predicates
  \<open>is_loopback\<close> and \<open>is_unspecified\<close>, \<open>Ipv6Addr::to_ipv4\<close>, and the \<open>Display\<close> of an
  address, which keys the rate limiter, the block lists and the peer records. The
  main fact is that printing is injective, so two addresses never share a key.
\<close>

datatype ip_addr = IpV4 "32 word" | IpV6 "128 word"

text \<open>A V6 socket address also carries its flow information and scope id.\<close>

datatype socket_addr =
    SocketV4 "32 word" "16 word"
  | SocketV6 "128 word" "16 word" "32 word" "32 word"

fun sa_ip :: "socket_addr \<Rightarrow> ip_addr" where
  "sa_ip (SocketV4 a _) = IpV4 a"
| "sa_ip (SocketV6 a _ _ _) = IpV6 a"

fun sa_port :: "socket_addr \<Rightarrow> 16 word" where
  "sa_port (SocketV4 _ p) = p"
| "sa_port (SocketV6 _ p _ _) = p"

fun is_loopback :: "ip_addr \<Rightarrow> bool" where
  "is_loopback (IpV4 a) \<longleftrightarrow> drop_bit 24 a = 127"
| "is_loopback (IpV6 a) \<longleftrightarrow> a = 1"

fun is_unspecified :: "ip_addr \<Rightarrow> bool" where
  "is_unspecified (IpV4 a) \<longleftrightarrow> a = 0"
| "is_unspecified (IpV6 a) \<longleftrightarrow> a = 0"

text \<open>\<open>to_ipv4\<close> accepts the IPv4-compatible and the IPv4-mapped addresses.\<close>

definition to_ipv4 :: "128 word \<Rightarrow> 32 word option" where
  "to_ipv4 a =
     (if drop_bit 32 a = 0 \<or> drop_bit 32 a = 65535 then Some (ucast a) else None)"

definition to_ipv4_mapped :: "128 word \<Rightarrow> 32 word option" where
  "to_ipv4_mapped a = (if drop_bit 32 a = 65535 then Some (ucast a) else None)"

subsection \<open>Fixed-width pieces of a word\<close>

definition chunks :: "nat \<Rightarrow> nat \<Rightarrow> 'a::len word \<Rightarrow> nat list" where
  "chunks w k a = map (\<lambda>i. unat (take_bit w (drop_bit (w * (k - 1 - i)) a))) [0..<k]"

lemma length_chunks [simp]: "length (chunks w k a) = k"
  by (simp add: chunks_def)

lemma chunks_nth:
  "i < k \<Longrightarrow> chunks w k a ! i = unat (take_bit w (drop_bit (w * (k - 1 - i)) a))"
  by (simp add: chunks_def)

lemma chunks_inj:
  fixes a b :: "'a::len word"
  assumes eq: "chunks w k a = chunks w k b" and w: "0 < w" and cover: "w * k = LENGTH('a)"
  shows "a = b"
proof (rule bit_word_eqI)
  fix n assume n: "n < LENGTH('a)"
  define q where "q = n div w"
  have q: "q < k"
    using n cover w by (simp add: q_def less_mult_imp_div_less mult.commute)
  have r: "n mod w < w" using w by simp
  have "chunks w k a ! (k - 1 - q) = chunks w k b ! (k - 1 - q)" using eq by simp
  then have "take_bit w (drop_bit (w * q) a) = take_bit w (drop_bit (w * q) b)"
    using q by (auto simp: chunks_nth intro: unsigned_word_eqI)
  then have "bit (take_bit w (drop_bit (w * q) a)) (n mod w)
      = bit (take_bit w (drop_bit (w * q) b)) (n mod w)" by simp
  moreover have "w * q + n mod w = n" by (simp add: q_def)
  ultimately show "bit a n = bit b n"
    using r by (simp add: bit_take_bit_iff bit_drop_bit_eq)
qed

subsection \<open>Display of addresses\<close>

definition show_v4 :: "32 word \<Rightarrow> string" where
  "show_v4 a = join_on CHR ''.'' (map show_nat (chunks 8 4 a))"

text \<open>
  The longest run of zero segments, the first one among the longest, as the loop of
  \<open>Ipv6Addr::fmt\<close> finds it: \<open>(start, len)\<close> of the longest and of the current run.
\<close>

fun zero_run :: "nat \<Rightarrow> nat list \<Rightarrow> nat \<times> nat \<Rightarrow> nat \<times> nat \<Rightarrow> nat \<times> nat" where
  "zero_run i [] longest current = longest"
| "zero_run i (s # ss) longest (cs, cl) =
     (if s = 0 then
        (let cs' = (if cl = 0 then i else cs);
             longest' = (if snd longest < Suc cl then (cs', Suc cl) else longest)
         in zero_run (Suc i) ss longest' (cs', Suc cl))
      else zero_run (Suc i) ss longest (0, 0))"

definition show_v6 :: "128 word \<Rightarrow> string" where
  "show_v6 a =
     (case to_ipv4_mapped a of
        Some v4 \<Rightarrow> ''::ffff:'' @ show_v4 v4
      | None \<Rightarrow>
          (let segs = chunks 16 8 a; (st, ln) = zero_run 0 segs (0, 0) (0, 0)
           in if 1 < ln
              then join_on CHR '':'' (map show_hex (take st segs)) @ ''::'' @
                   join_on CHR '':'' (map show_hex (drop (st + ln) segs))
              else join_on CHR '':'' (map show_hex segs)))"

fun show_ip :: "ip_addr \<Rightarrow> string" where
  "show_ip (IpV4 a) = show_v4 a"
| "show_ip (IpV6 a) = show_v6 a"

lemma show_v4_inj: "show_v4 a = show_v4 b \<Longrightarrow> a = b"
proof -
  assume eq: "show_v4 a = show_v4 b"
  have split: "split_on CHR ''.'' (show_v4 x) = map show_nat (chunks 8 4 x)" for x
    unfolding show_v4_def
    by (rule split_join) (auto simp: show_base_chars chunks_def upt_rec)
  have "map show_nat (chunks 8 4 a) = map show_nat (chunks 8 4 b)"
    using eq split by metis
  then have "chunks 8 4 a = chunks 8 4 b"
    by (rule map_injective) (auto intro!: injI show_base_inj [of 10])
  then show ?thesis by (rule chunks_inj) auto
qed


subsection \<open>Printing IPv6 addresses is injective\<close>

definition run_ok :: "nat list \<Rightarrow> nat \<times> nat \<Rightarrow> bool" where
  "run_ok segs r \<longleftrightarrow>
     fst r + snd r \<le> length segs \<and> (\<forall>j. fst r \<le> j \<and> j < fst r + snd r \<longrightarrow> segs ! j = 0)"

lemma zero_run_ok:
  assumes "ss = drop i segs" and "i \<le> length segs" and "run_ok segs longest"
    and "run_ok segs current" and "snd current = 0 \<or> fst current + snd current = i"
  shows "run_ok segs (zero_run i ss longest current)"
  using assms
proof (induction i ss longest current rule: zero_run.induct)
  case (1 i longest current)
  then show ?case by simp
next
  case (2 i s ss longest cs cl)
  from "2.prems"(1) have i: "i < length segs" and s: "segs ! i = s" and ss: "ss = drop (Suc i) segs"
    by (metis drop_eq_Nil2 list.distinct(1) not_le)
      (metis "2.prems"(1) drop_eq_Nil2 hd_drop_conv_nth list.distinct(1) list.sel(1) not_le,
       metis "2.prems"(1) drop_Suc list.sel(3) tl_drop)
  show ?case
  proof (cases "s = 0")
    case True
    define cs' where "cs' = (if cl = 0 then i else cs)"
    have cur: "run_ok segs (cs', Suc cl)" "cs' + Suc cl = Suc i"
      using "2.prems"(4,5) True s i by (auto simp: cs'_def run_ok_def less_Suc_eq)
    define l where "l = (if snd longest < Suc cl then (cs', Suc cl) else longest)"
    have "run_ok segs l" using cur(1) "2.prems"(3) by (simp add: l_def)
    with "2.IH"(1) [OF True cs'_def l_def ss] cur i
    have "run_ok segs (zero_run (Suc i) ss l (cs', Suc cl))" by simp
    moreover have "zero_run i (s # ss) longest (cs, cl) = zero_run (Suc i) ss l (cs', Suc cl)"
      by (simp add: True l_def cs'_def Let_def)
    ultimately show ?thesis by simp
  next
    case False
    with "2.IH"(2) [OF False ss] "2.prems"(3) i show ?thesis
      by (simp add: run_ok_def)
  qed
qed

text \<open>The inverse of the non-mapped forms: pieces before and after the gap.\<close>

definition read_v6 :: "string \<Rightarrow> nat list" where
  "read_v6 s =
     (let ps = split_on CHR '':'' s;
          p = takeWhile (\<lambda>x. x \<noteq> []) ps;
          q = filter (\<lambda>x. x \<noteq> []) (dropWhile (\<lambda>x. x \<noteq> []) ps)
      in map (read_base 16) p @ replicate (8 - length p - length q) 0 @ map (read_base 16) q)"

lemma split_join_gap:
  assumes "\<forall>p \<in> set ps. c \<notin> set p" and "\<forall>p \<in> set ps. p \<noteq> []"
  shows "\<exists>rest. split_on c (join_on c ps @ c # c # s) = ps @ [] # rest
      \<and> filter (\<lambda>x. x \<noteq> []) rest = filter (\<lambda>x. x \<noteq> []) (split_on c s)"
  using assms
proof (induction ps rule: join_on.induct)
  case (2 c p)
  then show ?case by (auto simp: split_on_append)
next
  case (3 c p v va)
  then show ?case by (auto simp: split_on_append)
qed simp

lemma takeWhile_gap:
  assumes "\<And>p. p \<in> set ps \<Longrightarrow> p \<noteq> []"
  shows "takeWhile (\<lambda>x. x \<noteq> []) (ps @ [] # rest) = ps"
    and "dropWhile (\<lambda>x. x \<noteq> []) (ps @ [] # rest) = [] # rest"
  using assms by (induction ps) auto

lemma read_show_segs:
  "map (read_base 16) (map show_hex xs) = xs"
  by (induction xs) (simp_all add: read_show_base)

lemma hex_pieces:
  "p \<in> set (map show_hex xs) \<Longrightarrow> CHR '':'' \<notin> set p \<and> CHR ''.'' \<notin> set p \<and> p \<noteq> []"
  by (auto simp: show_base_chars)

lemma filter_split_join_hex:
  "filter (\<lambda>x. x \<noteq> []) (split_on CHR '':'' (join_on CHR '':'' (map show_hex xs))) = map show_hex xs"
proof (cases "xs = []")
  case False
  then have "split_on CHR '':'' (join_on CHR '':'' (map show_hex xs)) = map show_hex xs"
    by (intro split_join) (auto simp: show_base_chars)
  then show ?thesis by (simp add: filter_id_conv)
qed simp

lemma read_gapped:
  assumes "length segs = 8" and "st + ln \<le> 8" and "\<And>j. st \<le> j \<Longrightarrow> j < st + ln \<Longrightarrow> segs ! j = 0"
  shows "read_v6 (join_on CHR '':'' (map show_hex (take st segs)) @ ''::'' @ join_on CHR '':'' (map show_hex (drop (st + ln) segs)))
    = segs"
proof -
  let ?p = "map show_hex (take st segs)" and ?q = "map show_hex (drop (st + ln) segs)"
  obtain rest where split: "split_on CHR '':'' (join_on CHR '':'' ?p @ ''::'' @ join_on CHR '':'' ?q) = ?p @ [] # rest"
    and rest: "filter (\<lambda>x. x \<noteq> []) rest = ?q"
    using split_join_gap [of ?p "CHR '':''" "join_on CHR '':'' ?q"] hex_pieces
      filter_split_join_hex [of "drop (st + ln) segs"] by fastforce
  have tw: "takeWhile (\<lambda>x. x \<noteq> []) (?p @ [] # rest) = ?p" "dropWhile (\<lambda>x. x \<noteq> []) (?p @ [] # rest) = [] # rest"
    using takeWhile_gap [of ?p rest] hex_pieces by blast+
  have zeros: "replicate (8 - length ?p - length ?q) 0 = take ln (drop st segs)"
    using assms by (intro nth_equalityI) auto
  have "read_v6 (join_on CHR '':'' ?p @ ''::'' @ join_on CHR '':'' ?q) = take st segs @ take ln (drop st segs) @ drop (st + ln) segs"
    unfolding read_v6_def Let_def split tw using rest zeros by (simp add: read_show_segs del: map_map)
  then show ?thesis by (metis append_take_drop_id drop_drop add.commute)
qed

lemma read_plain:
  assumes "length segs = 8"
  shows "read_v6 (join_on CHR '':'' (map show_hex segs)) = segs"
proof -
  let ?p = "map show_hex segs"
  have split: "split_on CHR '':'' (join_on CHR '':'' ?p) = ?p"
    using assms by (intro split_join) (auto simp: show_base_chars)
  have tw: "takeWhile (\<lambda>x. x \<noteq> []) ?p = ?p" and dw: "dropWhile (\<lambda>x. x \<noteq> []) ?p = []"
    by (auto simp: takeWhile_eq_all_conv dropWhile_eq_Nil_conv)
  have "read_v6 (join_on CHR '':'' ?p) = map (read_base 16) ?p"
    unfolding read_v6_def Let_def split tw dw by (simp add: assms del: map_map)
  then show ?thesis by (simp only: read_show_segs)
qed

lemma read_show_v6:
  assumes "to_ipv4_mapped a = None"
  shows "read_v6 (show_v6 a) = chunks 16 8 a"
proof -
  let ?segs = "chunks 16 8 a"
  obtain st ln where run: "zero_run 0 ?segs (0, 0) (0, 0) = (st, ln)" by fastforce
  have len: "length ?segs = 8" by simp
  have "run_ok ?segs (st, ln)"
    using zero_run_ok [of ?segs 0 ?segs "(0, 0)" "(0, 0)"] run by (simp add: run_ok_def)
  then have ok: "st + ln \<le> 8" "\<And>j. st \<le> j \<Longrightarrow> j < st + ln \<Longrightarrow> ?segs ! j = 0"
    by (auto simp: run_ok_def)
  from read_gapped [OF len ok] read_plain [OF len] assms run show ?thesis
    by (cases "1 < ln") (simp_all add: show_v6_def Let_def)
qed

lemma show_v4_chars: "CHR '':'' \<notin> set (show_v4 a)"
  using set_join_on [of "CHR ''.''" "map show_nat (chunks 8 4 a)"] show_base_chars [of 10]
  by (auto simp: show_v4_def)

lemma show_v6_plain_chars: "to_ipv4_mapped a = None \<Longrightarrow> CHR ''.'' \<notin> set (show_v6 a)"
proof -
  assume m: "to_ipv4_mapped a = None"
  have "CHR ''.'' \<notin> set (join_on CHR '':'' (map show_hex xs))" for xs
    using set_join_on [of "CHR '':''" "map show_hex xs"] show_base_chars [of 16] by auto
  with m show ?thesis by (auto simp: show_v6_def Let_def split: prod.splits if_splits)
qed

lemma show_v4_dot: "CHR ''.'' \<in> set (show_v4 a)"
  by (simp add: show_v4_def chunks_def upt_rec)

lemma show_v6_colon: "CHR '':'' \<in> set (show_v6 a)"
proof (cases "to_ipv4_mapped a")
  case None
  have "CHR '':'' \<in> set (join_on CHR '':'' (map show_hex (chunks 16 8 a)))"
    by (simp add: chunks_def upt_rec)
  with None show ?thesis
    by (cases "zero_run 0 (chunks 16 8 a) (0, 0) (0, 0)") (simp add: show_v6_def Let_def)
qed (simp add: show_v6_def)

lemma mapped_inj:
  assumes "to_ipv4_mapped a = Some v" and "to_ipv4_mapped b = Some v"
  shows "a = b"
proof -
  have hi: "drop_bit 32 a = drop_bit 32 b" and lo: "(ucast a :: 32 word) = ucast b"
    using assms by (auto simp: to_ipv4_mapped_def split: if_splits)
  show ?thesis
  proof (rule bit_word_eqI)
    fix n assume "n < LENGTH(128)"
    show "bit a n = bit b n"
    proof (cases "n < 32")
      case True
      have "bit (ucast a :: 32 word) n = bit (ucast b :: 32 word) n" using lo by simp
      with True show ?thesis by (simp add: bit_simps)
    next
      case False
      have "bit (drop_bit 32 a) (n - 32) = bit (drop_bit 32 b) (n - 32)" using hi by simp
      with False show ?thesis by (simp add: bit_simps)
    qed
  qed
qed

lemma show_v6_inj: "show_v6 a = show_v6 b \<Longrightarrow> a = b"
proof -
  assume eq: "show_v6 a = show_v6 b"
  have dot: "to_ipv4_mapped x = Some v \<Longrightarrow> CHR ''.'' \<in> set (show_v6 x)" for x v
    by (simp add: show_v6_def show_v4_dot)
  consider (plain) "to_ipv4_mapped a = None" "to_ipv4_mapped b = None"
    | (mapped) v w where "to_ipv4_mapped a = Some v" "to_ipv4_mapped b = Some w"
    using eq dot show_v6_plain_chars by (metis not_None_eq)
  then show ?thesis
  proof cases
    case plain
    with eq have "chunks 16 8 a = chunks 16 8 b" by (metis read_show_v6)
    then show ?thesis by (rule chunks_inj) auto
  next
    case mapped
    with eq have "show_v4 v = show_v4 w" by (simp add: show_v6_def)
    then have "v = w" by (rule show_v4_inj)
    with mapped show ?thesis by (auto intro: mapped_inj)
  qed
qed

lemma show_ip_inj: "show_ip a = show_ip b \<longleftrightarrow> a = b"
proof
  assume eq: "show_ip a = show_ip b"
  show "a = b"
    using eq show_v4_inj show_v6_inj show_v4_chars show_v6_colon
    by (cases a; cases b) (auto, metis+)
qed simp

end
