(* ===== verification/Messages.thy ===== *)
theory Messages
  imports Net
begin

text \<open>
  The protobuf messages of \<open>hbb_common::rendezvous_proto\<close>, with the fields the
  servers read or write, one record per message and one constructor of
  \<open>rendezvous_message::Union\<close> per message; and the functions of
  \<open>hbb_common\<close>, \<open>sodiumoxide\<close>, \<open>serde_json\<close> and the resolver as fields of a record of
  parameters, since their code is not part of this repository. A field of an
  \<open>EnumOrUnknown\<close> type is its wire value. A reply field that
  the code leaves at \<open>Default::default()\<close> is \<^const>\<open>None\<close> or empty. \<open>RequestRelay\<close> and
  \<open>RelayResponse\<close> are forwarded with one field rewritten, so they also carry the rest
  of their encoding.
\<close>

record register_peer = rp_id :: string  rp_serial :: i32

record register_pk = rk_id :: string  rk_uuid :: bytes  rk_pk :: bytes

record punch_hole_request =
  ph_id :: string
  ph_licence_key :: string
  ph_nat_type :: i32

record punch_hole_sent =
  phs_socket_addr :: bytes
  phs_id :: string
  phs_relay_server :: string
  phs_nat_type :: i32
  phs_version :: string

record local_addr_msg =
  la_socket_addr :: bytes
  la_local_addr :: bytes
  la_relay_server :: string
  la_id :: string
  la_version :: string

record config_update = cu_serial :: i32  cu_rendezvous_servers :: "string list"

record request_relay =
  rf_id :: string
  rf_uuid :: string
  rf_socket_addr :: bytes
  rf_licence_key :: string
  rf_rest :: bytes

text \<open>The \<open>id\<close> and the \<open>pk\<close> of a relay response are read and set by accessors.\<close>

record relay_response =
  rr_socket_addr :: bytes
  rr_relay_server :: string
  rr_id :: string
  rr_pk :: bytes
  rr_version :: string
  rr_rest :: bytes

datatype reg_result = OK | UUID_MISMATCH | TOO_FREQUENT | SERVER_ERROR | NOT_SUPPORT

datatype punch_failure = LICENSE_MISMATCH | OFFLINE | ID_NOT_EXIST

record punch_hole_response =
  phr_socket_addr :: bytes
  phr_pk :: bytes
  phr_failure :: "punch_failure option"
  phr_nat_type :: "i32 option"
  phr_is_local :: bool
  phr_relay_server :: string

record fetch_local_addr = fl_socket_addr :: bytes  fl_relay_server :: string

record punch_hole =
  pu_socket_addr :: bytes
  pu_relay_server :: string
  pu_nat_type :: i32

record test_nat_response = tn_port :: u16  tn_cu :: "config_update option"

datatype rmsg =
    RegisterPeer register_peer
  | RegisterPk register_pk
  | PunchHoleRequest punch_hole_request
  | PunchHoleSent punch_hole_sent
  | LocalAddr local_addr_msg
  | ConfigureUpdate config_update
  | SoftwareUpdate string
  | RequestRelay request_relay
  | RelayResponse relay_response
  | TestNatRequest i32
  | OnlineRequest "string list"
  | RegisterPeerResponse bool
  | RegisterPkResponse reg_result
  | PunchHoleResponse punch_hole_response
  | FetchLocalAddr fetch_local_addr
  | PunchHole punch_hole
  | TestNatResponse test_nat_response
  | OnlineResponse bytes
  | OtherMsg bytes

definition phr_default :: punch_hole_response where
  "phr_default =
     \<lparr>phr_socket_addr = [], phr_pk = [], phr_failure = None, phr_nat_type = None,
      phr_is_local = False, phr_relay_server = []\<rparr>"

definition phr_fail :: "punch_failure \<Rightarrow> rmsg" where
  "phr_fail f = PunchHoleResponse (phr_default\<lparr>phr_failure := Some f\<rparr>)"

record externals =
  x_into_v4 :: "socket_addr \<Rightarrow> socket_addr"
  x_mangle :: "instant \<Rightarrow> socket_addr \<Rightarrow> bytes"
  x_demangle :: "bytes \<Rightarrow> socket_addr"
  x_decode :: "bytes \<Rightarrow> rmsg option option"
  x_encode :: "rmsg \<Rightarrow> bytes option"
  x_id_pk :: "string \<Rightarrow> bytes \<Rightarrow> bytes"
  x_sign :: "bytes \<Rightarrow> bytes \<Rightarrow> bytes"
  x_resolves :: "string \<Rightarrow> bool"
  x_info_to_json :: "string \<Rightarrow> string"
  x_info_of_json :: "string \<Rightarrow> string"
  x_nat_known :: "i32 \<Rightarrow> bool"
  x_nat_symmetric :: i32

text \<open>
  \<open>test_if_valid_server\<close>: a host without a colon gets port 0; \<open>x_resolves\<close> tells whether the text resolves to an
  address at all.
\<close>

definition test_if_valid_server :: "externals \<Rightarrow> string \<Rightarrow> bool" where
  "test_if_valid_server x host =
     x_resolves x (if CHR '':'' \<in> set host then host else host @ '':0'')"

text \<open>
  Documented behaviour of the parameters that some properties rest on: \<open>serde_json\<close>
  reads back what it wrote.
\<close>

definition json_roundtrip :: "externals \<Rightarrow> bool" where
  "json_roundtrip x \<longleftrightarrow> (\<forall>ip. x_info_of_json x (x_info_to_json x ip) = ip)"

end
