(* ===== verification/Database.thy ===== *)
theory Database
  imports Prelude
begin

text \<open>
  \<open>src/database.rs\<close>: the table \<open>peer\<close> and its statements. The SQLite engine is
  not part of the repository; the model gives each SQL text its documented meaning on a
  list of rows, and every call takes a flag that says whether the pool and the engine
  answered (\<open>Err\<close> otherwise). The columns \<open>created_at\<close> and \<open>note\<close> are never read or
  written by name and are left out. \<open>guid\<close> is the primary key and \<open>index_peer_id\<close> makes
  \<open>id\<close> unique, so a statement that would break either is refused.
\<close>

record db_row =
  r_guid :: bytes
  r_id :: string
  r_uuid :: bytes
  r_pk :: bytes
  r_user :: "bytes option"
  r_info :: string
  r_status :: "int option"

type_synonym db = "db_row list"

datatype db_error = Unavailable | UniqueViolation

text \<open>\<open>create table if not exists\<close>: an existing table is kept.\<close>

definition create_tables :: "db option \<Rightarrow> db" where
  "create_tables t = (case t of None \<Rightarrow> [] | Some rows \<Rightarrow> rows)"

definition get_peer :: "bool \<Rightarrow> db \<Rightarrow> string \<Rightarrow> db_error + db_row option" where
  "get_peer up db pid = (if up then Inr (find (\<lambda>r. r_id r = pid) db) else Inl Unavailable)"

text \<open>\<open>guid\<close> is the fresh \<open>Uuid::new_v4\<close>; a new row has null \<open>user\<close> and \<open>status\<close>.\<close>

definition insert_peer ::
  "bool \<Rightarrow> bytes \<Rightarrow> string \<Rightarrow> bytes \<Rightarrow> bytes \<Rightarrow> string \<Rightarrow> db \<Rightarrow> db \<times> (db_error + bytes)" where
  "insert_peer up guid pid uuid pk info db =
     (if \<not> up then (db, Inl Unavailable)
      else if \<exists>r \<in> set db. r_guid r = guid \<or> r_id r = pid then (db, Inl UniqueViolation)
      else (db @ [\<lparr>r_guid = guid, r_id = pid, r_uuid = uuid, r_pk = pk, r_user = None,
                   r_info = info, r_status = None\<rparr>], Inr guid))"

text \<open>
  \<open>update peer set id=?, pk=?, info=? where guid=?\<close>: no row with that \<open>guid\<close> is not an
  error, and \<open>uuid\<close> is not among the columns set.
\<close>

definition set_rows :: "bytes \<Rightarrow> string \<Rightarrow> bytes \<Rightarrow> string \<Rightarrow> db \<Rightarrow> db" where
  "set_rows guid pid pk info db =
     map (\<lambda>r. if r_guid r = guid then r\<lparr>r_id := pid, r_pk := pk, r_info := info\<rparr> else r) db"

definition db_update_pk ::
  "bool \<Rightarrow> bytes \<Rightarrow> string \<Rightarrow> bytes \<Rightarrow> string \<Rightarrow> db \<Rightarrow> db \<times> (db_error + unit)" where
  "db_update_pk up guid pid pk info db =
     (if \<not> up then (db, Inl Unavailable)
      else if (\<exists>r \<in> set db. r_guid r = guid) \<and> (\<exists>r \<in> set db. r_guid r \<noteq> guid \<and> r_id r = pid)
      then (db, Inl UniqueViolation)
      else (set_rows guid pid pk info db, Inr ()))"

subsection \<open>The table's invariant\<close>

definition db_wf :: "db \<Rightarrow> bool" where
  "db_wf db \<longleftrightarrow> distinct (map r_guid db) \<and> distinct (map r_id db)"

definition find_row :: "db \<Rightarrow> string \<Rightarrow> db_row option" where
  "find_row db pid = find (\<lambda>r. r_id r = pid) db"

lemma get_peer_find: "get_peer True db pid = Inr (find_row db pid)"
  by (simp add: get_peer_def find_row_def)

lemma db_wf_create [simp]: "db_wf (create_tables None)"
  by (simp add: create_tables_def db_wf_def)

lemma db_wf_Cons:
  "db_wf (r # db) \<longleftrightarrow>
     r_guid r \<notin> r_guid ` set db \<and> r_id r \<notin> r_id ` set db \<and> db_wf db"
  by (auto simp: db_wf_def)

lemma set_rows_Nil [simp]: "set_rows guid pid pk info [] = []"
  by (simp add: set_rows_def)

lemma set_rows_Cons [simp]:
  "set_rows guid pid pk info (r # db) =
     (if r_guid r = guid then r\<lparr>r_id := pid, r_pk := pk, r_info := info\<rparr> else r)
       # set_rows guid pid pk info db"
  by (simp add: set_rows_def)

lemma set_rows_absent: "guid \<notin> r_guid ` set db \<Longrightarrow> set_rows guid pid pk info db = db"
  by (induction db) auto

lemma set_rows_guids [simp]: "r_guid ` set (set_rows guid pid pk info db) = r_guid ` set db"
  by (induction db) auto

lemma set_rows_ids:
  "i \<in> r_id ` set (set_rows guid pid pk info db) \<Longrightarrow> i = pid \<or> i \<in> r_id ` set db"
  by (induction db) (auto split: if_splits)

lemma insert_peer_wf: "db_wf db \<Longrightarrow> db_wf (fst (insert_peer up guid pid uuid pk info db))"
  by (auto simp: insert_peer_def db_wf_def)

lemma set_rows_wf:
  assumes "db_wf db" and "\<And>r. r \<in> set db \<Longrightarrow> r_guid r \<noteq> guid \<Longrightarrow> r_id r \<noteq> pid"
  shows "db_wf (set_rows guid pid pk info db)"
  using assms
proof (induction db)
  case (Cons r db)
  have tail: "db_wf (set_rows guid pid pk info db)"
    using Cons by (simp add: db_wf_Cons)
  show ?case
  proof (cases "r_guid r = guid")
    case True
    with Cons.prems have gone: "guid \<notin> r_guid ` set db" by (auto simp: db_wf_Cons)
    moreover have "pid \<notin> r_id ` set db" using Cons.prems(2) gone by force
    ultimately show ?thesis using True tail by (simp add: db_wf_Cons set_rows_absent)
  next
    case False
    then have "r_id r \<noteq> pid" using Cons.prems(2) by simp
    with False Cons.prems(1) tail set_rows_ids [of "r_id r" guid pid pk info db]
    show ?thesis by (auto simp: db_wf_Cons)
  qed
qed simp

lemma update_pk_wf: "db_wf db \<Longrightarrow> db_wf (fst (db_update_pk up guid pid pk info db))"
proof -
  assume wf: "db_wf db"
  show ?thesis
  proof (cases "guid \<in> r_guid ` set db")
    case True
    then have "\<exists>r \<in> set db. r_guid r = guid" by auto
    with wf show ?thesis by (auto simp: db_update_pk_def intro: set_rows_wf)
  next
    case False
    with wf show ?thesis by (simp add: db_update_pk_def set_rows_absent)
  qed
qed

lemma find_row_in: "find_row db pid = Some r \<Longrightarrow> r \<in> set db \<and> r_id r = pid"
  by (auto simp: find_row_def find_Some_iff)

lemma find_row_None: "find_row db pid = None \<longleftrightarrow> pid \<notin> r_id ` set db"
  by (auto simp: find_row_def find_None_iff)

lemma find_row_snoc:
  "find_row (db @ [r]) pid =
     (case find_row db pid of Some x \<Rightarrow> Some x | None \<Rightarrow> if r_id r = pid then Some r else None)"
  by (induction db) (auto simp: find_row_def)

lemma find_set_rows:
  assumes "db_wf db" and "find_row db pid = Some r" and "r_guid r = guid"
  shows "find_row (set_rows guid pid pk info db) q =
    (if q = pid then Some (r\<lparr>r_id := pid, r_pk := pk, r_info := info\<rparr>) else find_row db q)"
  using assms
proof (induction db)
  case (Cons x db)
  show ?case
  proof (cases "r_id x = pid")
    case True
    with Cons.prems have x: "x = r" by (simp add: find_row_def)
    with Cons.prems have "guid \<notin> r_guid ` set db" by (auto simp: db_wf_Cons)
    with x Cons.prems(3) True show ?thesis by (auto simp: find_row_def set_rows_absent)
  next
    case False
    with Cons.prems have "find_row db pid = Some r" by (simp add: find_row_def)
    moreover from this have "r \<in> set db" by (simp add: find_row_in)
    ultimately show ?thesis
      using Cons False by (auto simp: db_wf_Cons find_row_def)
  qed
qed (simp add: find_row_def)

subsection \<open>What the peer map relies on\<close>

text \<open>
  The contract of a store of peers: a created row is found under its id, an amended row
  keeps its \<open>guid\<close> and \<open>uuid\<close>, and neither touches another id. \<open>history\<close> is what a
  restart sees after one creation and any number of amendments of the same peer.
\<close>

fun amend_all ::
  "('d \<Rightarrow> bytes \<Rightarrow> string \<Rightarrow> bytes \<Rightarrow> string \<Rightarrow> 'd option) \<Rightarrow> bytes \<Rightarrow> string \<Rightarrow>
     (bytes \<times> string) list \<Rightarrow> 'd \<Rightarrow> 'd option" where
  "amend_all f g i [] d = Some d"
| "amend_all f g i ((k, j) # us) d =
     (case f d g i k j of None \<Rightarrow> None | Some d' \<Rightarrow> amend_all f g i us d')"

locale peer_store =
  fixes lookup :: "'d \<Rightarrow> string \<Rightarrow> db_row option"
    and create :: "'d \<Rightarrow> bytes \<Rightarrow> string \<Rightarrow> bytes \<Rightarrow> bytes \<Rightarrow> string \<Rightarrow> 'd option"
    and amend :: "'d \<Rightarrow> bytes \<Rightarrow> string \<Rightarrow> bytes \<Rightarrow> string \<Rightarrow> 'd option"
    and ok :: "'d \<Rightarrow> bool"
  assumes create_ok: "ok d \<Longrightarrow> create d g i u k j = Some d' \<Longrightarrow> ok d'"
    and create_lookup: "ok d \<Longrightarrow> create d g i u k j = Some d' \<Longrightarrow>
      lookup d' q = (if q = i then Some \<lparr>r_guid = g, r_id = i, r_uuid = u, r_pk = k,
        r_user = None, r_info = j, r_status = None\<rparr> else lookup d q)"
    and amend_total: "ok d \<Longrightarrow> lookup d i = Some r \<Longrightarrow> r_guid r = g \<Longrightarrow>
      \<exists>d'. amend d g i k j = Some d' \<and> ok d' \<and>
        (\<forall>q. lookup d' q = (if q = i then Some (r\<lparr>r_pk := k, r_info := j\<rparr>) else lookup d q))"
begin

lemma amendments:
  assumes "ok d" and "lookup d i = Some r" and "r_guid r = g"
  shows "\<exists>d'. amend_all amend g i us d = Some d' \<and> ok d' \<and>
    lookup d' i = Some (if us = [] then r
      else r\<lparr>r_pk := fst (last us), r_info := snd (last us)\<rparr>) \<and>
    (\<forall>q. q \<noteq> i \<longrightarrow> lookup d' q = lookup d q)"
  using assms
proof (induction us arbitrary: d r)
  case (Cons u us)
  obtain k j where u: "u = (k, j)" by (cases u)
  obtain d1 where d1: "amend d g i k j = Some d1" "ok d1"
    "\<And>q. lookup d1 q = (if q = i then Some (r\<lparr>r_pk := k, r_info := j\<rparr>) else lookup d q)"
    using amend_total [OF Cons.prems] by blast
  then have r1: "lookup d1 i = Some (r\<lparr>r_pk := k, r_info := j\<rparr>)" by simp
  show ?case
    using Cons.IH [OF d1(2) r1] Cons.prems(3) d1 u by auto
qed auto

lemma history:
  assumes "ok d" and "create d g i u k j = Some d'"
  shows "\<exists>d'' r. amend_all amend g i us d' = Some d'' \<and> ok d'' \<and> lookup d'' i = Some r \<and>
    r_guid r = g \<and> r_uuid r = u \<and> r_pk r = fst (last ((k, j) # us)) \<and>
    r_info r = snd (last ((k, j) # us)) \<and> (\<forall>q. q \<noteq> i \<longrightarrow> lookup d'' q = lookup d q)"
proof -
  define r where "r = \<lparr>r_guid = g, r_id = i, r_uuid = u, r_pk = k, r_user = None,
    r_info = j, r_status = None\<rparr>"
  have "lookup d' i = Some r" "r_guid r = g" and others: "\<And>q. q \<noteq> i \<Longrightarrow> lookup d' q = lookup d q"
    using create_lookup [OF assms] by (auto simp: r_def)
  from amendments [OF create_ok [OF assms] this(1,2), of us] others show ?thesis
    by (auto simp: r_def)
qed

end

definition store_create ::
  "db \<Rightarrow> bytes \<Rightarrow> string \<Rightarrow> bytes \<Rightarrow> bytes \<Rightarrow> string \<Rightarrow> db option" where
  "store_create db guid pid uuid pk info =
     (case insert_peer True guid pid uuid pk info db of
        (db', Inr _) \<Rightarrow> Some db' | (_, Inl _) \<Rightarrow> None)"

definition store_amend :: "db \<Rightarrow> bytes \<Rightarrow> string \<Rightarrow> bytes \<Rightarrow> string \<Rightarrow> db option" where
  "store_amend db guid pid pk info =
     (case db_update_pk True guid pid pk info db of
        (db', Inr _) \<Rightarrow> Some db' | (_, Inl _) \<Rightarrow> None)"

lemma store_create_row:
  assumes "store_create db guid pid uuid pk info = Some db'"
  shows "find_row db pid = None \<and> db' = db @ [\<lparr>r_guid = guid, r_id = pid, r_uuid = uuid,
    r_pk = pk, r_user = None, r_info = info, r_status = None\<rparr>]"
  using assms
  by (auto simp: store_create_def insert_peer_def find_row_None split: if_splits)

lemma store_amend_found:
  assumes wf: "db_wf db" and r: "find_row db pid = Some r" "r_guid r = guid"
  shows "\<exists>db'. store_amend db guid pid pk info = Some db' \<and> db_wf db' \<and>
    (\<forall>q. find_row db' q = (if q = pid then Some (r\<lparr>r_pk := pk, r_info := info\<rparr>)
      else find_row db q))"
proof -
  have rin: "r \<in> set db" "r_id r = pid" using find_row_in [OF r(1)] by auto
  have only: "r_guid r' = guid" if "r' \<in> set db" "r_id r' = pid" for r'
  proof -
    have "inj_on r_id (set db)" using wf by (simp add: db_wf_def distinct_map)
    then have "r' = r" using rin that by (auto dest: inj_onD)
    then show ?thesis using r(2) by simp
  qed
  have upd: "db_update_pk True guid pid pk info db = (set_rows guid pid pk info db, Inr ())"
    using only by (auto simp: db_update_pk_def)
  have row: "r\<lparr>r_id := pid, r_pk := pk, r_info := info\<rparr> = r\<lparr>r_pk := pk, r_info := info\<rparr>"
    using rin(2) by simp
  have "store_amend db guid pid pk info = Some (set_rows guid pid pk info db)"
    by (simp add: store_amend_def upd)
  moreover have "db_wf (set_rows guid pid pk info db)"
    using set_rows_wf [OF wf] only by metis
  ultimately show ?thesis
    using find_set_rows [OF wf r] row by auto
qed

interpretation table: peer_store find_row store_create store_amend db_wf
proof unfold_locales
  fix d :: db and g u k :: bytes and i j q :: string and d' r
  show "db_wf d \<Longrightarrow> store_create d g i u k j = Some d' \<Longrightarrow> db_wf d'"
    using insert_peer_wf [of d True g i u k j]
    by (auto simp: store_create_def split: prod.splits sum.splits)
  show "find_row d' q = (if q = i then Some \<lparr>r_guid = g, r_id = i, r_uuid = u, r_pk = k,
        r_user = None, r_info = j, r_status = None\<rparr> else find_row d q)"
    if "db_wf d" and "store_create d g i u k j = Some d'"
    using store_create_row [OF that(2)] by (auto simp: find_row_snoc split: option.split)
  show "db_wf d \<Longrightarrow> find_row d i = Some r \<Longrightarrow> r_guid r = g \<Longrightarrow>
      \<exists>d'. store_amend d g i k j = Some d' \<and> db_wf d' \<and>
        (\<forall>q. find_row d' q = (if q = i then Some (r\<lparr>r_pk := k, r_info := j\<rparr>)
          else find_row d q))"
    by (rule store_amend_found)
qed

text \<open>
  The table keeps the last word on every peer: after a successful insertion and any number of updates of
  that row, \<open>get_peer\<close> returns the \<open>guid\<close> and \<open>uuid\<close> of the insertion with the key and info of
  the last write, and the rows of all other ids are as before.
\<close>

theorem peer_table_history:
  assumes "db_wf db" and "insert_peer True g i u k j db = (db', Inr g)"
  shows "\<exists>db'' r. amend_all store_amend g i us db' = Some db'' \<and> get_peer True db'' i = Inr (Some r) \<and>
    r_guid r = g \<and> r_uuid r = u \<and> r_pk r = fst (last ((k, j) # us)) \<and>
    r_info r = snd (last ((k, j) # us)) \<and>
    (\<forall>q. q \<noteq> i \<longrightarrow> get_peer True db'' q = get_peer True db q)"
proof -
  have "store_create db g i u k j = Some db'" using assms(2) by (simp add: store_create_def)
  from table.history [OF assms(1) this, of us] show ?thesis by (auto simp: get_peer_find)
qed

lemma peer_table_history_witness:
  "\<exists>db'' r. amend_all store_amend [7] ''123456'' [([3], ''x''), ([4], ''y'')]
      (fst (insert_peer True [7] ''123456'' [1] [2] ''w'' [])) = Some db'' \<and>
    get_peer True db'' ''123456'' = Inr (Some r) \<and> r_uuid r = [1] \<and> r_pk r = [4]"
proof -
  have "db_wf ([] :: db)" by (simp add: db_wf_def)
  moreover have "insert_peer True [7] ''123456'' [1] [2] ''w'' []
      = (fst (insert_peer True [7] ''123456'' [1] [2] ''w'' []), Inr [7])"
    by (simp add: insert_peer_def)
  ultimately show ?thesis
    using peer_table_history [of "[]" "[7]" "''123456''" "[1]" "[2]" "''w''" _ "[([3], ''x''), ([4], ''y'')]"]
    by fastforce
qed

end
