(* ===== verification/Peers.thy ===== *)
theory Peers
  imports Messages Database
begin

text \<open>
  \<open>src/peer.rs\<close> and \<open>get_expired_time\<close> of \<open>src/common.rs\<close>: the \<open>Peer\<close>
  record and the \<open>PeerMap\<close>. A \<open>LockPeer\<close> is an \<open>Arc\<close> shared by the map and by the handlers
  that hold it, so it is an index into a heap of peers: a handler that writes through its
  handle changes what the map shows. The flags \<open>up\<close> say whether the database answered.
\<close>

record peer =
  p_socket_addr :: socket_addr
  p_last_reg_time :: instant
  p_guid :: bytes
  p_uuid :: bytes
  p_pk :: bytes
  p_ip :: string
  p_reg_pk :: "nat \<times> instant"

type_synonym lock_peer = nat

record peer_map =
  pm_map :: "string \<rightharpoonup> lock_peer"
  pm_heap :: "peer list"
  pm_db :: db

text \<open>One hour before \<open>now\<close>, or \<open>now\<close> where the platform cannot represent that.\<close>

definition get_expired_time :: "instant \<Rightarrow> instant" where
  "get_expired_time now =
     (if 3600 * 1000000000 \<le> now then now - 3600 * 1000000000 else now)"

definition peer_default :: "instant \<Rightarrow> peer" where
  "peer_default now =
     \<lparr>p_socket_addr = SocketV4 0 0, p_last_reg_time = get_expired_time now, p_guid = [],
      p_uuid = [], p_pk = [], p_ip = [], p_reg_pk = (0, get_expired_time now)\<rparr>"

definition peer_at :: "peer_map \<Rightarrow> lock_peer \<Rightarrow> peer" where
  "peer_at pm l = pm_heap pm ! l"

definition set_peer :: "lock_peer \<Rightarrow> peer \<Rightarrow> peer_map \<Rightarrow> peer_map" where
  "set_peer l p pm = pm\<lparr>pm_heap := (pm_heap pm)[l := p]\<rparr>"

text \<open>\<open>Arc::new(RwLock::new(p))\<close> and the insertion of the handle into the map.\<close>

definition add_peer :: "string \<Rightarrow> peer \<Rightarrow> peer_map \<Rightarrow> peer_map \<times> lock_peer" where
  "add_peer pid p pm =
     (pm\<lparr>pm_map := (pm_map pm)(pid \<mapsto> length (pm_heap pm)), pm_heap := pm_heap pm @ [p]\<rparr>,
      length (pm_heap pm))"

definition pm_new :: "db option \<Rightarrow> peer_map" where
  "pm_new t = \<lparr>pm_map = (\<lambda>_. None), pm_heap = [], pm_db = create_tables t\<rparr>"

definition pm_get_in_memory :: "string \<Rightarrow> peer_map \<Rightarrow> lock_peer option" where
  "pm_get_in_memory pid pm = pm_map pm pid"

definition pm_is_in_memory :: "string \<Rightarrow> peer_map \<Rightarrow> bool" where
  "pm_is_in_memory pid pm \<longleftrightarrow> pm_map pm pid \<noteq> None"

definition pm_get ::
  "externals \<Rightarrow> bool \<Rightarrow> instant \<Rightarrow> string \<Rightarrow> peer_map \<Rightarrow> peer_map \<times> lock_peer option" where
  "pm_get x up now pid pm =
     (case pm_map pm pid of
        Some l \<Rightarrow> (pm, Some l)
      | None \<Rightarrow>
          (case get_peer up (pm_db pm) pid of
             Inr (Some v) \<Rightarrow>
               (let (pm', l) = add_peer pid ((peer_default now)\<lparr>p_guid := r_guid v,
                    p_uuid := r_uuid v, p_pk := r_pk v, p_ip := x_info_of_json x (r_info v)\<rparr>) pm
                in (pm', Some l))
           | _ \<Rightarrow> (pm, None)))"

definition pm_get_or ::
  "externals \<Rightarrow> bool \<Rightarrow> instant \<Rightarrow> string \<Rightarrow> peer_map \<Rightarrow> peer_map \<times> lock_peer" where
  "pm_get_or x up now pid pm =
     (case pm_get x up now pid pm of
        (pm', Some l) \<Rightarrow> (pm', l)
      | (pm', None) \<Rightarrow>
          (case pm_map pm' pid of
             Some l \<Rightarrow> (pm', l)
           | None \<Rightarrow> add_peer pid (peer_default now) pm'))"

text \<open>
  \<open>update_pk\<close>: the in-memory peer is written first; a peer without \<open>guid\<close> is then
  inserted into the database, any other is updated there.
\<close>

definition pm_update_pk ::
  "externals \<Rightarrow> bool \<Rightarrow> bytes \<Rightarrow> instant \<Rightarrow> string \<Rightarrow> lock_peer \<Rightarrow> socket_addr \<Rightarrow> bytes \<Rightarrow> bytes \<Rightarrow>
     string \<Rightarrow> peer_map \<Rightarrow> peer_map \<times> reg_result" where
  "pm_update_pk x up fresh now pid l addr uuid pk ip pm =
     (let w = (peer_at pm l)\<lparr>p_socket_addr := addr, p_uuid := uuid, p_pk := pk,
                p_last_reg_time := now, p_ip := ip\<rparr>;
          pm1 = set_peer l w pm;
          info_str = x_info_to_json x ip
      in if p_guid w = [] then
           (case insert_peer up fresh pid uuid pk info_str (pm_db pm1) of
              (db', Inl _) \<Rightarrow> (pm1\<lparr>pm_db := db'\<rparr>, SERVER_ERROR)
            | (db', Inr guid) \<Rightarrow>
                (set_peer l (w\<lparr>p_guid := guid\<rparr>) (pm1\<lparr>pm_db := db'\<rparr>), OK))
         else
           (case db_update_pk up (p_guid w) pid pk info_str (pm_db pm1) of
              (db', Inl _) \<Rightarrow> (pm1\<lparr>pm_db := db'\<rparr>, SERVER_ERROR)
            | (db', Inr _) \<Rightarrow> (pm1\<lparr>pm_db := db'\<rparr>, OK)))"

subsection \<open>Well-formed peer maps\<close>

text \<open>
  Every handle in the map is allocated, no two ids share one, and the table keeps its
  keys distinct.
\<close>

definition pm_wf :: "peer_map \<Rightarrow> bool" where
  "pm_wf pm \<longleftrightarrow>
     (\<forall>pid l. pm_map pm pid = Some l \<longrightarrow> l < length (pm_heap pm)) \<and>
     inj_on (pm_map pm) (dom (pm_map pm)) \<and> db_wf (pm_db pm)"

definition peer_of :: "peer_map \<Rightarrow> string \<Rightarrow> peer option" where
  "peer_of pm pid = map_option (peer_at pm) (pm_map pm pid)"

lemma pm_wf_new [simp]: "pm_wf (pm_new None)"
  by (simp add: pm_wf_def pm_new_def)

lemma pm_wf_alloc: "pm_wf pm \<Longrightarrow> pm_map pm pid = Some l \<Longrightarrow> l < length (pm_heap pm)"
  by (simp add: pm_wf_def)

lemma pm_wf_distinct:
  "pm_wf pm \<Longrightarrow> pm_map pm a = Some l \<Longrightarrow> pm_map pm b = Some l \<Longrightarrow> a = b"
  by (force simp: pm_wf_def inj_on_def dom_def)

lemma set_peer_fields [simp]:
  "pm_map (set_peer l p pm) = pm_map pm"
  "pm_db (set_peer l p pm) = pm_db pm"
  "length (pm_heap (set_peer l p pm)) = length (pm_heap pm)"
  by (simp_all add: set_peer_def)

lemma peer_at_set [simp]:
  "l < length (pm_heap pm) \<Longrightarrow> peer_at (set_peer l p pm) l = p"
  "k \<noteq> l \<Longrightarrow> peer_at (set_peer l p pm) k = peer_at pm k"
  by (simp_all add: peer_at_def set_peer_def)

lemma peer_at_db [simp]: "peer_at (pm\<lparr>pm_db := d\<rparr>) l = peer_at pm l"
  by (simp add: peer_at_def)

lemma set_peer_wf: "pm_wf pm \<Longrightarrow> pm_wf (set_peer l p pm)"
  by (simp add: pm_wf_def)

lemma db_update_wf: "pm_wf pm \<Longrightarrow> db_wf d \<Longrightarrow> pm_wf (pm\<lparr>pm_db := d\<rparr>)"
  by (simp add: pm_wf_def)

lemma add_peer_wf:
  assumes "pm_wf pm" and "pm_map pm pid = None"
  shows "pm_wf (fst (add_peer pid p pm))"
proof -
  have "pm_map pm q \<noteq> Some (length (pm_heap pm))" for q
    using assms(1) by (auto simp: pm_wf_def)
  then have "inj_on ((pm_map pm)(pid \<mapsto> length (pm_heap pm)))
      (dom ((pm_map pm)(pid \<mapsto> length (pm_heap pm))))"
    using assms by (auto simp: pm_wf_def inj_on_def dom_def)
  then show ?thesis
    using assms by (auto simp: pm_wf_def add_peer_def less_SucI)
qed

lemma pm_get_wf: "pm_wf pm \<Longrightarrow> pm_wf (fst (pm_get x up now pid pm))"
  using add_peer_wf
  by (auto simp: pm_get_def Let_def case_prod_beta split: option.splits sum.splits)

lemma pm_get_or_wf: "pm_wf pm \<Longrightarrow> pm_wf (fst (pm_get_or x up now pid pm))"
  using pm_get_wf [of pm x up now pid] add_peer_wf
  by (auto simp: pm_get_or_def split: option.splits prod.splits)

lemma pm_update_pk_wf:
  "pm_wf pm \<Longrightarrow> pm_wf (fst (pm_update_pk x up fresh now pid l addr uuid pk ip pm))"
  using insert_peer_wf [of "pm_db pm" up fresh pid uuid pk "x_info_to_json x ip"]
    update_pk_wf [of "pm_db pm" up "p_guid (peer_at pm l)" pid pk "x_info_to_json x ip"]
  by (auto simp: pm_update_pk_def Let_def set_peer_wf db_update_wf pm_wf_def
      split: prod.splits sum.splits)

subsection \<open>What a peer looks like after each operation\<close>

lemma peer_of_set:
  assumes wf: "pm_wf pm" and l: "pm_map pm pid = Some l"
  shows "peer_of (set_peer l p pm) q = (if q = pid then Some p else peer_of pm q)"
proof (cases "q = pid")
  case True
  then show ?thesis using l pm_wf_alloc [OF wf l] by (simp add: peer_of_def)
next
  case False
  then have "k \<noteq> l" if "pm_map pm q = Some k" for k
    using pm_wf_distinct [OF wf l] that by metis
  then show ?thesis using False by (cases "pm_map pm q") (simp_all add: peer_of_def)
qed

lemma peer_of_add:
  "pm_wf pm \<Longrightarrow> peer_of (fst (add_peer pid p pm)) q = (if q = pid then Some p else peer_of pm q)"
  using pm_wf_alloc [of pm q]
  by (cases "pm_map pm q") (auto simp: peer_of_def add_peer_def peer_at_def nth_append)

lemma peer_of_db [simp]: "peer_of (pm\<lparr>pm_db := d\<rparr>) q = peer_of pm q"
  by (cases "pm_map pm q") (simp_all add: peer_of_def)

lemma peer_of_at: "pm_map pm pid = Some l \<Longrightarrow> peer_of pm pid = Some (peer_at pm l)"
  by (simp add: peer_of_def)

text \<open>The peer that a row of the table is loaded as.\<close>

definition loaded_peer :: "externals \<Rightarrow> instant \<Rightarrow> db_row \<Rightarrow> peer" where
  "loaded_peer x now v =
     (peer_default now)\<lparr>p_guid := r_guid v, p_uuid := r_uuid v, p_pk := r_pk v,
        p_ip := x_info_of_json x (r_info v)\<rparr>"

lemma pm_get_cases:
  assumes "pm_wf pm"
  obtains (hit) l where "pm_map pm pid = Some l" "pm_get x up now pid pm = (pm, Some l)"
  | (load) v pm' l where "pm_map pm pid = None" "up" "find_row (pm_db pm) pid = Some v"
      "pm_get x up now pid pm = (pm', Some l)" "pm_map pm' pid = Some l"
      "add_peer pid (loaded_peer x now v) pm = (pm', l)"
  | (miss) "pm_map pm pid = None" "up \<Longrightarrow> find_row (pm_db pm) pid = None"
      "pm_get x up now pid pm = (pm, None)"
proof (cases "pm_map pm pid")
  case (Some l)
  then show ?thesis using hit by (simp add: pm_get_def)
next
  case None
  show ?thesis
  proof (cases "if up then find_row (pm_db pm) pid else None")
    case (Some v)
    then have up: "up" "find_row (pm_db pm) pid = Some v" by (auto split: if_splits)
    obtain pm' l where add: "add_peer pid (loaded_peer x now v) pm = (pm', l)" by fastforce
    have "pm_map pm' pid = Some l" using add by (auto simp: add_peer_def)
    with load [OF None up _ _ add] None up add show ?thesis
      by (simp add: pm_get_def get_peer_find loaded_peer_def)
  next
    case n: None
    then have "up \<Longrightarrow> find_row (pm_db pm) pid = None" by simp
    moreover have "pm_get x up now pid pm = (pm, None)"
      using None n by (cases up) (simp add: pm_get_def get_peer_find, simp add: pm_get_def get_peer_def)
    ultimately show ?thesis using miss None by blast
  qed
qed

lemma pm_get_db [simp]: "pm_db (fst (pm_get x up now pid pm)) = pm_db pm"
  by (auto simp: pm_get_def add_peer_def Let_def split: option.split sum.split)

lemma pm_get_found: "pm_get x up now pid pm = (pm', Some l) \<Longrightarrow> pm_map pm' pid = Some l"
  by (auto simp: pm_get_def add_peer_def Let_def split: option.splits sum.splits)

lemma pm_get_other:
  assumes "pm_wf pm" and "q \<noteq> pid"
  shows "peer_of (fst (pm_get x up now pid pm)) q = peer_of pm q"
  using assms(1)
proof (cases rule: pm_get_cases [where pid = pid and x = x and up = up and now = now])
  case (load v pm' l)
  then show ?thesis using peer_of_add [OF assms(1), of pid "loaded_peer x now v" q] assms(2) by simp
qed auto

lemma pm_get_kept:
  "peer_of pm pid = Some p \<Longrightarrow> fst (pm_get x up now pid pm) = pm"
  by (auto simp: pm_get_def peer_of_def)

subsection \<open>Coherence of memory and table\<close>

text \<open>
  A peer that has a \<open>guid\<close> is the row of the table with that \<open>guid\<close>, under the same id
  and with the same \<open>uuid\<close>, and the table holds no empty \<open>uuid\<close>.
\<close>

definition pm_coh :: "peer_map \<Rightarrow> bool" where
  "pm_coh pm \<longleftrightarrow>
     (\<forall>r \<in> set (pm_db pm). r_uuid r \<noteq> []) \<and>
     (\<forall>pid p. peer_of pm pid = Some p \<longrightarrow> p_guid p \<noteq> [] \<longrightarrow>
        (\<exists>r. find_row (pm_db pm) pid = Some r \<and> r_guid r = p_guid p \<and> r_uuid r = p_uuid p))"

lemma pm_cohD:
  "pm_coh pm \<Longrightarrow> peer_of pm pid = Some p \<Longrightarrow> p_guid p \<noteq> [] \<Longrightarrow>
     \<exists>r. find_row (pm_db pm) pid = Some r \<and> r_guid r = p_guid p \<and> r_uuid r = p_uuid p"
  by (simp add: pm_coh_def)

lemma pm_coh_rows: "pm_coh pm \<Longrightarrow> r \<in> set (pm_db pm) \<Longrightarrow> r_uuid r \<noteq> []"
  by (simp add: pm_coh_def)

lemma pm_coh_new [simp]: "pm_coh (pm_new None)"
  by (simp add: pm_coh_def pm_new_def create_tables_def peer_of_def)

lemma add_peer_db [simp]: "pm_db (fst (add_peer pid p pm)) = pm_db pm"
  by (simp add: add_peer_def)

lemma add_peer_coh:
  assumes "pm_wf pm" and "pm_coh pm"
    and "p_guid p \<noteq> [] \<Longrightarrow> \<exists>r. find_row (pm_db pm) pid = Some r \<and> r_guid r = p_guid p \<and> r_uuid r = p_uuid p"
  shows "pm_coh (fst (add_peer pid p pm))"
  using assms by (auto simp: pm_coh_def peer_of_add)

lemma loaded_peer_fields [simp]:
  "p_guid (loaded_peer x now v) = r_guid v" "p_uuid (loaded_peer x now v) = r_uuid v"
  "p_pk (loaded_peer x now v) = r_pk v" "p_ip (loaded_peer x now v) = x_info_of_json x (r_info v)"
  by (simp_all add: loaded_peer_def)

lemma peer_default_fields [simp]:
  "p_guid (peer_default now) = []" "p_uuid (peer_default now) = []" "p_pk (peer_default now) = []"
  "p_ip (peer_default now) = []"
  by (simp_all add: peer_default_def)

lemma pm_get_coh:
  assumes "pm_wf pm" and "pm_coh pm"
  shows "pm_coh (fst (pm_get x up now pid pm))"
  using assms(1)
proof (cases rule: pm_get_cases [where pid = pid and x = x and up = up and now = now])
  case (load v pm' l)
  have "pm_coh (fst (add_peer pid (loaded_peer x now v) pm))"
    by (rule add_peer_coh [OF assms]) (simp add: load(3))
  with load show ?thesis by simp
qed (use assms in auto)

lemma pm_get_or_cases:
  assumes "pm_wf pm"
  obtains (got) pm' l where "pm_get x up now pid pm = (pm', Some l)"
      "pm_get_or x up now pid pm = (pm', l)"
  | (fresh) pm' l where "pm_map pm pid = None" "up \<Longrightarrow> find_row (pm_db pm) pid = None"
      "add_peer pid (peer_default now) pm = (pm', l)"
      "pm_get_or x up now pid pm = (pm', l)" "pm_map pm' pid = Some l"
  using assms
proof (cases rule: pm_get_cases [where pid = pid and x = x and up = up and now = now])
  case (hit l)
  then show ?thesis using got by (simp add: pm_get_or_def)
next
  case (load v pm' l)
  then show ?thesis using got by (simp add: pm_get_or_def)
next
  case miss
  obtain pm' l where "add_peer pid (peer_default now) pm = (pm', l)" by fastforce
  then show ?thesis using fresh [of pm' l] miss
    by (auto simp: pm_get_or_def add_peer_def)
qed

lemma pm_get_or_found: "pm_wf pm \<Longrightarrow> pm_get_or x up now pid pm = (pm', l) \<Longrightarrow> pm_map pm' pid = Some l"
  by (erule pm_get_or_cases [where pid = pid and x = x and up = up and now = now])
    (auto dest: pm_get_found)

lemma pm_get_or_coh:
  assumes "pm_wf pm" and "pm_coh pm"
  shows "pm_coh (fst (pm_get_or x up now pid pm))"
  using assms(1)
proof (cases rule: pm_get_or_cases [where pid = pid and x = x and up = up and now = now])
  case (got pm' l)
  then show ?thesis using pm_get_coh [OF assms, of x up now pid] by simp
next
  case (fresh pm' l)
  then show ?thesis using add_peer_coh [OF assms, of "peer_default now" pid] by simp
qed

lemma pm_get_or_other:
  assumes "pm_wf pm" and "q \<noteq> pid"
  shows "peer_of (fst (pm_get_or x up now pid pm)) q = peer_of pm q"
  using assms(1)
proof (cases rule: pm_get_or_cases [where pid = pid and x = x and up = up and now = now])
  case (got pm' l)
  then show ?thesis using pm_get_other [OF assms, of x up now] by simp
next
  case (fresh pm' l)
  then show ?thesis using peer_of_add [OF assms(1), of pid "peer_default now" q] assms(2) by simp
qed

lemma pm_get_or_db [simp]: "pm_db (fst (pm_get_or x up now pid pm)) = pm_db pm"
proof -
  obtain pm1 r where g: "pm_get x up now pid pm = (pm1, r)" by fastforce
  then have "pm_db pm1 = pm_db pm" by (metis fst_conv pm_get_db)
  with g show ?thesis by (auto simp: pm_get_or_def add_peer_def split: option.splits)
qed

lemma pm_get_or_kept:
  "peer_of pm pid = Some p \<Longrightarrow> fst (pm_get_or x up now pid pm) = pm"
  by (auto simp: pm_get_or_def pm_get_def peer_of_def)

subsection \<open>\<open>update_pk\<close>\<close>

text \<open>The peer as \<open>update_pk\<close> writes it in memory, before the database answers.\<close>

definition written_peer :: "instant \<Rightarrow> socket_addr \<Rightarrow> bytes \<Rightarrow> bytes \<Rightarrow> string \<Rightarrow> peer \<Rightarrow> peer" where
  "written_peer now addr uuid pk ip p =
     p\<lparr>p_socket_addr := addr, p_uuid := uuid, p_pk := pk, p_last_reg_time := now, p_ip := ip\<rparr>"

lemma written_peer_fields [simp]:
  "p_guid (written_peer now addr uuid pk ip p) = p_guid p"
  "p_uuid (written_peer now addr uuid pk ip p) = uuid"
  "p_pk (written_peer now addr uuid pk ip p) = pk" "p_ip (written_peer now addr uuid pk ip p) = ip"
  "p_socket_addr (written_peer now addr uuid pk ip p) = addr"
  "p_last_reg_time (written_peer now addr uuid pk ip p) = now"
  "p_reg_pk (written_peer now addr uuid pk ip p) = p_reg_pk p"
  by (simp_all add: written_peer_def)

lemma set_peer_db [simp]: "(set_peer l p pm)\<lparr>pm_db := pm_db pm\<rparr> = set_peer l p pm"
  and set_peer_twice [simp]: "set_peer l v ((set_peer l u pm)\<lparr>pm_db := d\<rparr>) = (set_peer l v pm)\<lparr>pm_db := d\<rparr>"
  by (simp_all add: set_peer_def)

text \<open>The two statements, each refused or carried out.\<close>

lemma insert_peer_cases:
  obtains (refused) e where "insert_peer up fresh pid uuid pk js db = (db, Inl e)"
  | (carried_out) db' where "up" "store_create db fresh pid uuid pk js = Some db'"
      "insert_peer up fresh pid uuid pk js db = (db', Inr fresh)"
proof (cases "snd (insert_peer up fresh pid uuid pk js db) = Inr fresh")
  case True
  then have "up" by (auto simp: insert_peer_def split: if_splits)
  with True carried_out [of "fst (insert_peer up fresh pid uuid pk js db)"] show ?thesis
    by (auto simp: store_create_def insert_peer_def split: if_splits)
qed (use refused in \<open>auto simp: insert_peer_def split: if_splits\<close>)

lemma db_update_pk_cases:
  obtains (refused) e where "db_update_pk up g pid pk js db = (db, Inl e)"
  | (carried_out) db' where "up" "store_amend db g pid pk js = Some db'"
      "db_update_pk up g pid pk js db = (db', Inr ())"
proof (cases "snd (db_update_pk up g pid pk js db) = Inr ()")
  case True
  then have "up" by (auto simp: db_update_pk_def split: if_splits)
  with True carried_out [of "fst (db_update_pk up g pid pk js db)"] show ?thesis
    by (auto simp: store_amend_def db_update_pk_def split: if_splits)
qed (use refused in \<open>auto simp: db_update_pk_def split: if_splits\<close>)

lemma pm_update_pk_cases:
  fixes now :: instant and addr :: socket_addr and uuid pk :: bytes and ip :: string
    and x :: externals and pm :: peer_map and l :: lock_peer
  assumes wf: "pm_wf pm" and l: "pm_map pm pid = Some l"
  defines "w \<equiv> written_peer now addr uuid pk ip (peer_at pm l)"
    and "js \<equiv> x_info_to_json x ip"
  obtains (failed) "pm_update_pk x up fresh now pid l addr uuid pk ip pm = (set_peer l w pm, SERVER_ERROR)"
  | (inserted) db' where "p_guid (peer_at pm l) = []" "up"
      "store_create (pm_db pm) fresh pid uuid pk js = Some db'"
      "pm_update_pk x up fresh now pid l addr uuid pk ip pm =
         ((set_peer l (w\<lparr>p_guid := fresh\<rparr>) pm)\<lparr>pm_db := db'\<rparr>, OK)"
  | (updated) db' where "p_guid (peer_at pm l) \<noteq> []" "up"
      "store_amend (pm_db pm) (p_guid (peer_at pm l)) pid pk js = Some db'"
      "pm_update_pk x up fresh now pid l addr uuid pk ip pm = ((set_peer l w pm)\<lparr>pm_db := db'\<rparr>, OK)"
proof (cases "p_guid (peer_at pm l) = []")
  note upd = pm_update_pk_def w_def js_def written_peer_def Let_def
  case True
  show ?thesis
  proof (cases rule: insert_peer_cases [of up fresh pid uuid pk js "pm_db pm"])
    case (refused e)
    with True failed show ?thesis by (simp add: upd)
  next
    case (carried_out db')
    with True inserted [of db'] show ?thesis by (simp add: upd)
  qed
next
  note upd = pm_update_pk_def w_def js_def written_peer_def Let_def
  case False
  show ?thesis
  proof (cases rule: db_update_pk_cases [of up "p_guid (peer_at pm l)" pid pk js "pm_db pm"])
    case (refused e)
    with False failed show ?thesis by (simp add: upd)
  next
    case (carried_out db')
    with False updated [of db'] show ?thesis by (simp add: upd)
  qed
qed

lemma pm_update_pk_map [simp]:
  "pm_map (fst (pm_update_pk x up fresh now pid l addr uuid pk ip pm)) = pm_map pm"
  by (simp add: pm_update_pk_def Let_def split: prod.split sum.split)

lemma pm_update_pk_memory:
  assumes wf: "pm_wf pm" and l: "pm_map pm pid = Some l"
  shows "\<exists>g. peer_of (fst (pm_update_pk x up fresh now pid l addr uuid pk ip pm)) pid
      = Some ((written_peer now addr uuid pk ip (peer_at pm l))\<lparr>p_guid := g\<rparr>)"
    and "q \<noteq> pid \<Longrightarrow> peer_of (fst (pm_update_pk x up fresh now pid l addr uuid pk ip pm)) q
      = peer_of pm q"
proof -
  let ?w = "written_peer now addr uuid pk ip (peer_at pm l)"
  have "?w = ?w\<lparr>p_guid := p_guid (peer_at pm l)\<rparr>" by (simp add: written_peer_def)
  then have ex: "\<exists>g. ?w = ?w\<lparr>p_guid := g\<rparr>" by blast
  show "\<exists>g. peer_of (fst (pm_update_pk x up fresh now pid l addr uuid pk ip pm)) pid
      = Some (?w\<lparr>p_guid := g\<rparr>)"
    using wf l
    by (cases rule: pm_update_pk_cases [where x = x and up = up and fresh = fresh and now = now
          and addr = addr and uuid = uuid and pk = pk and ip = ip])
      (use peer_of_set [OF wf l] ex in \<open>auto\<close>)
  show "q \<noteq> pid \<Longrightarrow> peer_of (fst (pm_update_pk x up fresh now pid l addr uuid pk ip pm)) q
      = peer_of pm q"
    using wf l
    by (cases rule: pm_update_pk_cases [where x = x and up = up and fresh = fresh and now = now
          and addr = addr and uuid = uuid and pk = pk and ip = ip])
      (use peer_of_set [OF wf l] in \<open>auto\<close>)
qed

lemma pm_update_pk_table:
  assumes wf: "pm_wf pm" and coh: "pm_coh pm" and l: "pm_map pm pid = Some l"
    and old: "p_guid (peer_at pm l) \<noteq> [] \<Longrightarrow> uuid = p_uuid (peer_at pm l)"
  shows "(q \<noteq> pid \<longrightarrow> find_row (pm_db (fst (pm_update_pk x up fresh now pid l addr uuid pk ip pm))) q
      = find_row (pm_db pm) q) \<and>
    (snd (pm_update_pk x up fresh now pid l addr uuid pk ip pm) = OK \<longrightarrow>
      (\<exists>r. find_row (pm_db (fst (pm_update_pk x up fresh now pid l addr uuid pk ip pm))) pid = Some r
        \<and> r_uuid r = uuid \<and> r_pk r = pk \<and> r_info r = x_info_to_json x ip))"
  using wf l
proof (cases rule: pm_update_pk_cases [where x = x and up = up and fresh = fresh and now = now
      and addr = addr and uuid = uuid and pk = pk and ip = ip])
  case failed
  then show ?thesis by simp
next
  case (inserted db')
  have "db_wf (pm_db pm)" using wf by (simp add: pm_wf_def)
  from table.create_lookup [OF this inserted(3)] inserted(4) show ?thesis by simp
next
  case (updated db')
  have dwf: "db_wf (pm_db pm)" using wf by (simp add: pm_wf_def)
  obtain r where r: "find_row (pm_db pm) pid = Some r" "r_guid r = p_guid (peer_at pm l)"
    "r_uuid r = uuid"
    using pm_cohD [OF coh peer_of_at [OF l] updated(1)] old [OF updated(1)] by auto
  from table.amend_total [OF dwf r(1,2), of pk "x_info_to_json x ip"] updated(3,4) r(3)
  show ?thesis by auto
qed

lemma store_create_rows:
  "store_create db g i u k j = Some db' \<Longrightarrow> r \<in> set db' \<Longrightarrow> r \<in> set db \<or> r_uuid r = u"
  by (auto dest!: store_create_row)

lemma store_amend_rows:
  "store_amend db g i k j = Some db' \<Longrightarrow> r \<in> set db' \<Longrightarrow> \<exists>r' \<in> set db. r_uuid r = r_uuid r'"
  by (auto simp: store_amend_def db_update_pk_def set_rows_def split: if_splits) blast+

lemma pm_update_pk_coh:
  assumes wf: "pm_wf pm" and coh: "pm_coh pm" and l: "pm_map pm pid = Some l"
    and old: "p_guid (peer_at pm l) \<noteq> [] \<Longrightarrow> uuid = p_uuid (peer_at pm l)" and new: "uuid \<noteq> []"
  shows "pm_coh (fst (pm_update_pk x up fresh now pid l addr uuid pk ip pm))"
  using wf l
proof (cases rule: pm_update_pk_cases [where x = x and up = up and fresh = fresh and now = now
      and addr = addr and uuid = uuid and pk = pk and ip = ip])
  case failed
  then show ?thesis using coh old pm_cohD [OF coh peer_of_at [OF l]]
    by (auto simp: pm_coh_def peer_of_set [OF wf l])
next
  case (inserted db')
  have dwf: "db_wf (pm_db pm)" using wf by (simp add: pm_wf_def)
  have "\<forall>r \<in> set db'. r_uuid r \<noteq> []"
    using store_create_rows [OF inserted(3)] coh new by (auto simp: pm_coh_def)
  with inserted(4) coh show ?thesis
    by (auto simp: pm_coh_def peer_of_set [OF wf l] table.create_lookup [OF dwf inserted(3)])
next
  case (updated db')
  have dwf: "db_wf (pm_db pm)" using wf by (simp add: pm_wf_def)
  obtain r where r: "find_row (pm_db pm) pid = Some r" "r_guid r = p_guid (peer_at pm l)"
    "r_uuid r = uuid"
    using pm_cohD [OF coh peer_of_at [OF l] updated(1)] old [OF updated(1)] by auto
  have "\<forall>r \<in> set db'. r_uuid r \<noteq> []"
    using store_amend_rows [OF updated(3)] coh by (fastforce simp: pm_coh_def)
  moreover have "find_row db' q = (if q = pid then Some (r\<lparr>r_pk := pk, r_info := x_info_to_json x ip\<rparr>)
      else find_row (pm_db pm) q)" for q
    using table.amend_total [OF dwf r(1,2), of pk "x_info_to_json x ip"] updated(3) by auto
  ultimately show ?thesis using updated(4) coh r
    by (auto simp: pm_coh_def peer_of_set [OF wf l])
qed

subsection \<open>The identity a server holds for an id\<close>

text \<open>
  The abstraction of a peer map: for each id, the \<open>uuid\<close>, key and address that a
  registration is compared with, from memory or else from the table.
\<close>

definition known_identity :: "externals \<Rightarrow> peer_map \<Rightarrow> string \<Rightarrow> (bytes \<times> bytes \<times> string) option" where
  "known_identity x pm pid =
     (case peer_of pm pid of
        Some p \<Rightarrow> (if p_uuid p = [] then None else Some (p_uuid p, p_pk p, p_ip p))
      | None \<Rightarrow>
          (case find_row (pm_db pm) pid of
             Some r \<Rightarrow> (if r_uuid r = [] then None
                       else Some (r_uuid r, r_pk r, x_info_of_json x (r_info r)))
           | None \<Rightarrow> None))"

lemma pm_get_or_identity:
  assumes wf: "pm_wf pm"
  shows "known_identity x (fst (pm_get_or x True now pid pm)) q = known_identity x pm q"
proof (cases "q = pid")
  case False
  then show ?thesis using pm_get_or_other [OF wf False, of x True now]
    unfolding known_identity_def pm_get_or_db by simp
next
  case True
  show ?thesis
  proof (cases "peer_of pm pid")
    case (Some p)
    then show ?thesis using True by (simp add: pm_get_or_kept)
  next
    case None
    then have nomap: "pm_map pm pid = None" by (simp add: peer_of_def)
    from wf show ?thesis
    proof (cases rule: pm_get_cases [where pid = pid and x = x and up = True and now = now])
      case (load v pm' l)
      have "peer_of pm' pid = Some (loaded_peer x now v)"
        using peer_of_add [OF wf, of pid "loaded_peer x now v" pid] load(6) by simp
      moreover have "pm_get_or x True now pid pm = (pm', l)" using load by (simp add: pm_get_or_def)
      ultimately show ?thesis using True None load(3) by (simp add: known_identity_def)
    next
      case miss
      then have "pm_get_or x True now pid pm = add_peer pid (peer_default now) pm"
        by (simp add: pm_get_or_def)
      then show ?thesis using True None miss(2)
        by (simp add: known_identity_def peer_of_add [OF wf])
    qed (simp add: nomap)
  qed
qed

lemma pm_get_identity:
  assumes wf: "pm_wf pm"
  shows "known_identity x (fst (pm_get x True now pid pm)) q = known_identity x pm q"
  using wf
proof (cases rule: pm_get_cases [where pid = pid and x = x and up = True and now = now])
  case (load v pm' l)
  then have "fst (pm_get_or x True now pid pm) = fst (pm_get x True now pid pm)"
    by (simp add: pm_get_or_def)
  then show ?thesis using pm_get_or_identity [OF wf, of x now pid q] by simp
qed auto

end
