(* ===== verification/Rate_Window.thy ===== *)
theory Rate_Window
  imports Prelude
begin

text \<open>
  The contract of a windowed counter. Both throttles of the rendezvous server (the
  per-address counter of \<open>check_ip_blocker\<close> and the per-peer \<open>reg_pk\<close> counter of the
  \<open>RegisterPk\<close> handler) have the same shape: an attempt after more than \<open>window\<close> seconds
  of silence restarts the count at one, an attempt with more than \<open>limit\<close> on the count is
  refused and changes nothing, any other attempt adds one and refreshes the stamp.
  The lemmas bound what a burst can get through, once for both.
\<close>

text \<open>Number of accepted attempts, and the counter after all of them.\<close>

fun run_attempts :: "(instant \<Rightarrow> 'c \<Rightarrow> 'c option) \<Rightarrow> instant list \<Rightarrow> 'c \<Rightarrow> nat \<times> 'c" where
  "run_attempts f [] c = (0, c)"
| "run_attempts f (t # ts) c =
     (case f t c of
        None \<Rightarrow> run_attempts f ts c
      | Some c' \<Rightarrow> (let (n, d) = run_attempts f ts c' in (Suc n, d)))"

locale windowed_counter =
  fixes attempt :: "instant \<Rightarrow> 'c \<Rightarrow> 'c option"
    and count :: "'c \<Rightarrow> nat"
    and stamp :: "'c \<Rightarrow> instant"
    and window :: nat
    and limit :: nat
  assumes attempt_expired: "window < elapsed_secs now (stamp c) \<Longrightarrow>
      \<exists>c'. attempt now c = Some c' \<and> count c' = 1 \<and> stamp c' = now"
    and attempt_full: "elapsed_secs now (stamp c) \<le> window \<Longrightarrow> limit < count c \<Longrightarrow>
      attempt now c = None"
    and attempt_open: "elapsed_secs now (stamp c) \<le> window \<Longrightarrow> count c \<le> limit \<Longrightarrow>
      \<exists>c'. attempt now c = Some c' \<and> count c' = Suc (count c) \<and> stamp c' = now"
begin

lemma attempt_cases:
  obtains (refused) "attempt now c = None" "elapsed_secs now (stamp c) \<le> window" "limit < count c"
  | (restarted) c' where "attempt now c = Some c'" "count c' = 1" "stamp c' = now"
      "window < elapsed_secs now (stamp c)"
  | (counted) c' where "attempt now c = Some c'" "count c' = Suc (count c)" "stamp c' = now"
      "elapsed_secs now (stamp c) \<le> window" "count c \<le> limit"
  by (metis attempt_expired attempt_full attempt_open not_le)

lemma refused_iff:
  "attempt now c = None \<longleftrightarrow> elapsed_secs now (stamp c) \<le> window \<and> limit < count c"
  by (rule attempt_cases [of now c]) auto

lemma accepted_count: "attempt now c = Some c' \<Longrightarrow> 1 \<le> count c' \<and> count c' \<le> Suc limit \<and> stamp c' = now"
  by (rule attempt_cases [of now c]) auto

lemma burst_within_window:
  assumes "sorted (stamp c # ts)" and "\<forall>t \<in> set ts. elapsed_secs t (stamp c) \<le> window"
    and "count c \<le> Suc limit"
  shows "fst (run_attempts attempt ts c) + count c \<le> Suc limit"
  using assms
proof (induction ts arbitrary: c)
  case (Cons t ts)
  have fresh: "elapsed_secs t (stamp c) \<le> window" using Cons.prems(2) by simp
  show ?case
  proof (cases "count c \<le> limit")
    case False
    with fresh have "attempt t c = None" by (simp add: refused_iff)
    with Cons show ?thesis by simp
  next
    case True
    from attempt_open [OF fresh True] obtain c'
      where c': "attempt t c = Some c'" "count c' = Suc (count c)" "stamp c' = t" by blast
    have "elapsed_secs u (stamp c') \<le> window" if "u \<in> set ts" for u
      using Cons.prems that c'(3) elapsed_secs_antimono [of "stamp c" t u]
      by (force intro: order_trans)
    with Cons.IH [of c'] Cons.prems c' True
    have "fst (run_attempts attempt ts c') + count c' \<le> Suc limit" by simp
    with c' show ?thesis by (simp add: case_prod_beta)
  qed
qed simp

text \<open>
  Whatever state the counter is in, attempts spanning at most \<open>window\<close> seconds get
  through at most \<open>limit + 1\<close> times.
\<close>

lemma burst_limit:
  assumes "sorted ts" and "\<forall>t \<in> set ts. elapsed_secs t (hd ts) \<le> window"
  shows "fst (run_attempts attempt ts c) \<le> Suc limit"
  using assms
proof (induction ts arbitrary: c)
  case (Cons t ts)
  show ?case
  proof (cases "attempt t c")
    case None
    have "elapsed_secs u (hd ts) \<le> window" if "u \<in> set ts" for u
    proof -
      have "t \<le> hd ts" using Cons.prems(1) that by (cases ts) auto
      then have "elapsed_secs u (hd ts) \<le> elapsed_secs u t" by (rule elapsed_secs_antimono)
      then show ?thesis using Cons.prems(2) that by fastforce
    qed
    with None Cons show ?thesis by simp
  next
    case (Some c')
    from accepted_count [OF Some] have c': "1 \<le> count c'" "count c' \<le> Suc limit" "stamp c' = t" by auto
    with burst_within_window [of c' ts] Cons.prems
    have "fst (run_attempts attempt ts c') + count c' \<le> Suc limit" by simp
    with Some c'(1) show ?thesis by (simp add: case_prod_beta)
  qed
qed simp

text \<open>A refusal is never permanent: after \<open>window\<close> seconds of silence the next attempt passes.\<close>

lemma recovers: "window < elapsed_secs now (stamp c) \<Longrightarrow> attempt now c \<noteq> None"
  using attempt_expired by fastforce

end

end
