(* ===== verification/Ip_Guard.thy ===== *)
theory Ip_Guard
  imports Rate_Window Net "HOL-Library.FSet"
begin

text \<open>
  The registration throttles: \<open>IP_BLOCKER\<close> with \<open>check_ip_blocker\<close>
  (\<open>src/rendezvous_server.rs\<close>), the \<open>reg_pk\<close> counter of a peer, and the record of address
  changes \<open>IP_CHANGES\<close>. The constants are those of \<open>src/peer.rs\<close>. A counter is the pair of a
  count and the instant of the last counted attempt; a \<open>HashSet\<close> is a finite set.
\<close>

definition IP_BLOCK_DUR :: nat where "IP_BLOCK_DUR = 60"
definition DAY_SECONDS :: nat where "DAY_SECONDS = 3600 * 24"
definition IP_CHANGE_DUR :: nat where "IP_CHANGE_DUR = 180"

type_synonym ip_entry = "(nat \<times> instant) \<times> (string fset \<times> instant)"
type_synonym ip_block_map = "string \<rightharpoonup> ip_entry"
type_synonym ip_changes_map = "string \<rightharpoonup> instant \<times> (string \<rightharpoonup> i32)"

subsection \<open>The counters\<close>

text \<open>The first counter of an entry: attempts of one address, at most one a minute apart.\<close>

definition ip_attempt :: "instant \<Rightarrow> nat \<times> instant \<Rightarrow> (nat \<times> instant) option" where
  "ip_attempt now counter =
     (if IP_BLOCK_DUR < elapsed_secs now (snd counter) then Some (0 + 1, now)
      else if 30 < fst counter then None
      else Some (fst counter + 1, now))"

text \<open>The second counter: the distinct ids an address asked for within a day.\<close>

definition id_attempt :: "instant \<Rightarrow> string \<Rightarrow> string fset \<times> instant \<Rightarrow> bool \<times> (string fset \<times> instant)" where
  "id_attempt now pid counter =
     (let (ids, t) = counter; is_new = pid |\<notin>| ids
      in if DAY_SECONDS < elapsed_secs now t then
           (True, ((if is_new then {|pid|} else {||}), now))
         else if 300 < fcard ids then (\<not> is_new, (ids, t))
         else (True, ((if is_new then finsert pid ids else ids), now)))"

definition check_ip_blocker ::
  "instant \<Rightarrow> string \<Rightarrow> string \<Rightarrow> ip_block_map \<Rightarrow> bool \<times> ip_block_map" where
  "check_ip_blocker now ip pid lock =
     (case lock ip of
        Some (a, b) \<Rightarrow>
          (case ip_attempt now a of
             None \<Rightarrow> (False, lock)
           | Some a' \<Rightarrow>
               (let (allowed, b') = id_attempt now pid b
                in (allowed, lock(ip \<mapsto> (a', b')))))
      | None \<Rightarrow> (True, lock(ip \<mapsto> ((0, now), ({||}, now)))))"

text \<open>The \<open>reg_pk\<close> counter of a peer: \<open>None\<close> is the early return with \<open>TOO_FREQUENT\<close>.\<close>

definition reg_pk_attempt :: "instant \<Rightarrow> nat \<times> instant \<Rightarrow> (nat \<times> instant) option" where
  "reg_pk_attempt now req_pk =
     (if 6 < elapsed_secs now (snd req_pk) then Some (0 + 1, now)
      else if 2 < fst req_pk then None
      else Some (fst req_pk + 1, now))"

interpretation ip_window: windowed_counter ip_attempt fst snd 60 30
  by unfold_locales (auto simp: ip_attempt_def IP_BLOCK_DUR_def)

interpretation reg_window: windowed_counter reg_pk_attempt fst snd 6 2
  by unfold_locales (auto simp: reg_pk_attempt_def)

subsection \<open>The address-change log\<close>

definition note_ip_change ::
  "instant \<Rightarrow> string \<Rightarrow> string \<Rightarrow> ip_changes_map \<Rightarrow> ip_changes_map" where
  "note_ip_change now pid ip lock =
     (case lock pid of
        Some (tm, ips) \<Rightarrow>
          (if IP_CHANGE_DUR < elapsed_secs now tm then lock(pid \<mapsto> (now, [ip \<mapsto> 1]))
           else (case ips ip of
                   Some v \<Rightarrow> lock(pid \<mapsto> (tm, ips(ip \<mapsto> v + 1)))
                 | None \<Rightarrow> lock(pid \<mapsto> (tm, ips(ip \<mapsto> 1)))))
      | None \<Rightarrow> lock(pid \<mapsto> (now, [ip \<mapsto> 1])))"

subsection \<open>Bounds\<close>

declare fcard_fempty [simp]

text \<open>
  The bounds every entry keeps: the \<open>u32\<close> count never exceeds 31 and the id set never holds more than
  301 ids, so neither grows without limit whatever a client sends.
\<close>

definition entry_ok :: "ip_entry \<Rightarrow> bool" where
  "entry_ok e \<longleftrightarrow> fst (fst e) \<le> 31 \<and> fcard (fst (snd e)) \<le> 301"

definition blocker_ok :: "ip_block_map \<Rightarrow> bool" where
  "blocker_ok lock \<longleftrightarrow> (\<forall>ip e. lock ip = Some e \<longrightarrow> entry_ok e)"

lemma blocker_okD: "blocker_ok lock \<Longrightarrow> lock ip = Some e \<Longrightarrow> entry_ok e"
  unfolding blocker_ok_def by blast

lemma id_attempt_card:
  "fcard (fst b) \<le> 301 \<Longrightarrow> fcard (fst (snd (id_attempt now pid b))) \<le> 301"
  by (cases b) (auto simp: id_attempt_def Let_def fcard_finsert_if fcard_fempty)

lemma check_ip_blocker_cases:
  obtains (new) "lock ip = None"
      "check_ip_blocker now ip pid lock = (True, lock(ip \<mapsto> ((0, now), ({||}, now))))"
  | (full) a b where "lock ip = Some (a, b)" "ip_attempt now a = None"
      "check_ip_blocker now ip pid lock = (False, lock)"
  | (counted) a b a' v b' where "lock ip = Some (a, b)" "ip_attempt now a = Some a'"
      "id_attempt now pid b = (v, b')"
      "check_ip_blocker now ip pid lock = (v, lock(ip \<mapsto> (a', b')))"
proof (cases "lock ip")
  case None
  then show ?thesis using new by (simp add: check_ip_blocker_def)
next
  case (Some e)
  obtain a b where e: "e = (a, b)" by (cases e)
  obtain v b' where b': "id_attempt now pid b = (v, b')" by (cases "id_attempt now pid b")
  show ?thesis
    using Some e b' full [of a b] counted [of a b _ v b']
    by (cases "ip_attempt now a") (simp_all add: check_ip_blocker_def)
qed

lemma check_ip_blocker_ok: "blocker_ok lock \<Longrightarrow> blocker_ok (snd (check_ip_blocker now ip pid lock))"
proof -
  assume ok: "blocker_ok lock"
  show ?thesis
  proof (cases rule: check_ip_blocker_cases [of lock ip now pid])
    case new
    with ok show ?thesis by (auto simp: blocker_ok_def entry_ok_def)
  next
    case full
    with ok show ?thesis by simp
  next
    case (counted a b a' v b')
    then have "fcard (fst b) \<le> 301" using blocker_okD [OF ok counted(1)] by (simp add: entry_ok_def)
    then have "fcard (fst b') \<le> 301" using id_attempt_card [of b now pid] counted(3) by simp
    moreover have "fst a' \<le> 31" using ip_window.accepted_count [OF counted(2)] by simp
    ultimately show ?thesis using ok counted(4) by (auto simp: blocker_ok_def entry_ok_def)
  qed
qed

lemma check_ip_blocker_other:
  "q \<noteq> ip \<Longrightarrow> snd (check_ip_blocker now ip pid lock) q = lock q"
  by (auto simp: check_ip_blocker_def case_prod_beta split: option.splits)

subsection \<open>A whole run of one address\<close>

text \<open>Registrations of one address: the verdicts in order, and the map after them.\<close>

fun check_run :: "string \<Rightarrow> (instant \<times> string) list \<Rightarrow> ip_block_map \<Rightarrow> bool list \<times> ip_block_map" where
  "check_run ip [] lock = ([], lock)"
| "check_run ip ((now, pid) # rs) lock =
     (let (v, lock') = check_ip_blocker now ip pid lock; (vs, lock'') = check_run ip rs lock'
      in (v # vs, lock''))"

lemma check_run_attempts:
  "lock ip = Some (a, b) \<Longrightarrow>
     length (filter (\<lambda>v. v) (fst (check_run ip rs lock))) \<le> fst (run_attempts ip_attempt (map fst rs) a)"
proof (induction rs arbitrary: lock a b)
  case (Cons r rs)
  obtain now pid where r: "r = (now, pid)" by (cases r)
  show ?case
  proof (cases "ip_attempt now a")
    case None
    with Cons r show ?thesis by (simp add: check_ip_blocker_def case_prod_beta)
  next
    case (Some a')
    obtain v b' where b': "id_attempt now pid b = (v, b')" by (cases "id_attempt now pid b")
    let ?l = "lock(ip \<mapsto> (a', b'))"
    have "length (filter (\<lambda>v. v) (fst (check_run ip rs ?l)))
        \<le> fst (run_attempts ip_attempt (map fst rs) a')"
      by (rule Cons.IH [of _ _ b']) simp
    moreover have "check_ip_blocker now ip pid lock = (v, ?l)"
      using Some Cons.prems b' by (simp add: check_ip_blocker_def)
    ultimately show ?thesis using Some r by (simp add: case_prod_beta)
  qed
qed simp

text \<open>
  C28. One address gets at most 32 registrations through the throttle within a minute, however
  many it sends, whatever ids it names and whatever the throttle held before.
\<close>

theorem ip_burst_bounded:
  assumes "sorted (map fst rs)" and "\<forall>r \<in> set rs. elapsed_secs (fst r) (fst (hd rs)) \<le> 60"
  shows "length (filter (\<lambda>v. v) (fst (check_run ip rs lock))) \<le> 32"
proof (cases rs)
  case (Cons r rs')
  obtain now pid where r: "r = (now, pid)" by (cases r)
  show ?thesis
  proof (cases "lock ip")
    case (Some e)
    have "fst (run_attempts ip_attempt (map fst rs) (fst e)) \<le> Suc 30"
      by (rule ip_window.burst_limit) (use assms Cons in auto)
    with check_run_attempts [of lock ip "fst e" "snd e" rs] Some show ?thesis by simp
  next
    case None
    let ?lock = "lock(ip \<mapsto> ((0, now), ({||}, now)))"
    have "fst (run_attempts ip_attempt (map fst rs') (0, now)) + fst (0 :: nat, now) \<le> Suc 30"
      by (rule ip_window.burst_within_window) (use assms Cons r in auto)
    with check_run_attempts [of ?lock ip "(0, now)" "({||}, now)" rs'] None Cons r
    show ?thesis by (simp add: check_ip_blocker_def case_prod_beta)
  qed
qed simp

lemma ip_burst_bounded_witness:
  "length (filter (\<lambda>v. v) (fst (check_run ''10.0.0.1'' [(0, ''id-one''), (9000000000, ''id-two'')]
     (\<lambda>_. None)))) \<le> 32"
  by (rule ip_burst_bounded) (simp_all add: clock_simps)

text \<open>
  One peer gets at most three registrations accepted within six seconds, and once it has been
  silent for more than six seconds its next registration passes the throttle again.
\<close>

theorem reg_pk_burst_bounded:
  assumes "sorted ts" and "\<forall>t \<in> set ts. elapsed_secs t (hd ts) \<le> 6"
    and "6 < elapsed_secs now (snd c)"
  shows "fst (run_attempts reg_pk_attempt ts c) \<le> 3 \<and> reg_pk_attempt now c \<noteq> None"
  using reg_window.burst_limit [OF assms(1,2), of c] reg_window.recovers [OF assms(3)] by simp

lemma reg_pk_burst_bounded_witness:
  "fst (run_attempts reg_pk_attempt [9000000000, 9000000001, 9000000002, 9000000003] (0, 0)) \<le> 3 \<and>
   reg_pk_attempt 9000000000 (0, 0) \<noteq> None"
  by (rule reg_pk_burst_bounded) (simp_all add: clock_simps)

text \<open>
  Throttling is per address: a registration from one address leaves the counters of every other address
  as they were, because no two addresses print alike.
\<close>

theorem throttle_per_address:
  assumes "a \<noteq> b"
  shows "snd (check_ip_blocker now (show_ip a) pid lock) (show_ip b) = lock (show_ip b)"
  using check_ip_blocker_other [of "show_ip b" "show_ip a"] assms show_ip_inj by metis

lemma throttle_per_address_witness:
  "snd (check_ip_blocker 0 (show_ip (IpV4 1)) ''123456'' (\<lambda>_. None)) (show_ip (IpV6 1)) = None"
  using throttle_per_address [of "IpV4 1" "IpV6 1" 0 "''123456''" "\<lambda>_. None"] by simp

end
