(* ===== verification/Server_State.thy ===== *)
theory Server_State
  imports Peers Ip_Guard
begin

text \<open>
  The state of the rendezvous server (\<open>src/rendezvous_server.rs\<close>) and the helpers every
  handler uses. A \<open>RendezvousServer\<close> value is cloned for every connection and every
  spawned task: its \<open>Arc\<close> fields \<open>relay_servers\<close>, \<open>relay_servers0\<close>, \<open>rendezvous_servers\<close>
  and \<open>inner\<close> are replaced, never mutated, so a clone keeps the values of the moment it was
  made; they form the record \<^verbatim>\<open>handle\<close>. What all clones share (the mutexes, the channel,
  the statics) is the record \<^verbatim>\<open>shared\<close>. The sockets are logs of what was sent.
\<close>

record inner =
  in_serial :: i32
  in_version :: string
  in_software_url :: string
  in_mask :: "(32 word \<Rightarrow> bool) option"
  in_local_ip :: string
  in_sk :: "bytes option"

record handle =
  h_relay_servers :: "string list"
  h_relay_servers0 :: "string list"
  h_rendezvous_servers :: "string list"
  h_inner :: inner

datatype sink = TcpStreamSink nat | WsSink nat

datatype data =
    Msg rmsg socket_addr
  | RelayServers0 string
  | RelayServers "string list"

record punch_req_entry =
  pe_tm :: instant
  pe_from_ip :: string
  pe_to_ip :: string
  pe_to_id :: string

text \<open>A task spawned with a clone of the server, waiting to be scheduled.\<close>

datatype task = PunchTask handle socket_addr punch_hole_request string

record shared =
  tcp_punch :: "socket_addr \<rightharpoonup> sink"
  pmap :: peer_map
  tx :: "data list"
  udp_out :: "(rmsg \<times> socket_addr) list"
  sink_out :: "(sink \<times> rmsg) list"
  ip_blocker :: ip_block_map
  ip_changes :: ip_changes_map
  punch_reqs :: "punch_req_entry list"
  rotation :: usize
  always_use_relay :: bool
  spawned :: "task list"

text \<open>
  What one handler call meets: the clock, whether the database answers reads and writes,
  the next \<open>guid\<close>, which datagrams the socket accepts, whether the channel is open.
\<close>

record env =
  e_now :: instant
  e_db_read :: bool
  e_db_write :: bool
  e_guid :: bytes
  e_send :: "rmsg \<Rightarrow> socket_addr \<Rightarrow> bool"
  e_rx_open :: bool

datatype io_error = SendFailed | ChannelClosed

type_synonym result = "io_error + unit"

definition REG_TIMEOUT :: int where "REG_TIMEOUT = 30000"

subsection \<open>Sending\<close>

definition udp_send :: "env \<Rightarrow> rmsg \<Rightarrow> socket_addr \<Rightarrow> shared \<Rightarrow> shared \<times> result" where
  "udp_send e m a s =
     (if e_send e m a then (s\<lparr>udp_out := udp_out s @ [(m, a)]\<rparr>, Inr ())
      else (s, Inl SendFailed))"

definition send_rk_res :: "env \<Rightarrow> socket_addr \<Rightarrow> reg_result \<Rightarrow> shared \<Rightarrow> shared \<times> result" where
  "send_rk_res e addr res s = udp_send e (RegisterPkResponse res) addr s"

definition tx_send :: "env \<Rightarrow> data \<Rightarrow> shared \<Rightarrow> shared \<times> result" where
  "tx_send e d s =
     (if e_rx_open e then (s\<lparr>tx := tx s @ [d]\<rparr>, Inr ()) else (s, Inl ChannelClosed))"

text \<open>\<open>send_to_sink\<close>: nothing without a sink or when the message does not encode.\<close>

definition send_to_sink :: "externals \<Rightarrow> sink option \<Rightarrow> rmsg \<Rightarrow> shared \<Rightarrow> shared" where
  "send_to_sink x snk m s =
     (case snk of
        None \<Rightarrow> s
      | Some k \<Rightarrow>
          (case x_encode x m of
             None \<Rightarrow> s
           | Some _ \<Rightarrow> s\<lparr>sink_out := sink_out s @ [(k, m)]\<rparr>))"

definition send_to_tcp_sync :: "externals \<Rightarrow> rmsg \<Rightarrow> socket_addr \<Rightarrow> shared \<Rightarrow> shared" where
  "send_to_tcp_sync x m addr s =
     (let key = x_into_v4 x addr; snk = tcp_punch s key
      in send_to_sink x snk m (s\<lparr>tcp_punch := (tcp_punch s)(key := None)\<rparr>))"

text \<open>\<open>send_to_tcp\<close> hands the removed sink to a spawned task that only sends.\<close>

definition send_to_tcp :: "externals \<Rightarrow> rmsg \<Rightarrow> socket_addr \<Rightarrow> shared \<Rightarrow> shared" where
  "send_to_tcp x m addr s =
     (let key = x_into_v4 x addr; snk = tcp_punch s key
      in send_to_sink x snk m (s\<lparr>tcp_punch := (tcp_punch s)(key := None)\<rparr>))"

subsection \<open>Relay servers, local network, signed keys\<close>

definition is_lan :: "handle \<Rightarrow> socket_addr \<Rightarrow> bool" where
  "is_lan h addr =
     (case in_mask (h_inner h) of
        Some network \<Rightarrow>
          (case addr of
             SocketV4 ip _ \<Rightarrow> network ip
           | SocketV6 ip _ _ _ \<Rightarrow>
               (case to_ipv4 ip of Some v4 \<Rightarrow> network v4 | None \<Rightarrow> False))
      | None \<Rightarrow> False)"

definition get_servers :: "externals \<Rightarrow> string \<Rightarrow> string list" where
  "get_servers x s = filter (\<lambda>y. y \<noteq> [] \<and> test_if_valid_server x y) (split_on CHR '','' s)"

definition parse_relay_servers :: "externals \<Rightarrow> string \<Rightarrow> handle \<Rightarrow> handle" where
  "parse_relay_servers x rs h =
     (let l = get_servers x rs in h\<lparr>h_relay_servers0 := l, h_relay_servers := l\<rparr>)"

definition get_relay_server :: "handle \<Rightarrow> shared \<Rightarrow> string \<times> shared" where
  "get_relay_server h s =
     (let rs = h_relay_servers h
      in if rs = [] then ([], s)
         else if length rs = 1 then (rs ! 0, s)
         else (rs ! (unat (rotation s) mod length rs), s\<lparr>rotation := rotation s + 1\<rparr>))"

definition get_pk ::
  "externals \<Rightarrow> env \<Rightarrow> handle \<Rightarrow> string \<Rightarrow> string \<Rightarrow> shared \<Rightarrow> bytes \<times> shared" where
  "get_pk x e h version pid s =
     (if version = [] then ([], s)
      else (case in_sk (h_inner h) of
              None \<Rightarrow> ([], s)
            | Some sk \<Rightarrow>
                (case pm_get x (e_db_read e) (e_now e) pid (pmap s) of
                   (pm', Some l) \<Rightarrow>
                     (x_sign x (x_id_pk x pid (p_pk (peer_at pm' l))) sk, s\<lparr>pmap := pm'\<rparr>)
                 | (pm', None) \<Rightarrow> ([], s\<lparr>pmap := pm'\<rparr>))))"

text \<open>The age of a registration as the handlers compute it, cast to \<open>i32\<close>.\<close>

definition reg_age :: "instant \<Rightarrow> peer \<Rightarrow> int" where
  "reg_age now p = sint (as_i32 (elapsed_millis now (p_last_reg_time p)))"

declare reg_age_def [clock_simps]

lemma get_relay_server_shared [simp]:
  "pmap (snd (get_relay_server h s)) = pmap s" "tcp_punch (snd (get_relay_server h s)) = tcp_punch s"
  "udp_out (snd (get_relay_server h s)) = udp_out s" "tx (snd (get_relay_server h s)) = tx s"
  "ip_blocker (snd (get_relay_server h s)) = ip_blocker s"
  "punch_reqs (snd (get_relay_server h s)) = punch_reqs s"
  "always_use_relay (snd (get_relay_server h s)) = always_use_relay s"
  by (simp_all add: get_relay_server_def Let_def)

lemma get_relay_server_mem:
  "h_relay_servers h \<noteq> [] \<Longrightarrow> fst (get_relay_server h s) \<in> set (h_relay_servers h)"
  by (auto simp: get_relay_server_def Let_def intro!: nth_mem mod_less_divisor)

lemma send_to_sink_frame [simp]:
  "pmap (send_to_sink x k m s) = pmap s" "tcp_punch (send_to_sink x k m s) = tcp_punch s"
  "udp_out (send_to_sink x k m s) = udp_out s" "tx (send_to_sink x k m s) = tx s"
  "ip_blocker (send_to_sink x k m s) = ip_blocker s"
  by (simp_all add: send_to_sink_def split: option.split)

lemma udp_send_frame [simp]:
  "pmap (fst (udp_send e m a s)) = pmap s" "tcp_punch (fst (udp_send e m a s)) = tcp_punch s"
  "tx (fst (udp_send e m a s)) = tx s" "ip_blocker (fst (udp_send e m a s)) = ip_blocker s"
  "ip_changes (fst (udp_send e m a s)) = ip_changes s"
  "punch_reqs (fst (udp_send e m a s)) = punch_reqs s"
  by (simp_all add: udp_send_def)

lemma send_rk_res_frame [simp]:
  "pmap (fst (send_rk_res e a r s)) = pmap s" "ip_blocker (fst (send_rk_res e a r s)) = ip_blocker s"
  "ip_changes (fst (send_rk_res e a r s)) = ip_changes s"
  by (simp_all add: send_rk_res_def)

lemma get_pk_frame [simp]:
  "tcp_punch (snd (get_pk x e h v i s)) = tcp_punch s" "ip_blocker (snd (get_pk x e h v i s)) = ip_blocker s"
  "udp_out (snd (get_pk x e h v i s)) = udp_out s" "tx (snd (get_pk x e h v i s)) = tx s"
  by (auto simp: get_pk_def split: option.split prod.split)

subsection \<open>The invariant of the shared state\<close>

text \<open>
  The peer map is well formed and agrees with the table, and the registration throttle is
  within its bounds; every handler keeps this.
\<close>

definition shared_ok :: "shared \<Rightarrow> bool" where
  "shared_ok s \<longleftrightarrow> pm_wf (pmap s) \<and> pm_coh (pmap s) \<and> blocker_ok (ip_blocker s)"

lemma shared_okD [dest]:
  "shared_ok s \<Longrightarrow> pm_wf (pmap s)" "shared_ok s \<Longrightarrow> pm_coh (pmap s)"
  "shared_ok s \<Longrightarrow> blocker_ok (ip_blocker s)"
  by (simp_all add: shared_ok_def)

lemma shared_ok_same:
  "shared_ok s \<Longrightarrow> pmap s' = pmap s \<Longrightarrow> ip_blocker s' = ip_blocker s \<Longrightarrow> shared_ok s'"
  by (simp add: shared_ok_def)

lemma shared_ok_get:
  "shared_ok s \<Longrightarrow> pmap s' = fst (pm_get x up now pid (pmap s)) \<Longrightarrow> ip_blocker s' = ip_blocker s \<Longrightarrow>
     shared_ok s'"
  by (simp add: shared_ok_def pm_get_wf pm_get_coh)

lemma shared_ok_fields [simp]:
  "shared_ok (s\<lparr>tcp_punch := t\<rparr>) = shared_ok s" "shared_ok (s\<lparr>tx := q\<rparr>) = shared_ok s"
  "shared_ok (s\<lparr>udp_out := u\<rparr>) = shared_ok s" "shared_ok (s\<lparr>spawned := k\<rparr>) = shared_ok s"
  "shared_ok (s\<lparr>rotation := r\<rparr>) = shared_ok s" "shared_ok (s\<lparr>always_use_relay := b\<rparr>) = shared_ok s"
  "shared_ok (s\<lparr>punch_reqs := l\<rparr>) = shared_ok s" "shared_ok (s\<lparr>sink_out := o'\<rparr>) = shared_ok s"
  by (simp_all add: shared_ok_def)

lemma tx_send_frame [simp]:
  "pmap (fst (tx_send e d s)) = pmap s" "ip_blocker (fst (tx_send e d s)) = ip_blocker s"
  "tcp_punch (fst (tx_send e d s)) = tcp_punch s" "udp_out (fst (tx_send e d s)) = udp_out s"
  by (simp_all add: tx_send_def)

lemma send_to_tcp_frame [simp]:
  "pmap (send_to_tcp x m a s) = pmap s" "ip_blocker (send_to_tcp x m a s) = ip_blocker s"
  "pmap (send_to_tcp_sync x m a s) = pmap s" "ip_blocker (send_to_tcp_sync x m a s) = ip_blocker s"
  "tcp_punch (send_to_tcp x m a s) = (tcp_punch s)(x_into_v4 x a := None)"
  "tcp_punch (send_to_tcp_sync x m a s) = (tcp_punch s)(x_into_v4 x a := None)"
  "udp_out (send_to_tcp x m a s) = udp_out s" "udp_out (send_to_tcp_sync x m a s) = udp_out s"
  by (simp_all add: send_to_tcp_def send_to_tcp_sync_def Let_def)

lemma get_pk_ok: "shared_ok s \<Longrightarrow> shared_ok (snd (get_pk x e h v i s))"
proof (cases "pmap (snd (get_pk x e h v i s)) = pmap s")
  case False
  assume ok: "shared_ok s"
  from False have "pmap (snd (get_pk x e h v i s)) = fst (pm_get x (e_db_read e) (e_now e) i (pmap s))"
    by (auto simp: get_pk_def split: option.splits prod.splits if_splits)
  then show ?thesis by (rule shared_ok_get [OF ok]) simp
qed (auto intro: shared_ok_same)

text \<open>The two ends of the waiting-sink table: an answer goes to the sink, which is then gone.\<close>

lemma send_to_tcp_sinks:
  "sink_out (send_to_tcp x m a s) = sink_out s @ (case tcp_punch s (x_into_v4 x a) of
     None \<Rightarrow> [] | Some k \<Rightarrow> if x_encode x m = None then [] else [(k, m)])"
  "sink_out (send_to_tcp_sync x m a s) = sink_out s @ (case tcp_punch s (x_into_v4 x a) of
     None \<Rightarrow> [] | Some k \<Rightarrow> if x_encode x m = None then [] else [(k, m)])"
  by (auto simp: send_to_tcp_def send_to_tcp_sync_def send_to_sink_def Let_def split: option.split)

end
