(* ===== verification/Samples.thy ===== *)
theory Samples
  imports Server_State
begin

text \<open>
  Concrete instances for the witnesses: functions in place of the parameters, a clock
  reading, a server handle, and the state of a server that has just started. They stand
  for no code; each witness states what it needs of them.
\<close>

definition sample_ext :: externals where
  "sample_ext =
     \<lparr>x_into_v4 = (\<lambda>a. a), x_mangle = (\<lambda>_ a. [ucast (sa_port a), 0]),
      x_demangle = (\<lambda>bs. SocketV4 167772161 (if bs = [] then 0 else ucast (hd bs))),
      x_decode = (\<lambda>bs. if bs = [] then None else Some (Some (OtherMsg bs))),
      x_encode = (\<lambda>_. Some []), x_id_pk = (\<lambda>i k. k), x_sign = (\<lambda>d k. d @ k),
      x_resolves = (\<lambda>s. s \<noteq> ''bad:0''), x_info_to_json = (\<lambda>ip. ip), x_info_of_json = (\<lambda>js. js),
      x_nat_known = (\<lambda>_. True), x_nat_symmetric = 2\<rparr>"

text \<open>Five hours after the origin of the clock.\<close>

definition sample_now :: instant where "sample_now = 18000000000000"

definition sample_env :: "instant \<Rightarrow> env" where
  "sample_env now =
     \<lparr>e_now = now, e_db_read = True, e_db_write = True, e_guid = [7],
      e_send = (\<lambda>_ _. True), e_rx_open = True\<rparr>"

definition sample_handle :: handle where
  "sample_handle =
     \<lparr>h_relay_servers = [''r1'', ''r2''], h_relay_servers0 = [''r1'', ''r2''],
      h_rendezvous_servers = [],
      h_inner = \<lparr>in_serial = 3, in_version = [], in_software_url = [], in_mask = None,
                 in_local_ip = [], in_sk = None\<rparr>\<rparr>"

definition fresh_shared :: shared where
  "fresh_shared =
     \<lparr>tcp_punch = (\<lambda>_. None), pmap = pm_new None, tx = [], udp_out = [], sink_out = [],
      ip_blocker = (\<lambda>_. None), ip_changes = (\<lambda>_. None), punch_reqs = [], rotation = 0,
      always_use_relay = False, spawned = []\<rparr>"

text \<open>A map that holds one registered peer \<open>''peer-b''\<close>, last heard of at \<open>t\<close>.\<close>

definition sample_peer :: "instant \<Rightarrow> peer" where
  "sample_peer t =
     \<lparr>p_socket_addr = SocketV4 167772162 5000, p_last_reg_time = t, p_guid = [], p_uuid = [1],
      p_pk = [2], p_ip = ''10.0.0.2'', p_reg_pk = (0, 0)\<rparr>"

definition sample_pm :: "instant \<Rightarrow> peer_map" where
  "sample_pm t = fst (add_peer ''peer-b'' (sample_peer t) (pm_new None))"

definition sample_shared :: "instant \<Rightarrow> shared" where
  "sample_shared t = fresh_shared\<lparr>pmap := sample_pm t\<rparr>"

lemmas sample_defs = sample_ext_def sample_env_def sample_handle_def fresh_shared_def sample_now_def
  sample_peer_def sample_pm_def sample_shared_def

lemma sample_pm_wf [simp]: "pm_wf (sample_pm t)"
  by (simp add: sample_pm_def add_peer_wf pm_new_def pm_wf_def db_wf_def create_tables_def
      add_peer_def)

lemma sample_pm_coh [simp]: "pm_coh (sample_pm t)"
  unfolding sample_pm_def
  by (rule add_peer_coh) (simp_all add: sample_peer_def)

lemma sample_pm_map [simp]:
  "pm_map (sample_pm t) pid = (if pid = ''peer-b'' then Some 0 else None)"
  by (simp add: sample_pm_def add_peer_def pm_new_def)

lemma sample_pm_at [simp]: "peer_at (sample_pm t) 0 = sample_peer t"
  by (simp add: sample_pm_def add_peer_def pm_new_def peer_at_def)

lemma sample_pm_db [simp]: "pm_db (sample_pm t) = []"
  by (simp add: sample_pm_def add_peer_def pm_new_def create_tables_def)

lemma sample_shared_ok [simp]: "shared_ok (sample_shared t)" "shared_ok fresh_shared"
  by (simp_all add: shared_ok_def sample_shared_def fresh_shared_def blocker_ok_def)

lemma sample_shared_pmap [simp]: "pmap (sample_shared t) = sample_pm t"
  by (simp add: sample_shared_def)

lemma sample_env_fields [simp]:
  "e_now (sample_env t) = t" "e_db_read (sample_env t)" "e_db_write (sample_env t)"
  "e_guid (sample_env t) = [7]" "e_send (sample_env t) m a" "e_rx_open (sample_env t)"
  by (simp_all add: sample_env_def)

lemma fresh_shared_fields [simp]:
  "tcp_punch fresh_shared = (\<lambda>_. None)" "pmap fresh_shared = pm_new None" "tx fresh_shared = []"
  "udp_out fresh_shared = []" "sink_out fresh_shared = []" "ip_blocker fresh_shared = (\<lambda>_. None)"
  "punch_reqs fresh_shared = []" "spawned fresh_shared = []"
  by (simp_all add: fresh_shared_def)

lemma pm_new_fields [simp]: "pm_map (pm_new t) pid = None" "pm_db (pm_new None) = []"
  by (simp_all add: pm_new_def create_tables_def)

definition sample_rk :: register_pk where
  "sample_rk = \<lparr>rk_id = ''123456'', rk_uuid = [1], rk_pk = [2]\<rparr>"

lemma sample_rk_fields [simp]:
  "rk_id sample_rk = ''123456''" "rk_uuid sample_rk = [1]" "rk_pk sample_rk = [2]"
  by (simp_all add: sample_rk_def)

end
