(* ===== verification/Registration.thy ===== *)
theory Registration
  imports Samples
begin

text \<open>
  Peer registration: \<open>update_addr\<close> (the \<open>RegisterPeer\<close> heartbeat) and the
  \<open>RegisterPk\<close> arm of \<open>handle_udp\<close>. The specification is trust on first use: an id with no
  identity takes any \<open>uuid\<close> and key; after that the \<open>uuid\<close> is fixed, and the key and the
  address never change in the same registration.
\<close>

text \<open>\<open>ip_change\<close> of \<open>update_addr\<close>: compared with the last socket address, or with the
  stored address text when the peer was loaded from the database (port 0).\<close>

definition addr_ip_change :: "peer \<Rightarrow> socket_addr \<Rightarrow> bool" where
  "addr_ip_change old addr \<longleftrightarrow>
     (let ip = sa_ip addr
      in (if sa_port (p_socket_addr old) \<noteq> 0 then ip \<noteq> sa_ip (p_socket_addr old)
          else show_ip ip \<noteq> p_ip old) \<and> \<not> is_loopback ip)"

definition update_addr :: "env \<Rightarrow> string \<Rightarrow> socket_addr \<Rightarrow> shared \<Rightarrow> shared \<times> result" where
  "update_addr e pid addr s =
     (case pm_get_in_memory pid (pmap s) of
        Some l \<Rightarrow>
          (let old = peer_at (pmap s) l;
               request_pk = (p_pk old = [] \<or> addr_ip_change old addr);
               s' = (if \<not> request_pk
                     then s\<lparr>pmap := set_peer l (old\<lparr>p_socket_addr := addr,
                            p_last_reg_time := e_now e\<rparr>) (pmap s)\<rparr>
                     else s)
           in udp_send e (RegisterPeerResponse request_pk) addr s')
      | None \<Rightarrow> udp_send e (RegisterPeerResponse True) addr s)"

text \<open>The comparison with the stored peer: \<open>None\<close> is a mismatch, otherwise \<open>(changed, ip_changed)\<close>.\<close>

definition rk_compare :: "peer \<Rightarrow> register_pk \<Rightarrow> string \<Rightarrow> (bool \<times> bool) option" where
  "rk_compare p rk ip =
     (if p_uuid p = [] then Some (True, False)
      else if p_uuid p = rk_uuid rk then
        (if p_ip p \<noteq> ip \<and> p_pk p \<noteq> rk_pk rk then None
         else (let ip_changed = (p_ip p \<noteq> ip)
               in Some (p_uuid p \<noteq> rk_uuid rk \<or> p_pk p \<noteq> rk_pk rk \<or> ip_changed, ip_changed)))
      else None)"

definition handle_register_pk ::
  "externals \<Rightarrow> env \<Rightarrow> socket_addr \<Rightarrow> register_pk \<Rightarrow> shared \<Rightarrow> shared \<times> result" where
  "handle_register_pk x e addr rk s =
     (if rk_uuid rk = [] \<or> rk_pk rk = [] then (s, Inr ())
      else let pid = rk_id rk; ip = show_ip (sa_ip addr) in
      if length pid < 6 then send_rk_res e addr UUID_MISMATCH s
      else case check_ip_blocker (e_now e) ip pid (ip_blocker s) of (allowed, bl) \<Rightarrow>
      let s1 = s\<lparr>ip_blocker := bl\<rparr> in
      if \<not> allowed then send_rk_res e addr TOO_FREQUENT s1
      else case pm_get_or x (e_db_read e) (e_now e) pid (pmap s1) of (pm1, l) \<Rightarrow>
      let s2 = s1\<lparr>pmap := pm1\<rparr>; p = peer_at pm1 l in
      case rk_compare p rk ip of
        None \<Rightarrow> send_rk_res e addr UUID_MISMATCH s2
      | Some (changed, ip_changed) \<Rightarrow>
          (case reg_pk_attempt (e_now e) (p_reg_pk p) of
             None \<Rightarrow> send_rk_res e addr TOO_FREQUENT s2
           | Some req_pk \<Rightarrow>
               (let pm3 = set_peer l (p\<lparr>p_reg_pk := req_pk\<rparr>) pm1;
                    chg = (if ip_changed then note_ip_change (e_now e) pid ip (ip_changes s2)
                           else ip_changes s2);
                    pm4 = (if changed
                           then fst (pm_update_pk x (e_db_write e) (e_guid e) (e_now e) pid l addr
                                       (rk_uuid rk) (rk_pk rk) ip pm3)
                           else pm3)
                in send_rk_res e addr OK (s2\<lparr>pmap := pm4, ip_changes := chg\<rparr>))))"

subsection \<open>The specification: trust on first use\<close>

definition tofu ::
  "(bytes \<times> bytes \<times> string) option \<Rightarrow> bytes \<Rightarrow> bytes \<Rightarrow> string \<Rightarrow>
     reg_result \<times> (bytes \<times> bytes \<times> string) option" where
  "tofu known uuid pk ip =
     (case known of
        None \<Rightarrow> (OK, Some (uuid, pk, ip))
      | Some (u, k, i) \<Rightarrow>
          (if u \<noteq> uuid \<or> (i \<noteq> ip \<and> k \<noteq> pk) then (UUID_MISMATCH, known)
           else (OK, Some (u, pk, ip))))"

text \<open>The outcomes of the handler, one per early return.\<close>

lemma handle_register_pk_cases:
  assumes "rk_uuid rk \<noteq> []" and "rk_pk rk \<noteq> []"
  obtains (short) "length (rk_id rk) < 6"
      "handle_register_pk x e addr rk s = send_rk_res e addr UUID_MISMATCH s"
  | (blocked) bl where "6 \<le> length (rk_id rk)"
      "check_ip_blocker (e_now e) (show_ip (sa_ip addr)) (rk_id rk) (ip_blocker s) = (False, bl)"
      "handle_register_pk x e addr rk s = send_rk_res e addr TOO_FREQUENT (s\<lparr>ip_blocker := bl\<rparr>)"
  | (mismatch) bl pm1 l where "6 \<le> length (rk_id rk)"
      "check_ip_blocker (e_now e) (show_ip (sa_ip addr)) (rk_id rk) (ip_blocker s) = (True, bl)"
      "pm_get_or x (e_db_read e) (e_now e) (rk_id rk) (pmap s) = (pm1, l)"
      "rk_compare (peer_at pm1 l) rk (show_ip (sa_ip addr)) = None"
      "handle_register_pk x e addr rk s
         = send_rk_res e addr UUID_MISMATCH (s\<lparr>ip_blocker := bl, pmap := pm1\<rparr>)"
  | (limited) bl pm1 l ch where "6 \<le> length (rk_id rk)"
      "check_ip_blocker (e_now e) (show_ip (sa_ip addr)) (rk_id rk) (ip_blocker s) = (True, bl)"
      "pm_get_or x (e_db_read e) (e_now e) (rk_id rk) (pmap s) = (pm1, l)"
      "rk_compare (peer_at pm1 l) rk (show_ip (sa_ip addr)) = Some ch"
      "reg_pk_attempt (e_now e) (p_reg_pk (peer_at pm1 l)) = None"
      "handle_register_pk x e addr rk s
         = send_rk_res e addr TOO_FREQUENT (s\<lparr>ip_blocker := bl, pmap := pm1\<rparr>)"
  | (accepted) bl pm1 l changed ipc req pm3 chg where "6 \<le> length (rk_id rk)"
      "check_ip_blocker (e_now e) (show_ip (sa_ip addr)) (rk_id rk) (ip_blocker s) = (True, bl)"
      "pm_get_or x (e_db_read e) (e_now e) (rk_id rk) (pmap s) = (pm1, l)"
      "rk_compare (peer_at pm1 l) rk (show_ip (sa_ip addr)) = Some (changed, ipc)"
      "reg_pk_attempt (e_now e) (p_reg_pk (peer_at pm1 l)) = Some req"
      "pm3 = set_peer l ((peer_at pm1 l)\<lparr>p_reg_pk := req\<rparr>) pm1"
      "handle_register_pk x e addr rk s = send_rk_res e addr OK
         (s\<lparr>ip_blocker := bl, pmap := (if changed
            then fst (pm_update_pk x (e_db_write e) (e_guid e) (e_now e) (rk_id rk) l addr
                        (rk_uuid rk) (rk_pk rk) (show_ip (sa_ip addr)) pm3)
            else pm3), ip_changes := chg\<rparr>)"
proof (cases "length (rk_id rk) < 6")
  case True
  with short assms show ?thesis by (simp add: handle_register_pk_def)
next
  case long: False
  let ?ip = "show_ip (sa_ip addr)"
  obtain allowed bl where chk:
    "check_ip_blocker (e_now e) ?ip (rk_id rk) (ip_blocker s) = (allowed, bl)" by fastforce
  obtain pm1 l where get: "pm_get_or x (e_db_read e) (e_now e) (rk_id rk) (pmap s) = (pm1, l)"
    by fastforce
  note facts = assms long chk get
  show ?thesis
  proof (cases allowed)
    case False
    with blocked [of bl] facts show ?thesis by (simp add: handle_register_pk_def)
  next
    case True
    note facts = facts True
    show ?thesis
    proof (cases "rk_compare (peer_at pm1 l) rk ?ip")
      case None
      with mismatch [of bl pm1 l] facts show ?thesis by (simp add: handle_register_pk_def)
    next
      case (Some ch)
      obtain changed ipc where ch: "ch = (changed, ipc)" by (cases ch)
      show ?thesis
      proof (cases "reg_pk_attempt (e_now e) (p_reg_pk (peer_at pm1 l))")
        case None
        with limited [of bl pm1 l ch] facts Some ch show ?thesis
          by (simp add: handle_register_pk_def)
      next
        case (Some req)
        with accepted [of bl pm1 l changed ipc req] facts \<open>rk_compare _ _ _ = Some ch\<close> ch
        show ?thesis by (simp add: handle_register_pk_def Let_def)
      qed
    qed
  qed
qed

subsection \<open>Preservation of the peer map's invariants\<close>

lemma set_peer_coh:
  assumes "pm_wf pm" and "pm_coh pm" and "pm_map pm pid = Some l"
    and "p_guid p = p_guid (peer_at pm l)" and "p_uuid p = p_uuid (peer_at pm l)"
  shows "pm_coh (set_peer l p pm)"
  using assms pm_cohD [OF assms(2) peer_of_at [OF assms(3)]]
  by (auto simp: pm_coh_def peer_of_set)

lemma update_addr_inv:
  assumes "pm_wf (pmap s)" and "pm_coh (pmap s)"
  shows "pm_wf (pmap (fst (update_addr e pid addr s)))
    \<and> pm_coh (pmap (fst (update_addr e pid addr s)))"
  using assms set_peer_coh [OF assms]
  by (auto simp: update_addr_def pm_get_in_memory_def Let_def set_peer_wf split: option.split)

lemma guid_uuid_agree:
  assumes "pm_coh pm" and "pm_map pm pid = Some l"
    and "rk_compare (peer_at pm l) rk ip = Some ch" and "p_guid (peer_at pm l) \<noteq> []"
  shows "rk_uuid rk = p_uuid (peer_at pm l)"
proof -
  obtain r where "find_row (pm_db pm) pid = Some r" "r_uuid r = p_uuid (peer_at pm l)"
    using pm_cohD [OF assms(1) peer_of_at [OF assms(2)] assms(4)] by blast
  moreover from this have "r_uuid r \<noteq> []"
    using find_row_in pm_coh_rows [OF assms(1)] by blast
  ultimately show ?thesis
    using assms(3) by (auto simp: rk_compare_def split: if_splits)
qed

lemma handle_register_pk_inv:
  assumes wf: "pm_wf (pmap s)" and coh: "pm_coh (pmap s)"
  shows "pm_wf (pmap (fst (handle_register_pk x e addr rk s)))
    \<and> pm_coh (pmap (fst (handle_register_pk x e addr rk s)))"
proof (cases "rk_uuid rk = [] \<or> rk_pk rk = []")
  case True
  with assms show ?thesis by (auto simp: handle_register_pk_def)
next
  case False
  then have ne: "rk_uuid rk \<noteq> []" "rk_pk rk \<noteq> []" by auto
  note got = pm_get_or_wf [OF wf, of x "e_db_read e" "e_now e" "rk_id rk"]
    pm_get_or_coh [OF wf coh, of x "e_db_read e" "e_now e" "rk_id rk"]
  show ?thesis
    using ne
  proof (cases rule: handle_register_pk_cases [where x = x and e = e and addr = addr and s = s])
    case (accepted bl pm1 l changed ipc req pm3 chg)
    have pm1: "pm_wf pm1" "pm_coh pm1" using got accepted(3) by simp_all
    have l: "pm_map pm1 (rk_id rk) = Some l" by (rule pm_get_or_found [OF wf accepted(3)])
    have pm3: "pm_wf pm3" "pm_coh pm3"
      unfolding accepted(6) using pm1 l by (auto intro: set_peer_wf set_peer_coh)
    have at3: "peer_at pm3 l = (peer_at pm1 l)\<lparr>p_reg_pk := req\<rparr>"
      using accepted(6) pm_wf_alloc [OF pm1(1) l] by simp
    have l3: "pm_map pm3 (rk_id rk) = Some l" using l accepted(6) by simp
    have old: "p_guid (peer_at pm3 l) \<noteq> [] \<Longrightarrow> rk_uuid rk = p_uuid (peer_at pm3 l)"
      using guid_uuid_agree [OF pm1(2) l accepted(4)] at3 by simp
    show ?thesis unfolding accepted(7)
      using pm3 pm_update_pk_wf [OF pm3(1)] pm_update_pk_coh [OF pm3 l3 old ne(1)] by simp
  qed (use assms got in auto)
qed

lemma handle_register_pk_blocker:
  "blocker_ok (ip_blocker s) \<Longrightarrow> blocker_ok (ip_blocker (fst (handle_register_pk x e addr rk s)))"
proof -
  assume ok: "blocker_ok (ip_blocker s)"
  let ?chk = "check_ip_blocker (e_now e) (show_ip (sa_ip addr)) (rk_id rk) (ip_blocker s)"
  have ok': "blocker_ok (snd ?chk)" by (rule check_ip_blocker_ok [OF ok])
  show ?thesis
  proof (cases "rk_uuid rk = [] \<or> rk_pk rk = []")
    case True
    with ok show ?thesis by (auto simp: handle_register_pk_def)
  next
    case False
    then have "rk_uuid rk \<noteq> []" "rk_pk rk \<noteq> []" by auto
    then show ?thesis
      by (cases rule: handle_register_pk_cases [where x = x and e = e and addr = addr and s = s])
        (use ok ok' in auto)
  qed
qed

subsection \<open>Refinement\<close>

lemma identity_in_memory:
  "peer_of pm pid = Some p \<Longrightarrow>
     known_identity x pm pid = (if p_uuid p = [] then None else Some (p_uuid p, p_pk p, p_ip p))"
  by (simp add: known_identity_def)

lemma identity_other:
  "peer_of pm' q = peer_of pm q \<Longrightarrow> find_row (pm_db pm') q = find_row (pm_db pm) q \<Longrightarrow>
     known_identity x pm' q = known_identity x pm q"
  by (simp add: known_identity_def split: option.split)

lemma send_rk_res_reply:
  "e_send e (RegisterPkResponse res) addr \<Longrightarrow>
     udp_out (fst (send_rk_res e addr res s)) = udp_out s @ [(RegisterPkResponse res, addr)]"
  by (simp add: send_rk_res_def udp_send_def)

lemma compare_tofu:
  assumes "peer_of pm pid = Some p" and "rk_uuid rk \<noteq> []"
  shows "rk_compare p rk ip = None \<longleftrightarrow>
      fst (tofu (known_identity x pm pid) (rk_uuid rk) (rk_pk rk) ip) = UUID_MISMATCH"
    and "rk_compare p rk ip = Some (False, ipc) \<Longrightarrow>
      known_identity x pm pid = Some (rk_uuid rk, rk_pk rk, ip)"
    and "rk_compare p rk ip = Some ch \<Longrightarrow>
      tofu (known_identity x pm pid) (rk_uuid rk) (rk_pk rk) ip
        = (OK, Some (rk_uuid rk, rk_pk rk, ip))"
  using assms
  by (auto simp: rk_compare_def tofu_def known_identity_def Let_def split: if_splits)

lemma accepted_identity:
  assumes wf: "pm_wf pm" and coh: "pm_coh pm" and l: "pm_map pm (rk_id rk) = Some l"
    and ne: "rk_uuid rk \<noteq> []" and cmp: "rk_compare (peer_at pm l) rk ip = Some (changed, ipc)"
    and pm3: "pm3 = set_peer l ((peer_at pm l)\<lparr>p_reg_pk := req\<rparr>) pm"
    and pm4: "pm4 = (if changed then fst (pm_update_pk x up fresh now (rk_id rk) l addr
        (rk_uuid rk) (rk_pk rk) ip pm3) else pm3)"
  shows "known_identity x pm4 q =
    (if q = rk_id rk then Some (rk_uuid rk, rk_pk rk, ip) else known_identity x pm q)"
proof -
  let ?p = "(peer_at pm l)\<lparr>p_reg_pk := req\<rparr>"
  have wf3: "pm_wf pm3" and coh3: "pm_coh pm3"
    unfolding pm3 using wf coh l by (auto intro: set_peer_wf set_peer_coh)
  have l3: "pm_map pm3 (rk_id rk) = Some l" using l pm3 by simp
  have at3: "peer_at pm3 l = ?p" using pm3 pm_wf_alloc [OF wf l] by simp
  have old: "p_guid (peer_at pm3 l) \<noteq> [] \<Longrightarrow> rk_uuid rk = p_uuid (peer_at pm3 l)"
    using guid_uuid_agree [OF coh l cmp] at3 by simp
  have same: "known_identity x pm3 r = known_identity x pm r" for r
    by (cases "r = rk_id rk")
      (simp_all add: known_identity_def pm3 peer_of_set [OF wf l] peer_of_at [OF l] split: option.split)
  show ?thesis
  proof (cases changed)
    case False
    with cmp compare_tofu(2) [OF peer_of_at [OF l] ne] pm4 same show ?thesis by auto
  next
    case True
    note upd = pm_update_pk_memory [OF wf3 l3, where x = x and up = up and fresh = fresh
        and now = now and addr = addr and uuid = "rk_uuid rk" and pk = "rk_pk rk" and ip = ip]
      pm_update_pk_table [OF wf3 coh3 l3 old, where x = x and up = up and fresh = fresh
        and now = now and addr = addr and pk = "rk_pk rk" and ip = ip and q = q]
    show ?thesis
    proof (cases "q = rk_id rk")
      case True
      then show ?thesis using upd(1) pm4 \<open>changed\<close> ne by (auto simp: known_identity_def)
    next
      case False
      then have "known_identity x pm4 q = known_identity x pm3 q"
        using upd(2) upd(3) pm4 \<open>changed\<close> by (intro identity_other) auto
      with False same show ?thesis by simp
    qed
  qed
qed

lemma register_pk_tofu:
  fixes x :: externals
  assumes wf: "pm_wf (pmap s)" and coh: "pm_coh (pmap s)" and up: "e_db_read e"
    and ne: "rk_uuid rk \<noteq> []" "rk_pk rk \<noteq> []" and snd: "\<And>m. e_send e m addr"
  defines "s' \<equiv> fst (handle_register_pk x e addr rk s)"
  obtains (refused) res where "res = TOO_FREQUENT \<or> res = UUID_MISMATCH \<and> length (rk_id rk) < 6"
      "udp_out s' = udp_out s @ [(RegisterPkResponse res, addr)]"
      "\<And>q. known_identity x (pmap s') q = known_identity x (pmap s) q"
  | (judged) "udp_out s' = udp_out s @ [(RegisterPkResponse (fst (tofu
        (known_identity x (pmap s) (rk_id rk)) (rk_uuid rk) (rk_pk rk) (show_ip (sa_ip addr)))), addr)]"
      "\<And>q. known_identity x (pmap s') q = (if q = rk_id rk
         then snd (tofu (known_identity x (pmap s) (rk_id rk)) (rk_uuid rk) (rk_pk rk) (show_ip (sa_ip addr)))
         else known_identity x (pmap s) q)"
  using ne
proof (cases rule: handle_register_pk_cases [where x = x and e = e and addr = addr and s = s])
  case short
  then show ?thesis using refused [of UUID_MISMATCH] send_rk_res_reply [OF snd] by (simp add: s'_def)
next
  case (blocked bl)
  then show ?thesis using refused [of TOO_FREQUENT] send_rk_res_reply [OF snd] by (simp add: s'_def)
next
  case (mismatch bl pm1 l)
  have same: "known_identity x pm1 q = known_identity x (pmap s) q" for q
    using pm_get_or_identity [OF wf, of x "e_now e" "rk_id rk" q] mismatch(3) up by simp
  have "fst (tofu (known_identity x pm1 (rk_id rk)) (rk_uuid rk) (rk_pk rk) (show_ip (sa_ip addr)))
      = UUID_MISMATCH"
    using compare_tofu(1) [OF peer_of_at [OF pm_get_or_found [OF wf mismatch(3)]] ne(1)] mismatch(4)
    by blast
  then show ?thesis using judged same mismatch(5) send_rk_res_reply [OF snd]
    by (auto simp: s'_def tofu_def split: option.splits if_splits)
next
  case (limited bl pm1 l ch)
  have "known_identity x pm1 q = known_identity x (pmap s) q" for q
    using pm_get_or_identity [OF wf, of x "e_now e" "rk_id rk" q] limited(3) up by simp
  then show ?thesis
    using refused [of TOO_FREQUENT] limited(6) send_rk_res_reply [OF snd] by (simp add: s'_def)
next
  case (accepted bl pm1 l changed ipc req pm3 chg)
  have same: "known_identity x pm1 q = known_identity x (pmap s) q" for q
    using pm_get_or_identity [OF wf, of x "e_now e" "rk_id rk" q] accepted(3) up by simp
  have pm1: "pm_wf pm1" "pm_coh pm1" and l: "pm_map pm1 (rk_id rk) = Some l"
    using pm_get_or_wf [OF wf] pm_get_or_coh [OF wf coh] pm_get_or_found [OF wf accepted(3)]
      accepted(3) by (metis fst_conv)+
  have t: "tofu (known_identity x (pmap s) (rk_id rk)) (rk_uuid rk) (rk_pk rk) (show_ip (sa_ip addr))
      = (OK, Some (rk_uuid rk, rk_pk rk, show_ip (sa_ip addr)))"
    using compare_tofu(3) [OF peer_of_at [OF l] ne(1) accepted(4), where x = x] same by simp
  show ?thesis
    using judged accepted(7) t send_rk_res_reply [OF snd] same
      accepted_identity [OF pm1 l ne(1) accepted(4,6) refl]
    by (simp add: s'_def)
qed

subsection \<open>The registration properties\<close>

text \<open>
  C1. Registration refines trust on first use, while the table can be read. The reply to a request with a \<open>uuid\<close> and a key is
  \<open>TOO_FREQUENT\<close> from a throttle, or \<open>UUID_MISMATCH\<close> for an id shorter than six, and then no identity changes; otherwise
  reply and new identity are those of the specification for what the server knew of the
  id, from memory or from the table, and no other id is touched.
\<close>

theorem register_pk_refines_tofu:
  fixes x :: externals
  assumes "shared_ok s" and "e_db_read e" and "rk_uuid rk \<noteq> []" and "rk_pk rk \<noteq> []"
    and "\<And>m. e_send e m addr"
  shows "\<exists>res. udp_out (fst (handle_register_pk x e addr rk s))
        = udp_out s @ [(RegisterPkResponse res, addr)] \<and>
    (if res = TOO_FREQUENT \<or> length (rk_id rk) < 6 \<and> res = UUID_MISMATCH
     then \<forall>q. known_identity x (pmap (fst (handle_register_pk x e addr rk s))) q
       = known_identity x (pmap s) q
     else (res, known_identity x (pmap (fst (handle_register_pk x e addr rk s))) (rk_id rk))
         = tofu (known_identity x (pmap s) (rk_id rk)) (rk_uuid rk) (rk_pk rk) (show_ip (sa_ip addr)) \<and>
       (\<forall>q. q \<noteq> rk_id rk \<longrightarrow> known_identity x (pmap (fst (handle_register_pk x e addr rk s))) q
         = known_identity x (pmap s) q))"
  using shared_okD(1,2) [OF assms(1)] assms(2-5)
proof (cases rule: register_pk_tofu [where x = x])
  case (refused res)
  then show ?thesis by auto
next
  case judged
  let ?t = "tofu (known_identity x (pmap s) (rk_id rk)) (rk_uuid rk) (rk_pk rk) (show_ip (sa_ip addr))"
  have "snd ?t = known_identity x (pmap s) (rk_id rk)" if "fst ?t = UUID_MISMATCH"
    using that by (auto simp: tofu_def split: option.splits if_splits)
  moreover have "fst ?t \<noteq> TOO_FREQUENT"
    by (auto simp: tofu_def split: option.splits if_splits)
  ultimately show ?thesis using judged by (intro exI [of _ "fst ?t"]) auto
qed

lemma register_pk_refines_tofu_witness:
  "\<exists>res. udp_out (fst (handle_register_pk sample_ext (sample_env sample_now) (SocketV4 1 2)
      sample_rk fresh_shared)) = [(RegisterPkResponse res, SocketV4 1 2)]"
  using register_pk_refines_tofu [of fresh_shared "sample_env sample_now" sample_rk "SocketV4 1 2"
      sample_ext] by auto

subsection \<open>Heartbeats\<close>

lemma update_addr_peers:
  assumes "pm_wf (pmap s)"
  shows "peer_of (pmap (fst (update_addr e pid addr s))) q =
    (case peer_of (pmap s) q of
       None \<Rightarrow> None
     | Some p \<Rightarrow> Some (if q = pid \<and> p_pk p \<noteq> [] \<and> \<not> addr_ip_change p addr
         then p\<lparr>p_socket_addr := addr, p_last_reg_time := e_now e\<rparr> else p))"
proof (cases "pm_map (pmap s) pid")
  case None
  then have "peer_of (pmap s) pid = None" by (simp add: peer_of_def)
  with None show ?thesis
    by (auto simp: update_addr_def pm_get_in_memory_def split: option.split)
next
  case (Some l)
  then show ?thesis using peer_of_set [OF assms Some] peer_of_at [OF Some]
    by (auto simp: update_addr_def pm_get_in_memory_def Let_def split: option.split)
qed

lemma update_addr_db [simp]: "pm_db (pmap (fst (update_addr e pid addr s))) = pm_db (pmap s)"
  by (simp add: update_addr_def Let_def split: option.split)

lemma update_addr_identity:
  "pm_wf (pmap s) \<Longrightarrow>
     known_identity x (pmap (fst (update_addr e pid addr s))) q = known_identity x (pmap s) q"
  by (simp add: known_identity_def update_addr_peers split: option.split)

text \<open>
  C27. A heartbeat cannot take over a peer: it changes no \<open>uuid\<close>, key or recorded address of any id,
  creates no peer, and moves the contact address of its own id only when that id has a key
  and the sender is on the machine itself, at the address the peer had, or, for a peer just loaded from the table, at
  the address recorded with its key.
\<close>

theorem heartbeat_no_takeover:
  assumes "shared_ok s" and "s' = fst (update_addr e pid addr s)"
  shows "known_identity x (pmap s') q = known_identity x (pmap s) q \<and>
    (peer_of (pmap s') q = None \<longleftrightarrow> peer_of (pmap s) q = None) \<and>
    (\<forall>p p'. peer_of (pmap s) q = Some p \<longrightarrow> peer_of (pmap s') q = Some p' \<longrightarrow>
       p_socket_addr p' \<noteq> p_socket_addr p \<longrightarrow>
       q = pid \<and> p_pk p \<noteq> [] \<and> p_socket_addr p' = addr \<and>
       (is_loopback (sa_ip addr) \<or> sa_ip addr = sa_ip (p_socket_addr p) \<or>
        sa_port (p_socket_addr p) = 0 \<and> show_ip (sa_ip addr) = p_ip p))"
proof -
  have wf: "pm_wf (pmap s)" using assms(1) by auto
  show ?thesis
    using update_addr_identity [OF wf] update_addr_peers [OF wf, of e pid addr q] assms(2)
    by (auto simp: addr_ip_change_def Let_def split: option.splits if_splits)
qed

lemma heartbeat_no_takeover_witness:
  "peer_of (pmap (fst (update_addr (sample_env sample_now) ''peer-b'' (SocketV4 1 2)
      (sample_shared 5)))) ''peer-b'' \<noteq> None \<and>
    known_identity sample_ext (pmap (fst (update_addr (sample_env sample_now) ''peer-b'' (SocketV4 1 2)
      (sample_shared 5)))) ''peer-b'' = Some ([1], [2], ''10.0.0.2'')"
proof -
  have "peer_of (pmap (sample_shared 5)) ''peer-b'' = Some (sample_peer 5)"
    by (simp add: peer_of_def)
  moreover from this
  have "known_identity sample_ext (pmap (sample_shared 5)) ''peer-b'' = Some ([1], [2], ''10.0.0.2'')"
    by (simp add: known_identity_def sample_peer_def)
  ultimately show ?thesis
    using heartbeat_no_takeover [OF sample_shared_ok(1) [of 5] refl, of sample_ext
        "sample_env sample_now" "''peer-b''" "SocketV4 1 2" "''peer-b''"] by simp
qed

subsection \<open>Sending does not matter to the records\<close>

lemma handle_register_pk_send:
  "pmap (fst (handle_register_pk x (e\<lparr>e_send := f\<rparr>) addr rk s))
     = pmap (fst (handle_register_pk x e addr rk s))"
  by (auto simp: handle_register_pk_def Let_def split: option.split prod.split)

text \<open>The \<open>uuid\<close> an id is bound to.\<close>

definition bound_uuid :: "externals \<Rightarrow> peer_map \<Rightarrow> string \<Rightarrow> bytes option" where
  "bound_uuid x pm pid = map_option fst (known_identity x pm pid)"

lemma register_pk_bound:
  assumes "shared_ok s" and "e_db_read e" and "bound_uuid x (pmap s) q = Some u"
  shows "bound_uuid x (pmap (fst (handle_register_pk x e addr rk s))) q = Some u"
proof (cases "rk_uuid rk = [] \<or> rk_pk rk = []")
  case True
  with assms(3) show ?thesis by (auto simp: handle_register_pk_def)
next
  case False
  let ?e = "e\<lparr>e_send := (\<lambda>_ _. True)\<rparr>"
  have pre: "pm_wf (pmap s)" "pm_coh (pmap s)" "e_db_read ?e" "rk_uuid rk \<noteq> []" "rk_pk rk \<noteq> []"
    "\<And>m. e_send ?e m addr" using assms(1,2) False by auto
  have "bound_uuid x (pmap (fst (handle_register_pk x ?e addr rk s))) q = Some u"
    using pre
  proof (cases rule: register_pk_tofu [where x = x])
    case (refused res)
    with assms(3) show ?thesis by (simp add: bound_uuid_def)
  next
    case judged
    with assms(3) show ?thesis
      by (auto simp: bound_uuid_def tofu_def split: option.splits if_splits)
  qed
  then show ?thesis by (simp add: handle_register_pk_send)
qed

lemma update_addr_bound:
  "shared_ok s \<Longrightarrow> bound_uuid x (pmap (fst (update_addr e pid addr s))) q = bound_uuid x (pmap s) q"
  by (simp add: bound_uuid_def update_addr_identity shared_okD(1))

end
