(* ===== verification/Punch_Hole.thy ===== *)
theory Punch_Hole
  imports Samples
begin

unbundle bit_operations_syntax

text \<open>
  Connection brokering of \<open>src/rendezvous_server.rs\<close>: the punch-hole request of A for
  peer B, B's answers (\<open>PunchHoleSent\<close>, \<open>LocalAddr\<close>) relayed back to A, and the online
  query. Addresses of A travel inside messages in the encoding of \<open>AddrMangle\<close>.
\<close>

definition PUNCH_REQ_DEDUPE_SEC :: nat where "PUNCH_REQ_DEDUPE_SEC = 60"

text \<open>
  The scan of the recent tail: the newest entry of the same requester and target among
  the last 30 decides, and the loop stops there.
\<close>

fun recent_dup :: "instant \<Rightarrow> string \<Rightarrow> string \<Rightarrow> punch_req_entry list \<Rightarrow> bool" where
  "recent_dup now from to_id [] = False"
| "recent_dup now from to_id (e # es) =
     (if pe_from_ip e = from \<and> pe_to_id e = to_id
      then elapsed_secs now (pe_tm e) < PUNCH_REQ_DEDUPE_SEC
      else recent_dup now from to_id es)"

definition record_punch_req ::
  "externals \<Rightarrow> instant \<Rightarrow> socket_addr \<Rightarrow> socket_addr \<Rightarrow> string \<Rightarrow> punch_req_entry list \<Rightarrow>
     punch_req_entry list" where
  "record_punch_req x now addr peer_addr pid lock =
     (let from_ip = show_ip (sa_ip (x_into_v4 x addr));
          to_ip = show_ip (sa_ip (x_into_v4 x peer_addr));
          dup = recent_dup now from_ip pid (take 30 (rev lock))
      in if \<not> dup
         then lock @ [\<lparr>pe_tm = now, pe_from_ip = from_ip, pe_to_ip = to_ip, pe_to_id = pid\<rparr>]
         else lock)"

fun same_ip :: "socket_addr \<Rightarrow> socket_addr \<Rightarrow> bool" where
  "same_ip (SocketV4 a _) (SocketV4 b _) \<longleftrightarrow> a = b"
| "same_ip (SocketV6 a _ _ _) (SocketV6 b _ _ _) \<longleftrightarrow> a = b"
| "same_ip _ _ \<longleftrightarrow> False"

text \<open>The message for an online peer, once the request has been recorded.\<close>

definition punch_message ::
  "externals \<Rightarrow> env \<Rightarrow> handle \<Rightarrow> socket_addr \<Rightarrow> socket_addr \<Rightarrow> i32 \<Rightarrow> bool \<Rightarrow> shared \<Rightarrow> rmsg \<times> shared" where
  "punch_message x e h addr peer_addr nat_type ws s =
     (let peer_is_lan = is_lan h peer_addr;
          lan = is_lan h addr;
          (relay_server, s') = get_relay_server h s;
          forced = (always_use_relay s' \<or> peer_is_lan \<noteq> lan);
          relay_server' = (if forced \<and> peer_is_lan then in_local_ip (h_inner h) else relay_server);
          nat_type' = (if forced then x_nat_symmetric x else nat_type);
          same_intranet = (\<not> ws \<and> (peer_is_lan \<and> lan \<or> same_ip peer_addr addr));
          socket_addr = x_mangle x (e_now e) addr
      in (if same_intranet
          then FetchLocalAddr \<lparr>fl_socket_addr = socket_addr, fl_relay_server = relay_server'\<rparr>
          else PunchHole \<lparr>pu_socket_addr = socket_addr, pu_relay_server = relay_server',
                          pu_nat_type = nat_type'\<rparr>, s'))"

definition handle_punch_hole_request ::
  "externals \<Rightarrow> env \<Rightarrow> handle \<Rightarrow> socket_addr \<Rightarrow> punch_hole_request \<Rightarrow> string \<Rightarrow> bool \<Rightarrow> shared \<Rightarrow>
     (rmsg \<times> socket_addr option) \<times> shared" where
  "handle_punch_hole_request x e h addr ph key ws s =
     (if key \<noteq> [] \<and> ph_licence_key ph \<noteq> key then ((phr_fail LICENSE_MISMATCH, None), s)
      else case pm_get x (e_db_read e) (e_now e) (ph_id ph) (pmap s) of
        (pm', None) \<Rightarrow> ((phr_fail ID_NOT_EXIST, None), s\<lparr>pmap := pm'\<rparr>)
      | (pm', Some l) \<Rightarrow>
          (let r = peer_at pm' l;
               peer_addr = p_socket_addr r
           in if REG_TIMEOUT \<le> reg_age (e_now e) r
              then ((phr_fail OFFLINE, None), s\<lparr>pmap := pm'\<rparr>)
              else (let reqs = record_punch_req x (e_now e) addr peer_addr (ph_id ph) (punch_reqs s);
                        (m, s') = punch_message x e h addr peer_addr (ph_nat_type ph) ws
                                    (s\<lparr>pmap := pm', punch_reqs := reqs\<rparr>)
                    in ((m, Some peer_addr), s'))))"

definition handle_tcp_punch_hole_request ::
  "externals \<Rightarrow> env \<Rightarrow> handle \<Rightarrow> socket_addr \<Rightarrow> punch_hole_request \<Rightarrow> string \<Rightarrow> bool \<Rightarrow> shared \<Rightarrow>
     shared \<times> result" where
  "handle_tcp_punch_hole_request x e h addr ph key ws s =
     (case handle_punch_hole_request x e h addr ph key ws s of
        ((m, Some to_addr), s') \<Rightarrow> tx_send e (Msg m to_addr) s'
      | ((m, None), s') \<Rightarrow> (send_to_tcp_sync x m addr s', Inr ()))"

definition handle_udp_punch_hole_request ::
  "externals \<Rightarrow> env \<Rightarrow> handle \<Rightarrow> socket_addr \<Rightarrow> punch_hole_request \<Rightarrow> string \<Rightarrow> shared \<Rightarrow>
     shared \<times> result" where
  "handle_udp_punch_hole_request x e h addr ph key s =
     (case handle_punch_hole_request x e h addr ph key False s of
        ((m, to_addr), s') \<Rightarrow>
          tx_send e (Msg m (case to_addr of Some a \<Rightarrow> a | None \<Rightarrow> addr)) s')"

text \<open>B's answers; \<open>udp\<close> says whether they arrived on the UDP socket.\<close>

definition handle_hole_sent ::
  "externals \<Rightarrow> env \<Rightarrow> handle \<Rightarrow> punch_hole_sent \<Rightarrow> socket_addr \<Rightarrow> bool \<Rightarrow> shared \<Rightarrow> shared \<times> result" where
  "handle_hole_sent x e h phs addr udp s =
     (let addr_a = x_demangle x (phs_socket_addr phs);
          (pk, s') = get_pk x e h (phs_version phs) (phs_id phs) s;
          m = PunchHoleResponse (phr_default\<lparr>phr_socket_addr := x_mangle x (e_now e) addr,
                phr_pk := pk, phr_relay_server := phs_relay_server phs,
                phr_nat_type := (if x_nat_known x (phs_nat_type phs)
                                 then Some (phs_nat_type phs) else None)\<rparr>)
      in if udp then udp_send e m addr_a s'
         else (send_to_tcp x m addr_a s', Inr ()))"

definition handle_local_addr ::
  "externals \<Rightarrow> env \<Rightarrow> handle \<Rightarrow> local_addr_msg \<Rightarrow> socket_addr \<Rightarrow> bool \<Rightarrow> shared \<Rightarrow> shared \<times> result" where
  "handle_local_addr x e h la addr udp s =
     (let addr_a = x_demangle x (la_socket_addr la);
          (pk, s') = get_pk x e h (la_version la) (la_id la) s;
          m = PunchHoleResponse (phr_default\<lparr>phr_socket_addr := la_local_addr la,
                phr_pk := pk, phr_relay_server := la_relay_server la, phr_is_local := True\<rparr>)
      in if udp then udp_send e m addr_a s'
         else (send_to_tcp x m addr_a s', Inr ()))"

subsection \<open>The online query\<close>

definition peer_online :: "instant \<Rightarrow> peer_map \<Rightarrow> string \<Rightarrow> bool" where
  "peer_online now pm pid =
     (case pm_get_in_memory pid pm of
        Some l \<Rightarrow> reg_age now (peer_at pm l) < REG_TIMEOUT
      | None \<Rightarrow> False)"

text \<open>\<open>states[i / 8] |= 0x01 << (7 - i % 8)\<close> for every online peer, in order.\<close>

fun online_states :: "instant \<Rightarrow> peer_map \<Rightarrow> nat \<Rightarrow> string list \<Rightarrow> bytes \<Rightarrow> bytes" where
  "online_states now pm i [] states = states"
| "online_states now pm i (pid # peers) states =
     online_states now pm (Suc i) peers
       (if peer_online now pm pid
        then states[i div 8 := states ! (i div 8) OR push_bit (7 - i mod 8) 1]
        else states)"

definition handle_online_request :: "instant \<Rightarrow> peer_map \<Rightarrow> string list \<Rightarrow> rmsg" where
  "handle_online_request now pm peers =
     OnlineResponse (online_states now pm 0 peers (replicate ((length peers + 7) div 8) 0))"

text \<open>How a client reads the answer: bit \<open>7 - i mod 8\<close> of byte \<open>i div 8\<close>.\<close>

definition online_bit :: "bytes \<Rightarrow> nat \<Rightarrow> bool" where
  "online_bit states i = bit (states ! (i div 8)) (7 - i mod 8)"

lemma length_online_states [simp]: "length (online_states now pm i peers states) = length states"
  by (induction peers arbitrary: i states) auto

lemma online_bit_set:
  assumes "i div 8 < length states"
  shows "online_bit (states[i div 8 := states ! (i div 8) OR push_bit (7 - i mod 8) 1]) j
    \<longleftrightarrow> j = i \<or> online_bit states j"
proof (cases "j div 8 = i div 8")
  case True
  have "j mod 8 < 8" "i mod 8 < 8" by simp_all
  then have "7 - j mod 8 = 7 - i mod 8 \<longleftrightarrow> j mod 8 = i mod 8" by linarith
  also have "\<dots> \<longleftrightarrow> j = i" using True by (metis div_mult_mod_eq)
  finally have eq: "7 - j mod 8 = 7 - i mod 8 \<longleftrightarrow> j = i" .
  have "7 - j mod 8 < 8" by simp
  with eq show ?thesis using True assms
    by (auto simp: online_bit_def bit_or_iff bit_exp_iff)
next
  case False
  then show ?thesis by (auto simp: online_bit_def)
qed

lemma online_states_bits:
  assumes "i + length peers \<le> 8 * length states"
  shows "online_bit (online_states now pm i peers states) j \<longleftrightarrow>
    online_bit states j \<or> (i \<le> j \<and> j < i + length peers \<and> peer_online now pm (peers ! (j - i)))"
  using assms
proof (induction peers arbitrary: i states)
  case (Cons pid peers)
  have byte: "i div 8 < length states" using Cons.prems by auto
  let ?s = "if peer_online now pm pid
    then states[i div 8 := states ! (i div 8) OR push_bit (7 - i mod 8) 1] else states"
  have IH: "online_bit (online_states now pm (Suc i) peers ?s) j \<longleftrightarrow>
      online_bit ?s j \<or> (Suc i \<le> j \<and> j < Suc i + length peers \<and>
        peer_online now pm (peers ! (j - Suc i)))"
    by (rule Cons.IH) (use Cons.prems in auto)
  have bit: "online_bit ?s j \<longleftrightarrow> (j = i \<and> peer_online now pm pid) \<or> online_bit states j"
    using online_bit_set [OF byte] by (cases "peer_online now pm pid") auto
  show ?case
  proof (cases "j = i")
    case True
    then show ?thesis using IH bit by (simp add: disj_commute)
  next
    case False
    then have "i \<le> j \<longleftrightarrow> Suc i \<le> j" by auto
    then show ?thesis using IH bit False by (cases "Suc i \<le> j") (simp_all add: nth_Cons')
  qed
qed auto

lemma online_bit_zero [simp]: "j < 8 * n \<Longrightarrow> \<not> online_bit (replicate n 0) j"
  by (simp add: online_bit_def less_mult_imp_div_less mult.commute)

text \<open>
  The answer to an online query has one bit per asked id, most significant bit first,
  set exactly for the ids whose peer is in memory and was heard of within
  \<open>REG_TIMEOUT\<close>, rounded up to whole bytes; the padding bits are zero.
\<close>

theorem online_bitmap:
  assumes "handle_online_request now pm peers = OnlineResponse states"
  shows "length states = (length peers + 7) div 8 \<and>
    (\<forall>j < 8 * length states. online_bit states j \<longleftrightarrow>
      j < length peers \<and> peer_online now pm (peers ! j))"
proof -
  have "0 + length peers \<le> 8 * length (replicate ((length peers + 7) div 8) (0 :: 8 word))"
    by simp
  from online_states_bits [OF this, of now pm] assms show ?thesis
    by (auto simp: handle_online_request_def)
qed

text \<open>An online peer in memory, one that is not, and one that is silent too long.\<close>

lemma online_bitmap_witness:
  "\<exists>states. handle_online_request sample_now (sample_pm (sample_now - 5)) [''nobody'', ''peer-b'']
      = OnlineResponse states \<and> length states = 1 \<and> \<not> online_bit states 0 \<and> online_bit states 1 \<and>
      \<not> online_bit states 2"
proof -
  let ?pm = "sample_pm (sample_now - 5)"
  obtain states where st: "handle_online_request sample_now ?pm [''nobody'', ''peer-b'']
      = OnlineResponse states" by (simp add: handle_online_request_def)
  have "peer_online sample_now ?pm ''peer-b''" "\<not> peer_online sample_now ?pm ''nobody''"
    by (simp_all add: peer_online_def pm_get_in_memory_def reg_age_def REG_TIMEOUT_def
        sample_peer_def sample_now_def clock_simps)
  with online_bitmap [OF st] st show ?thesis by auto
qed

subsection \<open>Frames\<close>

lemma punch_message_frame [simp]:
  "pmap (snd (punch_message x e h a b n ws s)) = pmap s"
  "ip_blocker (snd (punch_message x e h a b n ws s)) = ip_blocker s"
  "punch_reqs (snd (punch_message x e h a b n ws s)) = punch_reqs s"
  "tcp_punch (snd (punch_message x e h a b n ws s)) = tcp_punch s"
  "tx (snd (punch_message x e h a b n ws s)) = tx s"
  "udp_out (snd (punch_message x e h a b n ws s)) = udp_out s"
  by (simp_all add: punch_message_def Let_def case_prod_beta)

lemma handle_punch_hole_request_frame [simp]:
  "pmap (snd (handle_punch_hole_request x e h a ph key ws s)) =
     (if key \<noteq> [] \<and> ph_licence_key ph \<noteq> key then pmap s
      else fst (pm_get x (e_db_read e) (e_now e) (ph_id ph) (pmap s)))"
  "ip_blocker (snd (handle_punch_hole_request x e h a ph key ws s)) = ip_blocker s"
  "tcp_punch (snd (handle_punch_hole_request x e h a ph key ws s)) = tcp_punch s"
  "tx (snd (handle_punch_hole_request x e h a ph key ws s)) = tx s"
  "udp_out (snd (handle_punch_hole_request x e h a ph key ws s)) = udp_out s"
  by (auto simp: handle_punch_hole_request_def Let_def case_prod_beta split: option.split prod.split)

subsection \<open>What a request gets\<close>

text \<open>
  The specification: a wrong licence, an unknown id and a silent peer are refused, any
  other request is sent to the address the peer last registered from.
\<close>

datatype verdict = Deny punch_failure | Contact socket_addr

definition known_peer :: "externals \<Rightarrow> instant \<Rightarrow> peer_map \<Rightarrow> string \<Rightarrow> peer option" where
  "known_peer x now pm pid =
     (case peer_of pm pid of
        Some p \<Rightarrow> Some p
      | None \<Rightarrow> map_option (loaded_peer x now) (find_row (pm_db pm) pid))"

definition broker_verdict :: "string \<Rightarrow> string \<Rightarrow> instant \<Rightarrow> peer option \<Rightarrow> verdict" where
  "broker_verdict key licence now known =
     (if key \<noteq> [] \<and> licence \<noteq> key then Deny LICENSE_MISMATCH
      else case known of
        None \<Rightarrow> Deny ID_NOT_EXIST
      | Some p \<Rightarrow> if REG_TIMEOUT \<le> reg_age now p then Deny OFFLINE else Contact (p_socket_addr p))"

text \<open>The two messages that ask a peer to open a path, and whose address they carry.\<close>

fun invites :: "rmsg \<Rightarrow> bytes option" where
  "invites (FetchLocalAddr f) = Some (fl_socket_addr f)"
| "invites (PunchHole p) = Some (pu_socket_addr p)"
| "invites _ = None"

lemma pm_get_known:
  assumes "pm_wf pm"
  shows "known_peer x now pm pid =
    (case pm_get x True now pid pm of (pm', r) \<Rightarrow> map_option (peer_at pm') r)"
  using assms
proof (cases rule: pm_get_cases [where pid = pid and x = x and up = True and now = now])
  case (hit l)
  then show ?thesis by (simp add: known_peer_def peer_of_def)
next
  case (load v pm' l)
  have "peer_of pm' pid = Some (loaded_peer x now v)"
    using peer_of_add [OF assms, of pid "loaded_peer x now v" pid] load(6) by simp
  then have "peer_at pm' l = loaded_peer x now v" using load(5) by (simp add: peer_of_def)
  then show ?thesis using load by (simp add: known_peer_def peer_of_def)
next
  case miss
  then show ?thesis by (simp add: known_peer_def peer_of_def)
qed

lemma punch_message_invites:
  "invites (fst (punch_message x e h a b n ws s)) = Some (x_mangle x (e_now e) a)"
  by (simp add: punch_message_def Let_def case_prod_beta)

lemma punch_outcome:
  fixes x :: externals
  assumes "pm_wf (pmap s)" and "e_db_read e"
  shows "case broker_verdict key (ph_licence_key ph) (e_now e)
      (known_peer x (e_now e) (pmap s) (ph_id ph)) of
    Deny f \<Rightarrow> fst (handle_punch_hole_request x e h a ph key ws s) = (phr_fail f, None)
  | Contact b \<Rightarrow> snd (fst (handle_punch_hole_request x e h a ph key ws s)) = Some b \<and>
      invites (fst (fst (handle_punch_hole_request x e h a ph key ws s)))
        = Some (x_mangle x (e_now e) a)"
  using pm_get_known [OF assms(1), of x "e_now e" "ph_id ph"] assms(2) punch_message_invites
  by (auto simp: handle_punch_hole_request_def broker_verdict_def Let_def case_prod_beta
      split: option.splits prod.splits)

lemma known_peer_get:
  assumes "pm_wf pm"
  shows "known_peer x now (fst (pm_get x True now pid pm)) q = known_peer x now pm q"
  using assms
proof (cases rule: pm_get_cases [where pid = pid and x = x and up = True and now = now])
  case (load v pm' l)
  have "peer_of pm' q = (if q = pid then Some (loaded_peer x now v) else peer_of pm q)"
    using peer_of_add [OF assms, of pid "loaded_peer x now v" q] load(6) by simp
  moreover have "pm_db pm' = pm_db pm" by (metis fst_conv load(4) pm_get_db)
  moreover have "peer_of pm pid = None" using load(1) by (simp add: peer_of_def)
  ultimately show ?thesis using load(3,4)
    by (simp add: known_peer_def split: option.split)
qed auto

text \<open>
  C11. A punch-hole request gets exactly what the specification says: the failure, addressed
  to nobody else, or an invitation that carries the requester's mangled address and goes
  to the address the target registered from. No request changes what the server knows of
  any peer.
\<close>

theorem punch_request_verdict:
  fixes x :: externals
  assumes "pm_wf (pmap s)" and "e_db_read e"
  shows "(case broker_verdict key (ph_licence_key ph) (e_now e)
        (known_peer x (e_now e) (pmap s) (ph_id ph)) of
      Deny f \<Rightarrow> fst (handle_punch_hole_request x e h a ph key ws s) = (phr_fail f, None)
    | Contact b \<Rightarrow> snd (fst (handle_punch_hole_request x e h a ph key ws s)) = Some b \<and>
        invites (fst (fst (handle_punch_hole_request x e h a ph key ws s)))
          = Some (x_mangle x (e_now e) a)) \<and>
    known_peer x (e_now e) (pmap (snd (handle_punch_hole_request x e h a ph key ws s))) q
      = known_peer x (e_now e) (pmap s) q"
  using punch_outcome [OF assms] known_peer_get [OF assms(1)] assms(2) by simp

lemma punch_request_verdict_witness:
  "snd (fst (handle_punch_hole_request sample_ext (sample_env sample_now) sample_handle
      (SocketV4 1 7) \<lparr>ph_id = ''peer-b'', ph_licence_key = [], ph_nat_type = 0\<rparr> [] False
      (sample_shared (sample_now - 5)))) = Some (SocketV4 167772162 5000)"
proof -
  have known: "known_peer sample_ext sample_now (sample_pm (sample_now - 5)) ''peer-b''
      = Some (sample_peer (sample_now - 5))"
    by (simp add: known_peer_def peer_of_def)
  have "pmap (sample_shared (sample_now - 5)) = sample_pm (sample_now - 5)"
    "e_now (sample_env sample_now) = sample_now" "e_db_read (sample_env sample_now)"
    by (simp_all add: sample_shared_def sample_env_def)
  then show ?thesis
    using punch_request_verdict [where x = sample_ext and e = "sample_env sample_now"
        and s = "sample_shared (sample_now - 5)" and h = sample_handle and key = "[]"
        and a = "SocketV4 1 7" and ws = False and q = "''peer-b''"
        and ph = "\<lparr>ph_id = ''peer-b'', ph_licence_key = [], ph_nat_type = 0\<rparr>"] known
    by (simp add: broker_verdict_def reg_age_def REG_TIMEOUT_def
        sample_peer_def sample_now_def clock_simps)
qed

text \<open>A peer that was loaded from the table has been silent for an hour.\<close>

lemma loaded_peer_offline: "3600 * 1000000000 \<le> now \<Longrightarrow> reg_age now (loaded_peer x now v) = 3600000"
  by (simp add: loaded_peer_def peer_default_def get_expired_time_def clock_simps)

text \<open>
  Only a peer that registered with this very process is ever contacted: the target of a
  forwarded request is in memory, its registration counts as fresh, and the message goes to
  the address it registered from, whether or not the database answers.
\<close>

theorem contacted_peer_registered:
  fixes x :: externals
  assumes "pm_wf (pmap s)" and "3600 * 1000000000 \<le> e_now e"
    and "snd (fst (handle_punch_hole_request x e h a ph key ws s)) = Some b"
  shows "\<exists>p. peer_of (pmap s) (ph_id ph) = Some p \<and> p_socket_addr p = b \<and>
    reg_age (e_now e) p < REG_TIMEOUT"
  using assms(1)
proof (cases rule: pm_get_cases [where pid = "ph_id ph" and x = x and up = "e_db_read e"
      and now = "e_now e"])
  case (load v pm' l)
  have "peer_of pm' (ph_id ph) = Some (loaded_peer x (e_now e) v)"
    using peer_of_add [OF assms(1), of "ph_id ph" "loaded_peer x (e_now e) v" "ph_id ph"] load(6)
    by simp
  then have "peer_at pm' l = loaded_peer x (e_now e) v" using load(5) by (simp add: peer_of_def)
  then show ?thesis using load(4) assms(3) loaded_peer_offline [OF assms(2)]
    by (auto simp: handle_punch_hole_request_def REG_TIMEOUT_def split: if_splits)
qed (use assms(3) in \<open>auto simp: handle_punch_hole_request_def peer_of_def Let_def case_prod_beta
      split: if_splits\<close>)

lemma contacted_peer_registered_witness:
  "\<exists>p. peer_of (sample_pm (sample_now - 5)) ''peer-b'' = Some p \<and>
    p_socket_addr p = SocketV4 167772162 5000 \<and> reg_age sample_now p < REG_TIMEOUT"
proof -
  let ?s = "sample_shared (sample_now - 5)"
  have "reg_age sample_now (sample_peer (sample_now - 5)) = 0"
    by (simp add: sample_peer_def sample_now_def clock_simps)
  then have out: "snd (fst (handle_punch_hole_request sample_ext (sample_env sample_now) sample_handle
      (SocketV4 1 7) \<lparr>ph_id = ''peer-b'', ph_licence_key = [], ph_nat_type = 0\<rparr> [] False ?s))
        = Some (SocketV4 167772162 5000)"
    by (simp add: handle_punch_hole_request_def pm_get_def sample_shared_def sample_env_def
        Let_def case_prod_beta REG_TIMEOUT_def) (simp add: sample_peer_def)
  have "pmap ?s = sample_pm (sample_now - 5)" "e_now (sample_env sample_now) = sample_now"
    by (simp_all add: sample_shared_def sample_env_def)
  with contacted_peer_registered [OF _ _ out] show ?thesis by (simp add: sample_now_def)
qed

subsection \<open>The width of the age\<close>

lemma sint_as_i32_mod: "sint (as_i32 n) = (int n + 2147483648) mod 4294967296 - 2147483648"
  by (simp add: sint_as_i32 signed_take_bit_eq_take_bit_shift take_bit_eq_mod)

text \<open>
  The milliseconds since the last heartbeat are cut to a signed 32-bit number: a peer
  counts as reachable while they are below 30000 modulo two to the 32, and again during the
  whole upper half of every period, that is from 24.8 to 49.7 days of silence.
\<close>

theorem reachable_window:
  "reg_age now p < REG_TIMEOUT \<longleftrightarrow>
     elapsed_millis now (p_last_reg_time p) mod 4294967296 < 30000 \<or>
     2147483648 \<le> elapsed_millis now (p_last_reg_time p) mod 4294967296"
proof -
  define n where "n = elapsed_millis now (p_last_reg_time p)"
  define m where "m = int n mod 4294967296"
  have m: "0 \<le> m" "m < 4294967296" by (simp_all add: m_def)
  have "(int n + 2147483648) mod 4294967296 = (m + 2147483648) mod 4294967296"
    by (simp add: m_def mod_add_left_eq)
  also have "\<dots> = (if m < 2147483648 then m + 2147483648 else m - 2147483648)"
    using m mod_add_self2 [of "m - 2147483648" "4294967296"] by (auto simp: add.commute [of m])
  finally have "sint (as_i32 n) < 30000 \<longleftrightarrow> m < 30000 \<or> 2147483648 \<le> m"
    using m by (auto simp: sint_as_i32_mod)
  moreover have "m = int (n mod 4294967296)" by (simp add: m_def zmod_int)
  ultimately show ?thesis by (auto simp: reg_age_def REG_TIMEOUT_def n_def)
qed

subsection \<open>The log of requests\<close>

abbreviation same_request :: "punch_req_entry \<Rightarrow> string \<Rightarrow> string \<Rightarrow> bool" where
  "same_request e from to_id \<equiv> pe_from_ip e = from \<and> pe_to_id e = to_id"

lemma recent_dup_old:
  "sorted_wrt (\<lambda>a b. pe_tm b \<le> pe_tm a) es \<Longrightarrow> \<not> recent_dup now from to_id es \<Longrightarrow> e \<in> set es \<Longrightarrow>
     same_request e from to_id \<Longrightarrow> PUNCH_REQ_DEDUPE_SEC \<le> elapsed_secs now (pe_tm e)"
proof (induction es)
  case (Cons a es)
  show ?case
  proof (cases "same_request a from to_id")
    case True
    then have "PUNCH_REQ_DEDUPE_SEC \<le> elapsed_secs now (pe_tm a)" using Cons.prems(2) by simp
    also have "\<dots> \<le> elapsed_secs now (pe_tm e)"
      using Cons.prems(1,3) by (intro elapsed_secs_antimono) auto
    finally show ?thesis .
  qed (use Cons in auto)
qed simp

lemma recent_dup_found:
  "recent_dup now from to_id es \<Longrightarrow>
     \<exists>e \<in> set es. same_request e from to_id \<and> elapsed_secs now (pe_tm e) < PUNCH_REQ_DEDUPE_SEC"
  by (induction es) (auto split: if_splits)

definition punch_log_ok :: "punch_req_entry list \<Rightarrow> bool" where
  "punch_log_ok log \<longleftrightarrow> sorted_wrt (\<lambda>a b. pe_tm a \<le> pe_tm b) log \<and>
     (\<forall>i j. i < j \<longrightarrow> j < length log \<longrightarrow> j - i \<le> 30 \<longrightarrow>
        same_request (log ! i) (pe_from_ip (log ! j)) (pe_to_id (log ! j)) \<longrightarrow>
        PUNCH_REQ_DEDUPE_SEC \<le> elapsed_secs (pe_tm (log ! j)) (pe_tm (log ! i)))"

lemma recent_tail:
  assumes "i < length log" and "length log - i \<le> n"
  shows "log ! i \<in> set (take n (rev log))"
proof -
  have "take n (rev log) ! (length log - 1 - i) = log ! i" "length log - 1 - i < length (take n (rev log))"
    using assms by (auto simp: rev_nth)
  then show ?thesis by (metis nth_mem)
qed

lemma punch_log_snoc:
  assumes ok: "punch_log_ok log" and late: "\<forall>e \<in> set log. pe_tm e \<le> pe_tm new"
    and fresh: "\<not> recent_dup (pe_tm new) (pe_from_ip new) (pe_to_id new) (take 30 (rev log))"
  shows "punch_log_ok (log @ [new])"
proof -
  have "sorted_wrt (\<lambda>a b. pe_tm b \<le> pe_tm a) (rev log)"
    using ok by (simp add: punch_log_ok_def sorted_wrt_rev)
  then have desc: "sorted_wrt (\<lambda>a b. pe_tm b \<le> pe_tm a) (take 30 (rev log))"
    by (rule sorted_wrt_take)
  have "PUNCH_REQ_DEDUPE_SEC \<le> elapsed_secs (pe_tm new) (pe_tm (log ! i))"
    if "i < length log" "length log - i \<le> 30" "same_request (log ! i) (pe_from_ip new) (pe_to_id new)" for i
    using recent_dup_old [OF desc fresh recent_tail [OF that(1,2)]] that(3) by simp
  then show ?thesis
    using ok late by (auto simp: punch_log_ok_def sorted_wrt_append nth_append)
qed

text \<open>A run of recorded requests: the time, requester, target address and target id of each.\<close>

fun punch_log ::
  "externals \<Rightarrow> (instant \<times> socket_addr \<times> socket_addr \<times> string) list \<Rightarrow> punch_req_entry list \<Rightarrow>
     punch_req_entry list" where
  "punch_log x [] log = log"
| "punch_log x ((now, a, b, pid) # rs) log = punch_log x rs (record_punch_req x now a b pid log)"

lemma record_punch_req_times:
  "e \<in> set (record_punch_req x now a b pid log) \<Longrightarrow> e \<in> set log \<or> pe_tm e = now"
  by (auto simp: record_punch_req_def Let_def split: if_splits)

lemma record_punch_req_ok:
  "punch_log_ok log \<Longrightarrow> \<forall>e \<in> set log. pe_tm e \<le> now \<Longrightarrow> punch_log_ok (record_punch_req x now a b pid log)"
  by (auto simp: record_punch_req_def Let_def intro!: punch_log_snoc)

lemma punch_log_run:
  "punch_log_ok log \<Longrightarrow> sorted (map fst rs) \<Longrightarrow> \<forall>e \<in> set log. \<forall>r \<in> set rs. pe_tm e \<le> fst r \<Longrightarrow>
     punch_log_ok (punch_log x rs log)"
proof (induction rs arbitrary: log)
  case (Cons r rs)
  obtain now a b pid where r: "r = (now, a, b, pid)" by (cases r)
  let ?log = "record_punch_req x now a b pid log"
  have "punch_log_ok ?log" using Cons.prems r by (intro record_punch_req_ok) auto
  moreover have "\<forall>e \<in> set ?log. \<forall>r \<in> set rs. pe_tm e \<le> fst r"
    using Cons.prems r by (auto dest!: record_punch_req_times)
  ultimately show ?case using Cons.IH [of ?log] Cons.prems r by simp
qed simp

text \<open>
  The log of punch-hole requests keeps no duplicate of the recent past: of two entries
  of one requester and one target at most thirty entries apart, the later is at least
  \<open>PUNCH_REQ_DEDUPE_SEC\<close> seconds younger, whatever requests arrive in whatever order.
\<close>

theorem punch_log_deduped:
  assumes "sorted (map fst rs)" and "i < j" and "j < length (punch_log x rs [])" and "j - i \<le> 30"
    and "pe_from_ip (punch_log x rs [] ! i) = pe_from_ip (punch_log x rs [] ! j)"
    and "pe_to_id (punch_log x rs [] ! i) = pe_to_id (punch_log x rs [] ! j)"
  shows "PUNCH_REQ_DEDUPE_SEC \<le>
    elapsed_secs (pe_tm (punch_log x rs [] ! j)) (pe_tm (punch_log x rs [] ! i))"
proof -
  have "punch_log_ok (punch_log x rs [])"
    by (rule punch_log_run) (use assms(1) in \<open>simp_all add: punch_log_ok_def\<close>)
  with assms(2-) show ?thesis by (simp add: punch_log_ok_def)
qed

text \<open>
  Recording loses nothing: the earlier entries stay in place, and afterwards the log holds
  an entry of this requester and target that is younger than \<open>PUNCH_REQ_DEDUPE_SEC\<close> seconds.
\<close>

theorem punch_request_recorded:
  "take (length log) (record_punch_req x now a b pid log) = log \<and>
   (\<exists>e. e \<in> set (record_punch_req x now a b pid log) \<and>
      pe_from_ip e = show_ip (sa_ip (x_into_v4 x a)) \<and> pe_to_id e = pid \<and>
      elapsed_secs now (pe_tm e) < PUNCH_REQ_DEDUPE_SEC)"
proof (cases "recent_dup now (show_ip (sa_ip (x_into_v4 x a))) pid (take 30 (rev log))")
  case True
  then obtain e where "e \<in> set (take 30 (rev log))"
    "same_request e (show_ip (sa_ip (x_into_v4 x a))) pid"
    "elapsed_secs now (pe_tm e) < PUNCH_REQ_DEDUPE_SEC"
    using recent_dup_found by blast
  moreover from this have "e \<in> set log" by (auto dest: in_set_takeD)
  ultimately show ?thesis using True by (auto simp: record_punch_req_def)
next
  case False
  then show ?thesis by (auto simp: record_punch_req_def PUNCH_REQ_DEDUPE_SEC_def)
qed

lemma punch_log_deduped_witness:
  "\<exists>log. length log = 2 \<and>
    log = punch_log sample_ext [(0, SocketV4 1 2, SocketV4 3 4, ''peer-b''),
      (30000000000, SocketV4 1 2, SocketV4 3 4, ''peer-b''),
      (90000000000, SocketV4 1 9, SocketV4 3 4, ''peer-b'')] [] \<and>
    PUNCH_REQ_DEDUPE_SEC \<le> elapsed_secs (pe_tm (log ! 1)) (pe_tm (log ! 0))"
proof -
  define rs where "rs = [(0 :: instant, SocketV4 1 2, SocketV4 3 4, ''peer-b''),
      (30000000000, SocketV4 1 2, SocketV4 3 4, ''peer-b''),
      (90000000000, SocketV4 1 9, SocketV4 3 4, ''peer-b'')]"
  have log: "punch_log sample_ext rs [] =
      [\<lparr>pe_tm = 0, pe_from_ip = show_ip (IpV4 1), pe_to_ip = show_ip (IpV4 3), pe_to_id = ''peer-b''\<rparr>,
       \<lparr>pe_tm = 90000000000, pe_from_ip = show_ip (IpV4 1), pe_to_ip = show_ip (IpV4 3),
        pe_to_id = ''peer-b''\<rparr>]"
    by (simp add: rs_def record_punch_req_def Let_def sample_ext_def clock_simps
        PUNCH_REQ_DEDUPE_SEC_def)
  have "sorted (map fst rs)" by (simp add: rs_def)
  from punch_log_deduped [OF this, of 0 1 sample_ext] log
  have "PUNCH_REQ_DEDUPE_SEC \<le> elapsed_secs (pe_tm (punch_log sample_ext rs [] ! 1))
      (pe_tm (punch_log sample_ext rs [] ! 0))" by simp
  then show ?thesis unfolding rs_def [symmetric] by (intro exI [of _ "punch_log sample_ext rs []"])
    (simp add: log)
qed

subsection \<open>Relay rotation\<close>

fun relay_picks :: "handle \<Rightarrow> nat \<Rightarrow> shared \<Rightarrow> string list" where
  "relay_picks h 0 s = []"
| "relay_picks h (Suc n) s =
     (let (r, s') = get_relay_server h s in r # relay_picks h n s')"

lemma unat_word_less_two: "unat (w + 1 :: usize) = unat w + 1" if "unat w + 1 < 2 ^ 64"
  using that by (simp add: unat_word_ariths)

lemma relay_picks_map:
  assumes "2 \<le> length (h_relay_servers h)" and "unat (rotation s) + k \<le> 2 ^ 64"
  shows "relay_picks h k s =
    map (\<lambda>i. h_relay_servers h ! ((unat (rotation s) + i) mod length (h_relay_servers h))) [0..<k]"
  using assms(2)
proof (induction k arbitrary: s)
  case (Suc k)
  have step: "get_relay_server h s = (h_relay_servers h ! (unat (rotation s) mod length (h_relay_servers h)),
      s\<lparr>rotation := rotation s + 1\<rparr>)"
    using assms(1) by (auto simp: get_relay_server_def Let_def)
  show ?case
  proof (cases k)
    case 0
    then show ?thesis using step by simp
  next
    case (Suc j)
    then have nxt: "unat (rotation s + 1) = Suc (unat (rotation s))"
      using Suc.prems unat_word_less_two [of "rotation s"] by simp
    have "map f [0..<Suc k] = f 0 # map (\<lambda>i. f (Suc i)) [0..<k]" for f :: "nat \<Rightarrow> string"
      by (simp add: upt_conv_Cons map_Suc_upt [symmetric] comp_def del: upt_Suc)
    then show ?thesis using step nxt Suc.IH [of "s\<lparr>rotation := rotation s + 1\<rparr>"] Suc.prems
      by (simp del: upt_Suc)
  qed
qed simp

text \<open>
  Relay servers are handed out in turn: as many requests as there are servers get every
  server once, in the configured order from the current position, as long as the counter
  does not wrap around within the round.
\<close>

theorem relay_round_robin:
  assumes "unat (rotation s) + length (h_relay_servers h) \<le> 2 ^ 64"
  shows "relay_picks h (length (h_relay_servers h)) s = rotate (unat (rotation s)) (h_relay_servers h)"
proof (cases "2 \<le> length (h_relay_servers h)")
  case True
  then show ?thesis using relay_picks_map [OF True assms]
    by (intro nth_equalityI) (auto simp: nth_rotate)
next
  case False
  then consider "h_relay_servers h = []" | r where "h_relay_servers h = [r]"
    by (cases "h_relay_servers h"; cases "tl (h_relay_servers h)") auto
  then show ?thesis by cases (auto simp: get_relay_server_def Let_def)
qed

lemma relay_round_robin_witness:
  "relay_picks sample_handle 2 (fresh_shared\<lparr>rotation := 1\<rparr>) = [''r2'', ''r1'']"
proof -
  have len: "length (h_relay_servers sample_handle) = 2" and rot: "unat (rotation (fresh_shared\<lparr>rotation := 1\<rparr>)) = 1"
    by (simp_all add: sample_handle_def)
  show ?thesis
    using relay_round_robin [of "fresh_shared\<lparr>rotation := 1\<rparr>" sample_handle] unfolding len rot
    by (simp add: sample_handle_def del: relay_picks.simps)
qed

subsection \<open>The handlers keep the invariant\<close>

lemma handle_punch_hole_request_ok:
  assumes "shared_ok s"
  shows "shared_ok (snd (handle_punch_hole_request x e h a ph key ws s))"
proof (cases "key \<noteq> [] \<and> ph_licence_key ph \<noteq> key")
  case True
  with assms show ?thesis by (auto intro: shared_ok_same)
next
  case False
  show ?thesis
    by (rule shared_ok_get [OF assms, of _ x "e_db_read e" "e_now e" "ph_id ph"]) (use False in auto)
qed

lemma tx_send_ok [simp]: "shared_ok (fst (tx_send e d s)) = shared_ok s"
  by (simp add: shared_ok_def)

lemma udp_send_ok [simp]: "shared_ok (fst (udp_send e m a s)) = shared_ok s"
  by (simp add: shared_ok_def)

lemma send_to_tcp_ok [simp]:
  "shared_ok (send_to_tcp x m a s) = shared_ok s" "shared_ok (send_to_tcp_sync x m a s) = shared_ok s"
  by (simp_all add: shared_ok_def)

lemma punch_handlers_ok:
  assumes "shared_ok s"
  shows "shared_ok (fst (handle_tcp_punch_hole_request x e h a ph key ws s))"
    and "shared_ok (fst (handle_udp_punch_hole_request x e h a ph key s))"
    and "shared_ok (fst (handle_hole_sent x e h phs a udp s))"
    and "shared_ok (fst (handle_local_addr x e h la a udp s))"
proof -
  have req: "shared_ok s'" if "handle_punch_hole_request x e h a ph key w s = (r, s')" for w r s'
    using handle_punch_hole_request_ok [OF assms, of x e h a ph key w] that by simp
  show "shared_ok (fst (handle_tcp_punch_hole_request x e h a ph key ws s))"
    by (auto simp: handle_tcp_punch_hole_request_def dest: req split: prod.split option.split)
  show "shared_ok (fst (handle_udp_punch_hole_request x e h a ph key s))"
    by (auto simp: handle_udp_punch_hole_request_def dest: req split: prod.split)
  have "shared_ok s'" if "get_pk x e h v i s = (k, s')" for v i k s'
    using get_pk_ok [OF assms, of x e h v i] that by simp
  then show "shared_ok (fst (handle_hole_sent x e h phs a udp s))"
    "shared_ok (fst (handle_local_addr x e h la a udp s))"
    by (auto simp: handle_hole_sent_def handle_local_addr_def Let_def split: prod.split)
qed

subsection \<open>The answer finds its way back\<close>

text \<open>
  The round trip of a brokered connection: when a request of A was forwarded to B and B
  answers with the address bytes it was given, the server answers A. On UDP the response
  goes to A's address; on TCP it goes to the connection that waits under A's address, and
  that connection is taken out, so nothing later reaches it. The response is no failure and
  carries B's address. Rests on the documented inverse of the address encoding.
\<close>

theorem punch_answer_returns:
  fixes x :: externals
  assumes "fst (fst (handle_punch_hole_request x e h a ph key ws s)) = m"
    and "invites m = Some (phs_socket_addr phs)"
    and "x_demangle x (x_mangle x (e_now e) a) = a"
    and "\<And>m. e_send e' m a" and "\<And>m. x_encode x m \<noteq> None"
  shows "\<exists>r. phr_socket_addr r = x_mangle x (e_now e') b \<and> phr_failure r = None \<and>
    udp_out (fst (handle_hole_sent x e' h' phs b True s'))
      = udp_out s' @ [(PunchHoleResponse r, a)] \<and>
    sink_out (fst (handle_hole_sent x e' h' phs b False s')) = sink_out s' @
      (case tcp_punch s' (x_into_v4 x a) of None \<Rightarrow> [] | Some k \<Rightarrow> [(k, PunchHoleResponse r)]) \<and>
    tcp_punch (fst (handle_hole_sent x e' h' phs b False s')) (x_into_v4 x a) = None"
proof -
  have "phs_socket_addr phs = x_mangle x (e_now e) a"
    using assms(1,2) punch_message_invites [of x e h a]
    by (auto simp: handle_punch_hole_request_def phr_fail_def Let_def case_prod_beta
        split: if_splits option.splits prod.splits)
  then have a: "x_demangle x (phs_socket_addr phs) = a" using assms(3) by simp
  obtain pk s1 where pk: "get_pk x e' h' (phs_version phs) (phs_id phs) s' = (pk, s1)" by fastforce
  have s1: "udp_out s1 = udp_out s'" "tcp_punch s1 = tcp_punch s'" "sink_out s1 = sink_out s'"
    using pk by (auto simp: get_pk_def split: if_splits option.splits prod.splits)
  show ?thesis
    using a pk s1 assms(4,5)
    by (auto simp: handle_hole_sent_def udp_send_def send_to_tcp_sinks phr_default_def
        simp del: not_None_eq split: option.split)
qed

lemma punch_answer_returns_witness:
  "\<exists>r. udp_out (fst (handle_hole_sent sample_ext (sample_env sample_now) sample_handle
      \<lparr>phs_socket_addr = [77, 0], phs_id = [], phs_relay_server = [], phs_nat_type = 0,
       phs_version = []\<rparr> (SocketV4 167772162 5000) True fresh_shared))
    = [(PunchHoleResponse r, SocketV4 167772161 77)]"
proof -
  let ?ph = "\<lparr>ph_id = ''peer-b'', ph_licence_key = [], ph_nat_type = 0\<rparr>"
  let ?s = "sample_shared (sample_now - 5)"
  let ?req = "handle_punch_hole_request sample_ext (sample_env sample_now) sample_handle
      (SocketV4 167772161 77) ?ph [] False ?s"
  let ?phs = "\<lparr>phs_socket_addr = [77, 0], phs_id = [], phs_relay_server = [], phs_nat_type = 0,
       phs_version = []\<rparr>"
  have mangle: "x_mangle sample_ext t (SocketV4 167772161 77) = [77, 0]"
    and demangle: "x_demangle sample_ext [77, 0] = SocketV4 167772161 77"
    and encode: "x_encode sample_ext m \<noteq> None" for t m
    by (simp_all add: sample_ext_def)
  have "reg_age sample_now (sample_peer (sample_now - 5)) = 0"
    by (simp add: sample_peer_def sample_now_def clock_simps)
  then have "invites (fst (fst ?req)) = Some (phs_socket_addr ?phs)"
    using punch_message_invites [of sample_ext "sample_env sample_now" sample_handle
        "SocketV4 167772161 77"] mangle
    by (simp add: handle_punch_hole_request_def pm_get_def Let_def case_prod_beta REG_TIMEOUT_def)
  from punch_answer_returns [OF refl this, of "sample_env sample_now" "SocketV4 167772162 5000"
      sample_handle fresh_shared] mangle demangle encode
  show ?thesis by (auto simp: fresh_shared_def)
qed

subsection \<open>Brokering binds nothing\<close>

lemma get_pk_identity:
  assumes "shared_ok s" and "e_db_read e"
  shows "known_identity x (pmap (snd (get_pk x e h v i s))) q = known_identity x (pmap s) q"
  using pm_get_identity [OF shared_okD(1) [OF assms(1)], of x "e_now e" i q] assms(2)
  by (auto simp: get_pk_def split: option.splits prod.splits)

lemma punch_request_identity:
  assumes "shared_ok s" and "e_db_read e"
  shows "known_identity x (pmap (snd (handle_punch_hole_request x e h a ph key ws s))) q
    = known_identity x (pmap s) q"
  using pm_get_identity [OF shared_okD(1) [OF assms(1)], of x "e_now e" "ph_id ph" q] assms(2) by simp

lemma brokering_identity:
  assumes "shared_ok s" and "e_db_read e"
  shows "known_identity x (pmap (fst (handle_udp_punch_hole_request x e h a ph key s))) q
      = known_identity x (pmap s) q"
    and "known_identity x (pmap (fst (handle_tcp_punch_hole_request x e h a ph key ws s))) q
      = known_identity x (pmap s) q"
    and "known_identity x (pmap (fst (handle_hole_sent x e h phs a udp s))) q
      = known_identity x (pmap s) q"
    and "known_identity x (pmap (fst (handle_local_addr x e h la a udp s))) q
      = known_identity x (pmap s) q"
proof -
  have req: "known_identity x (pmap s') q = known_identity x (pmap s) q"
    if "handle_punch_hole_request x e h a ph key w s = (r, s')" for w r s'
    using punch_request_identity [OF assms, of x h a ph key w q] that by simp
  show "known_identity x (pmap (fst (handle_udp_punch_hole_request x e h a ph key s))) q
      = known_identity x (pmap s) q"
    by (auto simp: handle_udp_punch_hole_request_def dest: req split: prod.split)
  show "known_identity x (pmap (fst (handle_tcp_punch_hole_request x e h a ph key ws s))) q
      = known_identity x (pmap s) q"
    by (auto simp: handle_tcp_punch_hole_request_def dest: req split: prod.split option.split)
  have "known_identity x (pmap s') q = known_identity x (pmap s) q"
    if "get_pk x e h v i s = (k, s')" for v i k s'
    using get_pk_identity [OF assms, of x h v i q] that by simp
  then show "known_identity x (pmap (fst (handle_hole_sent x e h phs a udp s))) q
      = known_identity x (pmap s) q"
    "known_identity x (pmap (fst (handle_local_addr x e h la a udp s))) q
      = known_identity x (pmap s) q"
    by (auto simp: handle_hole_sent_def handle_local_addr_def Let_def split: prod.split)
qed

end
