(* ===== verification/Udp_Server.thy ===== *)
theory Udp_Server
  imports Registration Punch_Hole
begin

text \<open>
  The UDP side of \<open>src/rendezvous_server.rs\<close>: \<open>handle_udp\<close>, the tasks it spawns, and what
  \<open>io_loop\<close> does with the channel. Comparisons of serials are signed.
\<close>

definition config_update_of :: "handle \<Rightarrow> config_update" where
  "config_update_of h =
     \<lparr>cu_serial = in_serial (h_inner h), cu_rendezvous_servers = h_rendezvous_servers h\<rparr>"

definition handle_register_peer ::
  "env \<Rightarrow> handle \<Rightarrow> socket_addr \<Rightarrow> register_peer \<Rightarrow> shared \<Rightarrow> shared \<times> result" where
  "handle_register_peer e h addr rp s =
     (if rp_id rp = [] then (s, Inr ())
      else case update_addr e (rp_id rp) addr s of
        (s1, Inl err) \<Rightarrow> (s1, Inl err)
      | (s1, Inr _) \<Rightarrow>
          (if rp_serial rp <s in_serial (h_inner h)
           then udp_send e (ConfigureUpdate (config_update_of h)) addr s1
           else (s1, Inr ())))"

definition handle_configure_update ::
  "externals \<Rightarrow> socket_addr \<Rightarrow> config_update \<Rightarrow> handle \<Rightarrow> handle" where
  "handle_configure_update x addr cu h =
     (if is_loopback (sa_ip (x_into_v4 x addr)) \<and> in_serial (h_inner h) <s cu_serial cu
      then h\<lparr>h_inner := (h_inner h)\<lparr>in_serial := cu_serial cu\<rparr>,
             h_rendezvous_servers :=
               filter (\<lambda>y. y \<noteq> [] \<and> test_if_valid_server x y) (cu_rendezvous_servers cu)\<rparr>
      else h)"

definition handle_software_update ::
  "env \<Rightarrow> handle \<Rightarrow> socket_addr \<Rightarrow> string \<Rightarrow> shared \<Rightarrow> shared \<times> result" where
  "handle_software_update e h addr url s =
     (if in_version (h_inner h) \<noteq> [] \<and> url \<noteq> in_version (h_inner h)
      then udp_send e (SoftwareUpdate (in_software_url (h_inner h))) addr s
      else (s, Inr ()))"

definition handle_udp ::
  "externals \<Rightarrow> env \<Rightarrow> string \<Rightarrow> bytes \<Rightarrow> socket_addr \<Rightarrow> handle \<Rightarrow> shared \<Rightarrow>
     handle \<times> shared \<times> result" where
  "handle_udp x e key bs addr h s =
     (case x_decode x bs of
        Some (Some (RegisterPeer rp)) \<Rightarrow> (h, handle_register_peer e h addr rp s)
      | Some (Some (RegisterPk rk)) \<Rightarrow> (h, handle_register_pk x e addr rk s)
      | Some (Some (PunchHoleRequest ph)) \<Rightarrow>
          (if pm_is_in_memory (ph_id ph) (pmap s)
           then (h, handle_udp_punch_hole_request x e h addr ph key s)
           else (h, s\<lparr>spawned := spawned s @ [PunchTask h addr ph key]\<rparr>, Inr ()))
      | Some (Some (PunchHoleSent phs)) \<Rightarrow> (h, handle_hole_sent x e h phs addr True s)
      | Some (Some (LocalAddr la)) \<Rightarrow> (h, handle_local_addr x e h la addr True s)
      | Some (Some (ConfigureUpdate cu)) \<Rightarrow> (handle_configure_update x addr cu h, s, Inr ())
      | Some (Some (SoftwareUpdate url)) \<Rightarrow> (h, handle_software_update e h addr url s)
      | _ \<Rightarrow> (h, s, Inr ()))"

text \<open>A spawned task runs with the clone it was given; its error is only logged.\<close>

fun run_task :: "externals \<Rightarrow> env \<Rightarrow> task \<Rightarrow> shared \<Rightarrow> shared" where
  "run_task x e (PunchTask h addr ph key) s = fst (handle_udp_punch_hole_request x e h addr ph key s)"

fun handle_data :: "externals \<Rightarrow> env \<Rightarrow> data \<Rightarrow> handle \<Rightarrow> shared \<Rightarrow> handle \<times> shared" where
  "handle_data x e (Msg m addr) h s = (h, fst (udp_send e m addr s))"
| "handle_data x e (RelayServers0 rs) h s = (parse_relay_servers x rs h, s)"
| "handle_data x e (RelayServers rs) h s = (h\<lparr>h_relay_servers := rs\<rparr>, s)"

subsection \<open>Every datagram keeps the invariant\<close>

lemma update_addr_ok: "shared_ok s \<Longrightarrow> shared_ok (fst (update_addr e pid addr s))"
proof -
  assume ok: "shared_ok s"
  have "ip_blocker (fst (update_addr e pid addr s)) = ip_blocker s"
    by (simp add: update_addr_def Let_def split: option.split)
  with update_addr_inv [of s e pid addr] ok show ?thesis by (auto simp: shared_ok_def)
qed

lemma handle_register_pk_ok: "shared_ok s \<Longrightarrow> shared_ok (fst (handle_register_pk x e addr rk s))"
  using handle_register_pk_inv handle_register_pk_blocker by (auto simp: shared_ok_def)

lemma handle_register_peer_ok: "shared_ok s \<Longrightarrow> shared_ok (fst (handle_register_peer e h addr rp s))"
  using update_addr_ok [of s e "rp_id rp" addr]
  by (auto simp: handle_register_peer_def split: prod.split sum.split)

lemma handle_udp_ok: "shared_ok s \<Longrightarrow> shared_ok (fst (snd (handle_udp x e key bs addr h s)))"
  using handle_register_peer_ok handle_register_pk_ok punch_handlers_ok
  by (simp add: handle_udp_def handle_software_update_def split: option.split rmsg.split)

lemma run_task_ok: "shared_ok s \<Longrightarrow> shared_ok (run_task x e t s)"
  using punch_handlers_ok(2) by (cases t) simp

lemma handle_data_ok: "shared_ok s \<Longrightarrow> shared_ok (snd (handle_data x e d h s))"
  by (cases d) simp_all

subsection \<open>Every datagram keeps the bindings\<close>

lemma handle_register_peer_bound:
  assumes "shared_ok s"
  shows "bound_uuid x (pmap (fst (handle_register_peer e h addr rp s))) q = bound_uuid x (pmap s) q"
proof -
  have "bound_uuid x (pmap s1) q = bound_uuid x (pmap s) q"
    if "update_addr e (rp_id rp) addr s = (s1, r)" for s1 r
    using update_addr_bound [OF assms, of x e "rp_id rp" addr q] that by simp
  then show ?thesis by (auto simp: handle_register_peer_def split: prod.split sum.split)
qed

lemma handle_udp_bound:
  assumes "shared_ok s" and "e_db_read e" and "bound_uuid x (pmap s) q = Some u"
  shows "bound_uuid x (pmap (fst (snd (handle_udp x e key bs addr h s)))) q = Some u"
proof -
  have same: "known_identity x a q = known_identity x b q \<Longrightarrow> bound_uuid x a q = bound_uuid x b q" for a b
    by (simp add: bound_uuid_def)
  show ?thesis
    using assms handle_register_peer_bound [OF assms(1)] register_pk_bound [OF assms]
      brokering_identity(1,3,4) [OF assms(1,2), THEN same]
    by (simp add: handle_udp_def handle_software_update_def split: option.split rmsg.split)
qed

lemma run_task_bound:
  "shared_ok s \<Longrightarrow> e_db_read e \<Longrightarrow> bound_uuid x (pmap (run_task x e t s)) q = bound_uuid x (pmap s) q"
  by (cases t) (simp add: bound_uuid_def brokering_identity)

lemma handle_data_bound [simp]: "pmap (snd (handle_data x e d h s)) = pmap s"
  by (cases d) simp_all

subsection \<open>Configuration\<close>

lemma handle_udp_handle:
  "fst (handle_udp x e key bs addr h s) =
     (case x_decode x bs of
        Some (Some (ConfigureUpdate cu)) \<Rightarrow> handle_configure_update x addr cu h
      | _ \<Rightarrow> h)"
  by (simp add: handle_udp_def split: option.split rmsg.split)

text \<open>
  The configuration changes only by a \<open>ConfigureUpdate\<close> from the machine itself that carries
  a strictly greater serial: then the serial grows in the signed order, every new
  rendezvous server is a valid name, and nothing else of the handle changes. No other
  datagram touches it.
\<close>

theorem config_update_guarded:
  assumes "handle_udp x e key bs addr h s = (h', s', r)" and "h' \<noteq> h"
  shows "is_loopback (sa_ip (x_into_v4 x addr)) \<and>
    in_serial (h_inner h) <s in_serial (h_inner h') \<and>
    (\<forall>y \<in> set (h_rendezvous_servers h'). y \<noteq> [] \<and> test_if_valid_server x y) \<and>
    (h_inner h')\<lparr>in_serial := in_serial (h_inner h)\<rparr> = h_inner h \<and>
    h_relay_servers h' = h_relay_servers h \<and> h_relay_servers0 h' = h_relay_servers0 h \<and>
    s' = s \<and> r = Inr ()"
proof -
  have "fst (handle_udp x e key bs addr h s) = h"
    if "\<nexists>cu. x_decode x bs = Some (Some (ConfigureUpdate cu))"
  proof (cases "x_decode x bs")
    case (Some u)
    show ?thesis
    proof (cases u)
      case (Some m)
      then show ?thesis using that \<open>x_decode x bs = Some u\<close>
        by (cases m) (simp_all add: handle_udp_handle)
    qed (use Some in \<open>simp add: handle_udp_handle\<close>)
  qed (simp add: handle_udp_handle)
  with assms obtain cu where dec: "x_decode x bs = Some (Some (ConfigureUpdate cu))" by fastforce
  then have cu: "x_decode x bs = Some (Some (ConfigureUpdate cu))"
    "h' = handle_configure_update x addr cu h"
    using handle_udp_handle [of x e key bs addr h s] assms(1) by simp_all
  then have "is_loopback (sa_ip (x_into_v4 x addr)) \<and> in_serial (h_inner h) <s cu_serial cu"
    using assms(2) by (metis handle_configure_update_def)
  moreover from cu(1) assms(1) have "s' = s" "r = Inr ()" by (simp_all add: handle_udp_def)
  ultimately show ?thesis using cu(2) by (simp add: handle_configure_update_def)
qed

lemma config_update_guarded_witness:
  "in_serial (h_inner sample_handle) <s 9"
proof -
  let ?x = "sample_ext\<lparr>x_decode := \<lambda>_. Some (Some (ConfigureUpdate \<lparr>cu_serial = 9,
      cu_rendezvous_servers = [''a.example'', '''', ''bad'']\<rparr>))\<rparr>"
  let ?h = "sample_handle\<lparr>h_inner := (h_inner sample_handle)\<lparr>in_serial := 9\<rparr>,
      h_rendezvous_servers := [''a.example'']\<rparr>"
  have upd: "handle_udp ?x (sample_env 0) [] [] (SocketV4 2130706433 80) sample_handle fresh_shared
      = (?h, fresh_shared, Inr ())"
    by (simp add: handle_udp_def handle_configure_update_def test_if_valid_server_def sample_ext_def sample_handle_def
        word_sless_alt)
  have ne: "?h \<noteq> sample_handle" by (simp add: sample_handle_def)
  from config_update_guarded [OF upd ne] show ?thesis by simp
qed

subsection \<open>What one datagram can make the server send\<close>

text \<open>Up to \<open>n\<close> more datagrams, each to the sender or a brokering answer.\<close>

definition answers :: "nat \<Rightarrow> socket_addr \<Rightarrow> shared \<Rightarrow> shared \<Rightarrow> bool" where
  "answers n addr s s' \<longleftrightarrow>
     (\<exists>ms. udp_out s' = udp_out s @ ms \<and> length ms \<le> n \<and>
        (\<forall>(m, a) \<in> set ms. a = addr \<or> (\<exists>r. m = PunchHoleResponse r \<and> phr_failure r = None)))"

lemma answers_none: "udp_out s' = udp_out s \<Longrightarrow> answers n addr s s'"
  by (simp add: answers_def)

lemma answers_send:
  "udp_out s1 = udp_out s \<Longrightarrow> 1 \<le> n \<Longrightarrow> a = addr \<or> (\<exists>r. m = PunchHoleResponse r \<and> phr_failure r = None) \<Longrightarrow>
     answers n addr s (fst (udp_send e m a s1))"
  by (auto simp: answers_def udp_send_def)

lemma answers_trans: "answers n addr s s1 \<Longrightarrow> answers k addr s1 s2 \<Longrightarrow> answers (n + k) addr s s2"
  unfolding answers_def by (elim exE conjE) (rule exI [where x = "ms @ msa" for ms msa], auto)

lemma update_addr_answers: "answers 1 addr s (fst (update_addr e pid addr s))"
  by (auto simp: update_addr_def Let_def intro!: answers_send split: option.split)

lemma register_pk_answers: "answers 2 addr s (fst (handle_register_pk x e addr rk s))"
proof (cases "rk_uuid rk = [] \<or> rk_pk rk = []")
  case True
  then show ?thesis by (auto simp: handle_register_pk_def answers_none)
next
  case False
  then have "rk_uuid rk \<noteq> []" "rk_pk rk \<noteq> []" by auto
  moreover have "answers 2 addr s (fst (send_rk_res e addr r s1))" if "udp_out s1 = udp_out s" for r s1
    using that unfolding send_rk_res_def by (intro answers_send) auto
  ultimately show ?thesis
    by (cases rule: handle_register_pk_cases [where x = x and e = e and addr = addr and s = s])
      simp_all
qed

lemma register_peer_answers: "answers 2 addr s (fst (handle_register_peer e h addr rp s))"
proof (cases "update_addr e (rp_id rp) addr s")
  case (Pair s1 r)
  have first: "answers 1 addr s s1" using update_addr_answers [of addr s e "rp_id rp"] Pair by simp
  have "answers (1 + 1) addr s (fst (udp_send e m addr s1))" for m
    by (rule answers_trans [OF first]) (rule answers_send, simp_all)
  moreover have "answers (1 + 1) addr s s1"
    by (rule answers_trans [OF first]) (simp add: answers_none)
  ultimately show ?thesis using Pair
    by (auto simp: handle_register_peer_def numeral_2_eq_2 answers_none split: sum.split)
qed

lemma brokering_answers:
  "answers 2 addr s (fst (handle_udp_punch_hole_request x e h addr ph key s))"
  "answers 2 addr s (fst (handle_hole_sent x e h phs addr True s))"
  "answers 2 addr s (fst (handle_local_addr x e h la addr True s))"
proof -
  have "udp_out s' = udp_out s" if "handle_punch_hole_request x e h addr ph key False s = (r, s')" for r s'
    using handle_punch_hole_request_frame(5) [of x e h addr ph key False s] that by simp
  then show "answers 2 addr s (fst (handle_udp_punch_hole_request x e h addr ph key s))"
    by (auto simp: handle_udp_punch_hole_request_def intro!: answers_none split: prod.split)
  have "udp_out s' = udp_out s" if "get_pk x e h v i s = (k, s')" for v i k s'
    using get_pk_frame(3) [of x e h v i s] that by simp
  then show "answers 2 addr s (fst (handle_hole_sent x e h phs addr True s))"
    "answers 2 addr s (fst (handle_local_addr x e h la addr True s))"
    by (auto simp: handle_hole_sent_def handle_local_addr_def phr_default_def Let_def
        intro!: answers_send split: prod.split)
qed

text \<open>
  The UDP port is no amplifier: one datagram makes the server send at most two, each
  to its sender, or else the one brokering response a \<open>PunchHoleSent\<close> or \<open>LocalAddr\<close> asks for.
\<close>

theorem udp_replies_bounded:
  "\<exists>ms. udp_out (fst (snd (handle_udp x e key bs addr h s))) = udp_out s @ ms \<and> length ms \<le> 2 \<and>
     (\<forall>(m, a) \<in> set ms. a = addr \<or> (\<exists>r. m = PunchHoleResponse r \<and> phr_failure r = None))"
proof -
  have "answers 2 addr s (fst (snd (handle_udp x e key bs addr h s)))"
    using register_pk_answers register_peer_answers brokering_answers answers_none [of s s 2 addr]
      answers_send [of s s 2 addr addr]
    by (simp add: handle_udp_def handle_software_update_def answers_none
        split: option.split rmsg.split)
  then show ?thesis by (simp add: answers_def)
qed

lemma udp_replies_bounded_witness:
  "\<exists>ms. udp_out (fst (snd (handle_udp sample_ext (sample_env 0) [] [1] (SocketV4 1 2) sample_handle
      fresh_shared))) = ms \<and> length ms \<le> 2"
  using udp_replies_bounded [of sample_ext "sample_env 0" "[]" "[1]" "SocketV4 1 2" sample_handle
      fresh_shared] by auto

end
