(* ===== verification/Slots.thy ===== *)
theory Slots
  imports Main
begin

text \<open>
  The contract of a table of waiting connections: what is put under a key is taken out at
  most once. The rendezvous server's \<open>tcp_punch\<close> and the relay's \<open>PEERS\<close> are such tables. The lemmas count
  deliveries over any interleaving of puts and takes.
\<close>

datatype ('k, 'v) slot_op = PutSlot 'k 'v | TakeSlot 'k

fun run_slots ::
  "('k \<Rightarrow> 'v \<Rightarrow> 'st \<Rightarrow> 'st) \<Rightarrow> ('k \<Rightarrow> 'st \<Rightarrow> 'v option \<times> 'st) \<Rightarrow> ('k, 'v) slot_op list \<Rightarrow> 'st \<Rightarrow>
     'v list \<times> 'st" where
  "run_slots put take_out [] st = ([], st)"
| "run_slots put take_out (PutSlot k v # ops) st = run_slots put take_out ops (put k v st)"
| "run_slots put take_out (TakeSlot k # ops) st =
     (let (r, st1) = take_out k st; (vs, st2) = run_slots put take_out ops st1
      in ((case r of None \<Rightarrow> vs | Some v \<Rightarrow> v # vs), st2))"

definition puts_of :: "'v \<Rightarrow> ('k, 'v) slot_op list \<Rightarrow> nat" where
  "puts_of v ops = length (filter (\<lambda>op. \<exists>k. op = PutSlot k v) ops)"

lemma puts_of_simps [simp]:
  "puts_of v [] = 0" "puts_of v (PutSlot k w # ops) = (if w = v then Suc (puts_of v ops) else puts_of v ops)"
  "puts_of v (TakeSlot k # ops) = puts_of v ops"
  by (auto simp: puts_of_def)

locale one_shot =
  fixes put :: "'k \<Rightarrow> 'v \<Rightarrow> 'st \<Rightarrow> 'st"
    and take_out :: "'k \<Rightarrow> 'st \<Rightarrow> 'v option \<times> 'st"
    and look :: "'st \<Rightarrow> 'k \<Rightarrow> 'v option"
  assumes put_look: "look (put k v st) q = (if q = k then Some v else look st q)"
    and take_value: "fst (take_out k st) = look st k"
    and take_look: "look (snd (take_out k st)) q = (if q = k then None else look st q)"
begin

lemma take_twice: "fst (take_out k (snd (take_out k st))) = None"
  by (simp add: take_value take_look)

lemma take_after_put: "fst (take_out k (put k v st)) = Some v"
  by (simp add: take_value put_look)

lemma never_delivered:
  assumes "\<forall>q. look st q \<noteq> Some v" and "\<forall>op \<in> set ops. \<forall>q w. op = PutSlot q w \<longrightarrow> w \<noteq> v"
  shows "filter (\<lambda>w. w = v) (fst (run_slots put take_out ops st)) = []"
  using assms
proof (induction ops arbitrary: st)
  case (Cons op ops)
  show ?case
  proof (cases op)
    case (PutSlot q w)
    then show ?thesis using Cons by (simp add: put_look)
  next
    case (TakeSlot q)
    have "\<forall>r. look (snd (take_out q st)) r \<noteq> Some v" using Cons.prems(1) by (simp add: take_look)
    moreover have "fst (take_out q st) \<noteq> Some v" using Cons.prems(1) by (simp add: take_value)
    ultimately show ?thesis using Cons TakeSlot by (auto simp: case_prod_beta split: option.split)
  qed
qed simp

text \<open>A value that sits under one key and is never put again comes out at most once.\<close>

lemma deliveries_bounded:
  assumes "\<forall>q. look st q = Some v \<longrightarrow> q = k"
    and "\<forall>op \<in> set ops. \<forall>q w. op = PutSlot q w \<longrightarrow> w \<noteq> v"
  shows "length (filter (\<lambda>w. w = v) (fst (run_slots put take_out ops st))) \<le> 1"
  using assms
proof (induction ops arbitrary: st)
  case (Cons op ops)
  show ?case
  proof (cases op)
    case (PutSlot q w)
    then show ?thesis using Cons by (simp add: put_look)
  next
    case (TakeSlot q)
    have later: "\<forall>op \<in> set ops. \<forall>q w. op = PutSlot q w \<longrightarrow> w \<noteq> v" using Cons.prems(2) by simp
    show ?thesis
    proof (cases "fst (take_out q st) = Some v")
      case True
      then have "\<forall>r. look (snd (take_out q st)) r \<noteq> Some v"
        using Cons.prems(1) by (auto simp: take_value take_look)
      then show ?thesis using True TakeSlot never_delivered [OF _ later] by (simp add: case_prod_beta)
    next
      case False
      have "\<forall>r. look (snd (take_out q st)) r = Some v \<longrightarrow> r = k" using Cons.prems(1) by (simp add: take_look)
      then show ?thesis using Cons.IH [OF _ later] False TakeSlot by (auto simp: case_prod_beta split: option.split)
    qed
  qed
qed simp

end

end
