(* ===== verification/Tcp_Server.thy ===== *)
theory Tcp_Server
  imports Udp_Server Slots
begin

text \<open>
  The TCP and websocket side of \<open>src/rendezvous_server.rs\<close>: \<open>handle_tcp\<close>, the connection
  loop of \<open>handle_listener_inner\<close>, and the first message on the NAT-test port
  (\<open>handle_listener2\<close>). A connection owns the write half of its stream (the \<open>Option<Sink>\<close>)
  until a request moves it into \<open>tcp_punch\<close>, where the answer finds it.
\<close>

definition put_sink :: "socket_addr \<Rightarrow> sink \<Rightarrow> shared \<Rightarrow> shared" where
  "put_sink a k s = s\<lparr>tcp_punch := (tcp_punch s)(a \<mapsto> k)\<rparr>"

definition remove_sink :: "socket_addr \<Rightarrow> shared \<Rightarrow> sink option \<times> shared" where
  "remove_sink a s = (tcp_punch s a, s\<lparr>tcp_punch := (tcp_punch s)(a := None)\<rparr>)"

interpretation punch_table: one_shot put_sink remove_sink tcp_punch
  by unfold_locales (auto simp: put_sink_def remove_sink_def)

text \<open>\<open>if let Some(sink) = sink.take()\<close>\<close>

definition park_sink :: "externals \<Rightarrow> socket_addr \<Rightarrow> sink option \<Rightarrow> shared \<Rightarrow> shared" where
  "park_sink x addr sk s = (case sk of Some k \<Rightarrow> put_sink (x_into_v4 x addr) k s | None \<Rightarrow> s)"

definition handle_request_relay ::
  "externals \<Rightarrow> env \<Rightarrow> socket_addr \<Rightarrow> request_relay \<Rightarrow> shared \<Rightarrow> shared" where
  "handle_request_relay x e addr rf s =
     (case pm_get_in_memory (rf_id rf) (pmap s) of
        Some l \<Rightarrow>
          fst (tx_send e (Msg (RequestRelay (rf\<lparr>rf_socket_addr := x_mangle x (e_now e) addr\<rparr>))
                             (p_socket_addr (peer_at (pmap s) l))) s)
      | None \<Rightarrow> s)"

definition handle_relay_response ::
  "externals \<Rightarrow> env \<Rightarrow> handle \<Rightarrow> relay_response \<Rightarrow> shared \<Rightarrow> shared" where
  "handle_relay_response x e h rr s =
     (let addr_b = x_demangle x (rr_socket_addr rr);
          rr1 = rr\<lparr>rr_socket_addr := []\<rparr>;
          (rr2, s2) =
            (if rr_id rr1 \<noteq> [] then
               (let (pk, s1) = get_pk x e h (rr_version rr1) (rr_id rr1) s
                in (rr1\<lparr>rr_id := [], rr_pk := pk\<rparr>, s1))
             else (rr1, s));
          (rr3, s3) =
            (if rr_relay_server rr2 \<noteq> [] then
               (if is_lan h addr_b then (rr2\<lparr>rr_relay_server := in_local_ip (h_inner h)\<rparr>, s2)
                else if rr_relay_server rr2 = in_local_ip (h_inner h) then
                  (let (r, s') = get_relay_server h s2 in (rr2\<lparr>rr_relay_server := r\<rparr>, s'))
                else (rr2, s2))
             else (rr2, s2))
      in send_to_tcp_sync x (RelayResponse rr3) addr_b s3)"

definition test_nat_reply :: "handle \<Rightarrow> socket_addr \<Rightarrow> i32 \<Rightarrow> rmsg" where
  "test_nat_reply h addr serial =
     TestNatResponse \<lparr>tn_port = sa_port addr,
       tn_cu = (if serial <s in_serial (h_inner h) then Some (config_update_of h) else None)\<rparr>"

text \<open>The returned flag tells the connection loop whether to read on.\<close>

definition handle_tcp ::
  "externals \<Rightarrow> env \<Rightarrow> handle \<Rightarrow> string \<Rightarrow> bytes \<Rightarrow> sink option \<Rightarrow> socket_addr \<Rightarrow> bool \<Rightarrow> shared \<Rightarrow>
     bool \<times> sink option \<times> shared" where
  "handle_tcp x e h key bs sk addr ws s =
     (case x_decode x bs of
        Some (Some (PunchHoleRequest ph)) \<Rightarrow>
          (True, None,
           fst (handle_tcp_punch_hole_request x e h addr ph key ws (park_sink x addr sk s)))
      | Some (Some (RequestRelay rf)) \<Rightarrow>
          (True, None, handle_request_relay x e addr rf (park_sink x addr sk s))
      | Some (Some (RelayResponse rr)) \<Rightarrow> (False, sk, handle_relay_response x e h rr s)
      | Some (Some (PunchHoleSent phs)) \<Rightarrow> (False, sk, fst (handle_hole_sent x e h phs addr False s))
      | Some (Some (LocalAddr la)) \<Rightarrow> (False, sk, fst (handle_local_addr x e h la addr False s))
      | Some (Some (TestNatRequest serial)) \<Rightarrow>
          (False, sk, send_to_sink x sk (test_nat_reply h addr serial) s)
      | Some (Some (RegisterPk _)) \<Rightarrow>
          (False, sk, send_to_sink x sk (RegisterPkResponse NOT_SUPPORT) s)
      | _ \<Rightarrow> (False, sk, s))"

text \<open>
  The loop of \<open>handle_listener_inner\<close> over the frames that arrive before the stream ends or
  stays silent for 30 s, each with the world it meets. On a websocket only binary frames
  are handled and the others skipped; a plain stream has only binary frames.
\<close>

datatype frame = Binary bytes | NonBinary

fun tcp_loop ::
  "externals \<Rightarrow> handle \<Rightarrow> string \<Rightarrow> socket_addr \<Rightarrow> bool \<Rightarrow> (env \<times> frame) list \<Rightarrow> sink option \<Rightarrow> shared \<Rightarrow>
     sink option \<times> shared" where
  "tcp_loop x h key addr ws [] sk s = (sk, s)"
| "tcp_loop x h key addr ws ((e, NonBinary) # fs) sk s = tcp_loop x h key addr ws fs sk s"
| "tcp_loop x h key addr ws ((e, Binary bs) # fs) sk s =
     (case handle_tcp x e h key bs sk addr ws s of
        (go_on, sk', s') \<Rightarrow> if go_on then tcp_loop x h key addr ws fs sk' s' else (sk', s'))"

definition close_connection :: "externals \<Rightarrow> socket_addr \<Rightarrow> sink option \<Rightarrow> shared \<Rightarrow> shared" where
  "close_connection x addr sk s =
     (if sk = None then snd (remove_sink (x_into_v4 x addr) s) else s)"

text \<open>The NAT-test port: an online query or a NAT test, answered on the same stream.\<close>

definition listener2_reply :: "externals \<Rightarrow> instant \<Rightarrow> socket_addr \<Rightarrow> bytes \<Rightarrow> peer_map \<Rightarrow> rmsg option" where
  "listener2_reply x now addr bs pm =
     (case x_decode x bs of
        Some (Some (TestNatRequest _)) \<Rightarrow>
          Some (TestNatResponse \<lparr>tn_port = sa_port addr, tn_cu = None\<rparr>)
      | Some (Some (OnlineRequest peers)) \<Rightarrow> Some (handle_online_request now pm peers)
      | _ \<Rightarrow> None)"

subsection \<open>Every frame keeps the invariant and the bindings\<close>

lemma park_sink_frame [simp]:
  "pmap (park_sink x a k s) = pmap s" "ip_blocker (park_sink x a k s) = ip_blocker s"
  "udp_out (park_sink x a k s) = udp_out s" "sink_out (park_sink x a k s) = sink_out s"
  "shared_ok (park_sink x a k s) = shared_ok s"
  by (simp_all add: park_sink_def put_sink_def split: option.split)

lemma handle_request_relay_frame [simp]:
  "pmap (handle_request_relay x e a rf s) = pmap s" "shared_ok (handle_request_relay x e a rf s) = shared_ok s"
  by (simp_all add: handle_request_relay_def split: option.split)

lemma handle_relay_response_ok:
  assumes "shared_ok s"
  shows "shared_ok (handle_relay_response x e h rr s)"
    and "e_db_read e \<Longrightarrow> known_identity x (pmap (handle_relay_response x e h rr s)) q
      = known_identity x (pmap s) q"
proof -
  have relay: "shared_ok (snd (get_relay_server h s1)) = shared_ok s1" for s1
    by (simp add: shared_ok_def)
  show "shared_ok (handle_relay_response x e h rr s)"
    using assms relay get_pk_ok [OF assms]
    by (simp add: handle_relay_response_def Let_def case_prod_beta)
  show "e_db_read e \<Longrightarrow> known_identity x (pmap (handle_relay_response x e h rr s)) q
      = known_identity x (pmap s) q"
    using get_pk_identity [OF assms, of e]
    by (simp add: handle_relay_response_def Let_def case_prod_beta)
qed

lemma handle_tcp_ok:
  "shared_ok s \<Longrightarrow> shared_ok (snd (snd (handle_tcp x e h key bs sk addr ws s)))"
  using punch_handlers_ok handle_relay_response_ok(1)
  by (simp add: handle_tcp_def split: option.split rmsg.split) (simp add: shared_ok_def)

lemma handle_tcp_bound:
  assumes "shared_ok s" and "e_db_read e"
  shows "known_identity x (pmap (snd (snd (handle_tcp x e h key bs sk addr ws s)))) q
    = known_identity x (pmap s) q"
  using brokering_identity [OF assms] handle_relay_response_ok(2) [OF assms(1) assms(2)]
    brokering_identity(2) [of "park_sink x addr sk s" e] assms
  by (simp add: handle_tcp_def split: option.split rmsg.split)

subsection \<open>What a handler does to the waiting connections\<close>

text \<open>
  At most one parked connection is taken out, and only a connection taken out is written
  to, once.
\<close>

definition delivers :: "shared \<Rightarrow> shared \<Rightarrow> bool" where
  "delivers s s' \<longleftrightarrow>
     tcp_punch s' = tcp_punch s \<and> sink_out s' = sink_out s \<or>
     (\<exists>a. tcp_punch s' = (tcp_punch s)(a := None) \<and>
        (sink_out s' = sink_out s \<or>
         (\<exists>k m. tcp_punch s a = Some k \<and> sink_out s' = sink_out s @ [(k, m)])))"

lemma delivers_same: "tcp_punch s' = tcp_punch s \<Longrightarrow> sink_out s' = sink_out s \<Longrightarrow> delivers s s'"
  by (simp add: delivers_def)

lemma delivers_cong:
  "delivers s s1 \<Longrightarrow> tcp_punch s0 = tcp_punch s \<Longrightarrow> sink_out s0 = sink_out s \<Longrightarrow> delivers s0 s1"
  by (simp add: delivers_def)

lemma send_to_tcp_delivers: "delivers s (send_to_tcp x m a s)" "delivers s (send_to_tcp_sync x m a s)"
proof -
  have "\<exists>b. (tcp_punch s)(a' := None) = (tcp_punch s)(b := None) \<and>
      (sink_out s @ (case tcp_punch s a' of None \<Rightarrow> [] | Some k \<Rightarrow> if x_encode x m = None then []
          else [(k, m)]) = sink_out s \<or>
       (\<exists>k m'. tcp_punch s b = Some k \<and>
          sink_out s @ (case tcp_punch s a' of None \<Rightarrow> [] | Some k \<Rightarrow> if x_encode x m = None then []
            else [(k, m)]) = sink_out s @ [(k, m')]))" for a'
    by (rule exI [of _ a']) (auto split: option.split)
  then show "delivers s (send_to_tcp x m a s)" "delivers s (send_to_tcp_sync x m a s)"
    unfolding delivers_def send_to_tcp_frame(5,6) send_to_tcp_sinks by blast+
qed

lemma sink_frames [simp]:
  "sink_out (fst (udp_send e m a s)) = sink_out s" "sink_out (fst (tx_send e d s)) = sink_out s"
  "sink_out (snd (get_relay_server h s)) = sink_out s"
  "sink_out (snd (punch_message x e h a b n ws s)) = sink_out s"
  by (simp_all add: udp_send_def tx_send_def get_relay_server_def punch_message_def Let_def
      case_prod_beta)

lemma sink_frames_request [simp]:
  "sink_out (snd (handle_punch_hole_request x e h a ph key ws s)) = sink_out s"
  "sink_out (snd (get_pk x e h v i s)) = sink_out s"
  by (auto simp: handle_punch_hole_request_def get_pk_def Let_def case_prod_beta
      split: option.split prod.split)

lemma udp_request_delivers: "delivers s (fst (handle_udp_punch_hole_request x e h a ph key s))"
proof -
  obtain m t s1 where r: "handle_punch_hole_request x e h a ph key False s = ((m, t), s1)"
    by (metis prod.exhaust)
  then have "tcp_punch s1 = tcp_punch s" "sink_out s1 = sink_out s"
    using handle_punch_hole_request_frame(3) [of x e h a ph key False s]
      sink_frames_request(1) [of x e h a ph key False s] by simp_all
  with r show ?thesis by (simp add: handle_udp_punch_hole_request_def delivers_same)
qed

lemma tcp_request_delivers: "delivers s (fst (handle_tcp_punch_hole_request x e h a ph key ws s))"
proof -
  obtain m t s1 where r: "handle_punch_hole_request x e h a ph key ws s = ((m, t), s1)"
    by (metis prod.exhaust)
  then have "tcp_punch s1 = tcp_punch s" "sink_out s1 = sink_out s"
    using handle_punch_hole_request_frame(3) [of x e h a ph key ws s]
      sink_frames_request(1) [of x e h a ph key ws s] by simp_all
  with r show ?thesis
    by (auto simp: handle_tcp_punch_hole_request_def delivers_same split: option.split
        intro: delivers_cong [OF send_to_tcp_delivers(2)])
qed

lemma answer_delivers:
  "delivers s (fst (handle_hole_sent x e h phs a udp s))"
  "delivers s (fst (handle_local_addr x e h la a udp s))"
proof -
  have same: "tcp_punch s1 = tcp_punch s \<and> sink_out s1 = sink_out s"
    if "get_pk x e h v i s = (k, s1)" for v i k s1
    using get_pk_frame(1) [of x e h v i s] sink_frames_request(2) [of x e h v i s] that by simp
  then have tcp: "delivers s (send_to_tcp x m b s1)" and udp: "delivers s (fst (udp_send e m b s1))"
    if "get_pk x e h v i s = (k, s1)" for v i k s1 m b
    using delivers_cong [OF send_to_tcp_delivers(1)] delivers_same that by simp_all
  show "delivers s (fst (handle_hole_sent x e h phs a udp s))"
    "delivers s (fst (handle_local_addr x e h la a udp s))"
    by (auto simp: handle_hole_sent_def handle_local_addr_def Let_def dest: tcp udp split: prod.split)
qed

lemma relay_delivers:
  "delivers s (handle_request_relay x e a rf s)" "delivers s (handle_relay_response x e h rr s)"
  by (auto simp: handle_request_relay_def handle_relay_response_def Let_def case_prod_beta
      intro!: delivers_same delivers_cong [OF send_to_tcp_delivers(2)] split: option.split)

text \<open>A registration or heartbeat never touches a connection.\<close>

lemma registration_delivers:
  "delivers s (fst (handle_register_pk x e a rk s))" "delivers s (fst (handle_register_peer e h a rp s))"
proof -
  have rk: "tcp_punch (fst (handle_register_pk x e a rk s)) = tcp_punch s \<and>
      sink_out (fst (handle_register_pk x e a rk s)) = sink_out s"
  proof (cases "rk_uuid rk = [] \<or> rk_pk rk = []")
    case True
    then show ?thesis by (auto simp: handle_register_pk_def)
  next
    case False
    then have "rk_uuid rk \<noteq> []" "rk_pk rk \<noteq> []" by auto
    then show ?thesis
      by (cases rule: handle_register_pk_cases [where x = x and e = e and addr = a and s = s])
        (simp_all add: send_rk_res_def)
  qed
  then show "delivers s (fst (handle_register_pk x e a rk s))" by (simp add: delivers_same)
  have "tcp_punch (fst (update_addr e i a s)) = tcp_punch s" "sink_out (fst (update_addr e i a s)) = sink_out s"
    for i by (simp_all add: update_addr_def Let_def split: option.split)
  then have "tcp_punch s1 = tcp_punch s" "sink_out s1 = sink_out s" if "update_addr e i a s = (s1, r)" for i s1 r
    using that by (metis fst_conv)+
  then show "delivers s (fst (handle_register_peer e h a rp s))"
    by (auto simp: handle_register_peer_def intro!: delivers_same split: prod.split sum.split)
qed

lemma handle_udp_delivers: "delivers s (fst (snd (handle_udp x e key bs addr h s)))"
  using registration_delivers udp_request_delivers answer_delivers
  by (simp add: handle_udp_def handle_software_update_def delivers_same split: option.split rmsg.split)

text \<open>A frame parks its own connection and then delivers, or delivers, or answers on its own sink.\<close>

lemma send_to_sink_cases:
  "send_to_sink x sk m s = s \<or> (\<exists>k. sk = Some k \<and> send_to_sink x sk m s = s\<lparr>sink_out := sink_out s @ [(k, m)]\<rparr>)"
  by (auto simp: send_to_sink_def split: option.split)

lemma handle_tcp_sinks:
  obtains (parks) s1 where "handle_tcp x e h key bs sk addr ws s = (True, None, s1)"
      "delivers (park_sink x addr sk s) s1"
  | (serves) s1 where "handle_tcp x e h key bs sk addr ws s = (False, sk, s1)" "delivers s s1"
  | (replies) s1 k m where "handle_tcp x e h key bs sk addr ws s = (False, sk, s1)" "sk = Some k"
      "tcp_punch s1 = tcp_punch s" "sink_out s1 = sink_out s @ [(k, m)]"
proof -
  have direct: thesis if "handle_tcp x e h key bs sk addr ws s = (False, sk, send_to_sink x sk m s)" for m
    using send_to_sink_cases [of x sk m s]
  proof (elim disjE exE conjE)
    assume "send_to_sink x sk m s = s"
    with that serves [of s] show thesis by (simp add: delivers_same)
  next
    fix k assume "sk = Some k" "send_to_sink x sk m s = s\<lparr>sink_out := sink_out s @ [(k, m)]\<rparr>"
    with that replies [of _ k m] show thesis by simp
  qed
  have idle: thesis if "handle_tcp x e h key bs sk addr ws s = (False, sk, s)"
    using serves [OF that] by (simp add: delivers_same)
  show thesis
  proof (cases "\<exists>m. x_decode x bs = Some (Some m)")
    case True
    then obtain m where "x_decode x bs = Some (Some m)" by blast
    note step = handle_tcp_def this option.case
    show ?thesis
    proof (cases m)
      case (PunchHoleRequest ph)
      then show ?thesis by (intro parks [OF _ tcp_request_delivers]) (simp add: step)
    next
      case (RequestRelay rf)
      then show ?thesis by (intro parks [OF _ relay_delivers(1)]) (simp add: step)
    next
      case (RelayResponse rr)
      then show ?thesis by (intro serves [OF _ relay_delivers(2)]) (simp add: step)
    next
      case (PunchHoleSent phs)
      then show ?thesis by (intro serves [OF _ answer_delivers(1)]) (simp add: step)
    next
      case (LocalAddr la)
      then show ?thesis by (intro serves [OF _ answer_delivers(2)]) (simp add: step)
    next
      case (TestNatRequest n)
      then show ?thesis by (intro direct) (simp add: step)
    next
      case (RegisterPk rk)
      then show ?thesis by (intro direct) (simp add: step)
    qed (intro idle, simp add: step)+
  qed (intro idle, auto simp: handle_tcp_def split: option.split)
qed

end
