(* ===== verification/Systems.thy ===== *)
theory Systems
  imports Main
begin

text \<open>
  What the step relations of the development have in common: a system that keeps an invariant, and one that
  refines another under its invariant, where a step may also leave the abstract state alone.
\<close>

locale invariant_system =
  fixes step :: "'c \<Rightarrow> 'c \<Rightarrow> bool" and inv :: "'c \<Rightarrow> bool"
  assumes step_inv: "inv c \<Longrightarrow> step c c' \<Longrightarrow> inv c'"
begin

lemma run_inv: "step\<^sup>*\<^sup>* c c' \<Longrightarrow> inv c \<Longrightarrow> inv c'"
  by (induction rule: rtranclp_induct) (auto intro: step_inv)

text \<open>An invariant is as good as anything it implies at the end of a run.\<close>

lemma run_implies: "step\<^sup>*\<^sup>* c c' \<Longrightarrow> inv c \<Longrightarrow> (\<And>d. inv d \<Longrightarrow> Q d) \<Longrightarrow> Q c'"
  using run_inv by blast

end

locale refinement = invariant_system step inv for step :: "'c \<Rightarrow> 'c \<Rightarrow> bool" and inv :: "'c \<Rightarrow> bool" +
  fixes astep :: "'a \<Rightarrow> 'a \<Rightarrow> bool" and abs :: "'c \<Rightarrow> 'a"
  assumes step_sim: "inv c \<Longrightarrow> step c c' \<Longrightarrow> abs c' = abs c \<or> astep (abs c) (abs c')"
begin

lemma run_sim: "step\<^sup>*\<^sup>* c c' \<Longrightarrow> inv c \<Longrightarrow> astep\<^sup>*\<^sup>* (abs c) (abs c')"
proof (induction rule: rtranclp_induct)
  case (step d d')
  then have "inv d" using run_inv by blast
  with step step_sim [of d d'] show ?case by (auto intro: rtranclp.rtrancl_into_rtrancl)
qed simp

text \<open>What every abstract step keeps holds along every run of the refined system.\<close>

lemma transfer:
  assumes "step\<^sup>*\<^sup>* c c'" and "inv c" and "\<And>a a'. astep a a' \<Longrightarrow> I a \<Longrightarrow> I a'" and "I (abs c)"
  shows "I (abs c')"
  using run_sim [OF assms(1,2)] by (induction rule: rtranclp_induct) (auto intro: assms(3,4))

end

text \<open>The same with a relation between the states, where the abstract one remembers more than the concrete one does.\<close>

locale simulation =
  fixes step :: "'c \<Rightarrow> 'c \<Rightarrow> bool" and astep :: "'a \<Rightarrow> 'a \<Rightarrow> bool" and rel :: "'c \<Rightarrow> 'a \<Rightarrow> bool"
  assumes step_rel: "rel c a \<Longrightarrow> step c c' \<Longrightarrow> \<exists>a'. (a' = a \<or> astep a a') \<and> rel c' a'"
begin

lemma run_rel: "step\<^sup>*\<^sup>* c c' \<Longrightarrow> rel c a \<Longrightarrow> \<exists>a'. astep\<^sup>*\<^sup>* a a' \<and> rel c' a'"
proof (induction rule: rtranclp_induct)
  case (step d d')
  then obtain b where b: "astep\<^sup>*\<^sup>* a b" "rel d b" by blast
  from step_rel [OF b(2) step(2)] b(1) show ?case by (auto intro: rtranclp.rtrancl_into_rtrancl)
qed blast

end

end
