(* ===== verification/Sinks.thy ===== *)
theory Sinks
  imports Tcp_Server Systems
begin

text \<open>
  Who may write to a connection of \<open>src/rendezvous_server.rs\<close>, and when: the write halves (\<open>Sink\<close>) that connections hold, park in
  \<open>tcp_punch\<close> and lose to answers, as a machine whose steps are the single accesses to the table and the single writes of
  \<open>handle_tcp\<close>, \<open>send_to_tcp\<close>, \<open>send_to_tcp_sync\<close>, \<open>send_to_sink\<close> and \<open>handle_listener_inner\<close>. All tasks interleave between
  them. The handlers of \<open>Tcp_Server\<close>, which run each as one step, are schedules of this machine.
\<close>

record conn =
  c_handle :: handle
  c_addr :: socket_addr
  c_ws :: bool
  c_sink :: "sink option"

definition sink_of :: "bool \<Rightarrow> nat \<Rightarrow> sink" where
  "sink_of ws n = (if ws then WsSink n else TcpStreamSink n)"

subsection \<open>Ownership\<close>

definition held :: "(nat \<rightharpoonup> conn) \<Rightarrow> sink set" where
  "held cs = {k. \<exists>n c. cs n = Some c \<and> c_sink c = Some k}"

definition written :: "sink \<Rightarrow> (sink \<times> rmsg) list \<Rightarrow> nat" where
  "written k out = length (filter (\<lambda>w. fst w = k) out)"

fun sink_number :: "sink \<Rightarrow> nat" where
  "sink_number (TcpStreamSink n) = n"
| "sink_number (WsSink n) = n"

lemma sink_number_of [simp]: "sink_number (sink_of ws n) = n"
  by (simp add: sink_of_def)

lemma written_snoc [simp]: "written k (out @ [(k', m)]) = (if k' = k then Suc (written k out) else written k out)"
  by (simp add: written_def)

text \<open>
  Ownership of the write halves: a sink is held by its own connection or parked under one
  address, never both; a sink that can still be written to has not been written to; none has been written to twice;
  and no sink has the number of a connection yet to come.
\<close>

definition sinks_ok :: "sink set \<Rightarrow> (socket_addr \<rightharpoonup> sink) \<Rightarrow> (sink \<times> rmsg) list \<Rightarrow> nat \<Rightarrow> bool" where
  "sinks_ok H T out n \<longleftrightarrow>
     (\<forall>a b k. T a = Some k \<longrightarrow> T b = Some k \<longrightarrow> a = b) \<and>
     (\<forall>a k. T a = Some k \<longrightarrow> k \<notin> H \<and> written k out = 0 \<and> sink_number k < n) \<and>
     (\<forall>k \<in> H. written k out = 0 \<and> sink_number k < n) \<and>
     (\<forall>k. written k out \<le> 1) \<and> (\<forall>k. n \<le> sink_number k \<longrightarrow> written k out = 0)"

lemma sinks_ok_shrink: "sinks_ok H T out n \<Longrightarrow> H' \<subseteq> H \<Longrightarrow> sinks_ok H' T out n"
  unfolding sinks_ok_def by blast

lemma sinks_ok_drop: "sinks_ok H T out n \<Longrightarrow> sinks_ok H (T(a := None)) out n"
  unfolding sinks_ok_def by auto

lemma sinks_ok_deliver:
  assumes "sinks_ok H T out n" and "T a = Some k"
  shows "sinks_ok H (T(a := None)) (out @ [(k, m)]) n"
proof -
  have "T b = Some k \<Longrightarrow> b = a" for b using assms unfolding sinks_ok_def by blast
  moreover have "written k out = 0" "k \<notin> H" "sink_number k < n"
    using assms unfolding sinks_ok_def by blast+
  ultimately show ?thesis using assms(1) unfolding sinks_ok_def by (auto split: if_splits)
qed

lemma sinks_ok_reply:
  assumes "sinks_ok H T out n" and "k \<in> H"
  shows "sinks_ok (H - {k}) T (out @ [(k, m)]) n"
  using assms unfolding sinks_ok_def by auto

lemma sinks_ok_park:
  assumes "sinks_ok H T out n" and "k \<in> H"
  shows "sinks_ok (H - {k}) (T(a \<mapsto> k)) out n"
  using assms unfolding sinks_ok_def by auto

lemma sinks_ok_accept:
  assumes "sinks_ok H T out n" and "sink_number k = n"
  shows "sinks_ok (insert k H) T out (Suc n)"
  using assms unfolding sinks_ok_def by (auto simp: less_Suc_eq)

definition conns_ok :: "(nat \<rightharpoonup> conn) \<Rightarrow> nat \<Rightarrow> bool" where
  "conns_ok cs next_n \<longleftrightarrow>
     (\<forall>n c. cs n = Some c \<longrightarrow> n < next_n \<and> (\<forall>k. c_sink c = Some k \<longrightarrow> sink_number k = n))"

lemma heldI: "cs n = Some c \<Longrightarrow> c_sink c = Some k \<Longrightarrow> k \<in> held cs"
  by (auto simp: held_def)

lemma held_fun_upd:
  "k \<in> held (cs(n := d)) \<longleftrightarrow>
     (\<exists>c. d = Some c \<and> c_sink c = Some k) \<or> (\<exists>j c. j \<noteq> n \<and> cs j = Some c \<and> c_sink c = Some k)"
  unfolding held_def by (simp, metis)

lemma held_close: "held (cs(n := None)) \<subseteq> held cs"
  by (auto simp: held_fun_upd intro: heldI)

lemma held_release:
  assumes "conns_ok cs m" and "cs n = Some c" and "c_sink c = Some k"
  shows "held (cs(n := None)) \<subseteq> held cs - {k}" and "held (cs(n \<mapsto> c\<lparr>c_sink := None\<rparr>)) \<subseteq> held cs - {k}"
    and "k \<in> held cs"
proof -
  have only: "j = n" if "cs j = Some c'" "c_sink c' = Some k" for j c'
    using assms that unfolding conns_ok_def by metis
  show "held (cs(n := None)) \<subseteq> held cs - {k}"
    by (auto simp: held_fun_upd intro: heldI dest: only)
  show "held (cs(n \<mapsto> c\<lparr>c_sink := None\<rparr>)) \<subseteq> held cs - {k}"
    by (auto simp: held_fun_upd intro: heldI dest: only)
  show "k \<in> held cs" using assms(2,3) by (rule heldI)
qed

lemma held_accept:
  assumes "cs n = None"
  shows "held (cs(n \<mapsto> \<lparr>c_handle = h, c_addr = a, c_ws = ws, c_sink = Some k\<rparr>)) = insert k (held cs)"
proof -
  have "j \<noteq> n" if "cs j = Some c" for j c using assms that by auto
  then have "k' \<in> held cs \<longleftrightarrow> (\<exists>j c. j \<noteq> n \<and> cs j = Some c \<and> c_sink c = Some k')" for k'
    unfolding held_def by (simp, metis)
  then have "k' \<in> held (cs(n \<mapsto> \<lparr>c_handle = h, c_addr = a, c_ws = ws, c_sink = Some k\<rparr>)) \<longleftrightarrow>
      k' = k \<or> k' \<in> held cs" for k'
    unfolding held_fun_upd by auto
  then show ?thesis by blast
qed

lemma conns_ok_update:
  "conns_ok cs m \<Longrightarrow> conns_ok (cs(n := None)) m"
  "conns_ok cs m \<Longrightarrow> cs n = Some c \<Longrightarrow> conns_ok (cs(n \<mapsto> c\<lparr>c_sink := None\<rparr>)) m"
  by (auto simp: conns_ok_def split: if_splits)

subsection \<open>The machine\<close>

text \<open>\<open>fi_hands\<close>: the write halves that a task has taken out of the table, each with the message it is about to write.\<close>

record fine =
  fi_table :: "socket_addr \<rightharpoonup> sink"
  fi_conns :: "nat \<rightharpoonup> conn"
  fi_hands :: "(sink \<times> rmsg) list"
  fi_out :: "(sink \<times> rmsg) list"
  fi_next :: nat

inductive fine_step :: "externals \<Rightarrow> fine \<Rightarrow> fine \<Rightarrow> bool" for x :: externals where
  Accept: "n = fi_next s \<Longrightarrow> c = \<lparr>c_handle = h, c_addr = addr, c_ws = ws, c_sink = Some (sink_of ws n)\<rparr> \<Longrightarrow>
    fine_step x s (s\<lparr>fi_conns := (fi_conns s)(n \<mapsto> c), fi_next := Suc n\<rparr>)"
| Park: "fi_conns s n = Some c \<Longrightarrow> c_sink c = Some k \<Longrightarrow>
    fine_step x s (s\<lparr>fi_table := (fi_table s)(x_into_v4 x (c_addr c) \<mapsto> k),
      fi_conns := (fi_conns s)(n \<mapsto> c\<lparr>c_sink := None\<rparr>)\<rparr>)"
| Take: "fi_table s a = Some k \<Longrightarrow>
    fine_step x s (s\<lparr>fi_table := (fi_table s)(a := None), fi_hands := fi_hands s @ [(k, m)]\<rparr>)"
| Write: "fi_hands s = hs @ (k, m) # gs \<Longrightarrow> fine_step x s (s\<lparr>fi_hands := hs @ gs, fi_out := fi_out s @ [(k, m)]\<rparr>)"
| Write_Failed: "fi_hands s = hs @ (k, m) # gs \<Longrightarrow> fine_step x s (s\<lparr>fi_hands := hs @ gs\<rparr>)"
| Reply: "fi_conns s n = Some c \<Longrightarrow> c_sink c = Some k \<Longrightarrow>
    fine_step x s (s\<lparr>fi_conns := (fi_conns s)(n := None), fi_out := fi_out s @ [(k, m)]\<rparr>)"
| Close: "fi_conns s n = Some c \<Longrightarrow>
    fine_step x s (s\<lparr>fi_conns := (fi_conns s)(n := None),
      fi_table := (if c_sink c = None then (fi_table s)(x_into_v4 x (c_addr c) := None) else fi_table s)\<rparr>)"

definition fine_init :: fine where
  "fine_init = \<lparr>fi_table = (\<lambda>_. None), fi_conns = (\<lambda>_. None), fi_hands = [], fi_out = [], fi_next = 0\<rparr>"

text \<open>What is in a task's hands counts as written: nobody else can write there any more.\<close>

definition fine_ok :: "fine \<Rightarrow> bool" where
  "fine_ok s \<longleftrightarrow> conns_ok (fi_conns s) (fi_next s) \<and>
     sinks_ok (held (fi_conns s)) (fi_table s) (fi_out s @ fi_hands s) (fi_next s)"

lemma written_append [simp]: "written k (xs @ ys) = written k xs + written k ys"
  by (simp add: written_def)

lemma written_Cons [simp]: "written k ((k', m) # xs) = (if k' = k then Suc (written k xs) else written k xs)"
  by (simp add: written_def)

lemma sinks_ok_fewer:
  assumes "sinks_ok H T out n" and "\<And>k. written k out' \<le> written k out"
  shows "sinks_ok H T out' n"
proof -
  have zero: "written k out' = 0" if "written k out = 0" for k using assms(2) [of k] that by simp
  have one: "written k out' \<le> 1" if "written k out \<le> 1" for k using assms(2) [of k] that by simp
  show ?thesis using assms(1) zero one unfolding sinks_ok_def by blast
qed

lemma fine_step_ok: "fine_step x s s' \<Longrightarrow> fine_ok s \<Longrightarrow> fine_ok s'"
proof (induction rule: fine_step.induct)
  case (Accept n s c h addr ws)
  then have "\<not> fi_next s < fi_next s" and "conns_ok (fi_conns s) (fi_next s)" by (simp_all add: fine_ok_def)
  then have new: "fi_conns s n = None" using Accept(1) unfolding conns_ok_def by (metis not_Some_eq)
  have "sinks_ok (insert (sink_of ws n) (held (fi_conns s))) (fi_table s) (fi_out s @ fi_hands s) (Suc n)"
    using Accept by (intro sinks_ok_accept) (simp_all add: fine_ok_def)
  with Accept held_accept [where cs = "fi_conns s", OF new] show ?case
    by (auto simp: fine_ok_def conns_ok_def less_Suc_eq)
next
  case (Park s n c k)
  then have inv: "conns_ok (fi_conns s) (fi_next s)"
    "sinks_ok (held (fi_conns s)) (fi_table s) (fi_out s @ fi_hands s) (fi_next s)" by (simp_all add: fine_ok_def)
  note rel = held_release [OF inv(1) Park(1,2)]
  from sinks_ok_shrink [OF sinks_ok_park [OF inv(2) rel(3)] rel(2)] conns_ok_update(2) [OF inv(1) Park(1)]
  show ?case by (simp add: fine_ok_def)
next
  case (Take s a k m)
  then show ?case using sinks_ok_deliver [where T = "fi_table s" and a = a and k = k and m = m]
    by (auto simp: fine_ok_def simp flip: append_assoc)
next
  case (Write s hs k m gs)
  then show ?case by (auto simp: fine_ok_def intro: sinks_ok_fewer)
next
  case (Write_Failed s hs k m gs)
  then show ?case by (auto simp: fine_ok_def intro: sinks_ok_fewer)
next
  case (Reply s n c k m)
  then have inv: "conns_ok (fi_conns s) (fi_next s)"
    "sinks_ok (held (fi_conns s)) (fi_table s) (fi_out s @ fi_hands s) (fi_next s)" by (simp_all add: fine_ok_def)
  note rel = held_release [OF inv(1) Reply(1,2)]
  from sinks_ok_shrink [OF sinks_ok_reply [OF inv(2) rel(3)] rel(1)]
  have "sinks_ok (held ((fi_conns s)(n := None))) (fi_table s) ((fi_out s @ [(k, m)]) @ fi_hands s) (fi_next s)"
    by (rule sinks_ok_fewer) simp
  with conns_ok_update(1) [OF inv(1)] show ?case by (simp add: fine_ok_def)
next
  case (Close s n c)
  then show ?case
    using conns_ok_update(1) sinks_ok_shrink [OF _ held_close] sinks_ok_drop by (auto simp: fine_ok_def)
qed

lemma fine_init_ok: "fine_ok fine_init"
  by (simp add: fine_ok_def fine_init_def conns_ok_def sinks_ok_def held_def written_def)

interpretation sinks_system: invariant_system "fine_step x" fine_ok
  by unfold_locales (rule fine_step_ok)

text \<open>
  C7. One answer per connection, in every interleaving: however the tasks' accesses to the table of waiting connections and their writes
  are ordered, no connection is written to twice, one that waits has been written nothing, is in no task's hands, and waits
  under one address only.
\<close>

theorem one_answer_interleaved:
  assumes "(fine_step x)\<^sup>*\<^sup>* fine_init s"
  shows "written k (fi_out s) + written k (fi_hands s) \<le> 1 \<and>
    (fi_table s a = Some k \<longrightarrow> written k (fi_out s) = 0 \<and> written k (fi_hands s) = 0 \<and>
      (\<forall>b. fi_table s b = Some k \<longrightarrow> b = a))"
  using sinks_system.run_inv [OF assms fine_init_ok] unfolding fine_ok_def sinks_ok_def written_append by blast

text \<open>A client waits; two answers race for it, and the second finds nothing.\<close>

lemma one_answer_interleaved_witness:
  "\<exists>s :: fine. fi_hands s = [(TcpStreamSink 0, OtherMsg [])] \<and> fi_table s = (\<lambda>_. None) \<and>
     written (TcpStreamSink 0) (fi_out s) + written (TcpStreamSink 0) (fi_hands s) \<le> 1"
proof -
  let ?x = "undefined :: externals" and ?k = "TcpStreamSink 0"
  define c where "c = \<lparr>c_handle = undefined, c_addr = SocketV4 1 2, c_ws = False, c_sink = Some (sink_of False 0)\<rparr>"
  define s1 where "s1 = fine_init\<lparr>fi_conns := (fi_conns fine_init)(0 \<mapsto> c), fi_next := Suc 0\<rparr>"
  define s2 where "s2 = s1\<lparr>fi_table := (fi_table s1)(x_into_v4 ?x (c_addr c) \<mapsto> ?k),
    fi_conns := (fi_conns s1)(0 \<mapsto> c\<lparr>c_sink := None\<rparr>)\<rparr>"
  define s3 where "s3 = s2\<lparr>fi_table := (fi_table s2)(x_into_v4 ?x (c_addr c) := None),
    fi_hands := fi_hands s2 @ [(?k, OtherMsg [])]\<rparr>"
  have "fine_step ?x fine_init s1" unfolding s1_def by (rule fine_step.Accept [OF _ c_def]) (simp add: fine_init_def)
  moreover have "fine_step ?x s1 s2" unfolding s2_def by (rule fine_step.Park) (simp_all add: s1_def c_def sink_of_def)
  moreover have "fine_step ?x s2 s3" unfolding s3_def by (rule fine_step.Take) (simp add: s2_def)
  ultimately have "(fine_step ?x)\<^sup>*\<^sup>* fine_init s3" by (meson converse_rtranclp_into_rtranclp r_into_rtranclp)
  from one_answer_interleaved [OF this, of ?k] show ?thesis
    by (intro exI [of _ s3]) (simp add: s3_def s2_def s1_def fine_init_def)
qed

subsection \<open>The handlers are schedules of the machine\<close>

definition fine_of :: "shared \<Rightarrow> (nat \<rightharpoonup> conn) \<Rightarrow> nat \<Rightarrow> fine" where
  "fine_of s cs n = \<lparr>fi_table = tcp_punch s, fi_conns = cs, fi_hands = [], fi_out = sink_out s, fi_next = n\<rparr>"

lemma fine_of_cong: "tcp_punch s = tcp_punch s' \<Longrightarrow> sink_out s = sink_out s' \<Longrightarrow> fine_of s cs n = fine_of s' cs n"
  by (simp add: fine_of_def)

lemma delivers_fine:
  assumes "delivers s s'"
  shows "(fine_step x)\<^sup>*\<^sup>* (fine_of s cs n) (fine_of s' cs n)"
proof -
  consider (same) "tcp_punch s' = tcp_punch s" "sink_out s' = sink_out s"
    | (dropped) a where "tcp_punch s' = (tcp_punch s)(a := None)" "sink_out s' = sink_out s"
    | (answered) a k m where "tcp_punch s' = (tcp_punch s)(a := None)" "tcp_punch s a = Some k"
        "sink_out s' = sink_out s @ [(k, m)]"
    using assms unfolding delivers_def by blast
  then show ?thesis
  proof cases
    case same
    then show ?thesis by (simp add: fine_of_cong [of s s'])
  next
    case dropped
    show ?thesis
    proof (cases "tcp_punch s a")
      case None
      with dropped show ?thesis by (simp add: fine_of_cong [of s s'] fun_upd_idem)
    next
      case (Some k)
      have "fine_step x (fine_of s cs n) ((fine_of s' cs n)\<lparr>fi_hands := [(k, undefined)]\<rparr>)"
        using fine_step.Take [of "fine_of s cs n" a k x undefined] Some dropped by (simp add: fine_of_def)
      moreover have "fine_step x ((fine_of s' cs n)\<lparr>fi_hands := [(k, undefined)]\<rparr>) (fine_of s' cs n)"
        using fine_step.Write_Failed [of "(fine_of s' cs n)\<lparr>fi_hands := [(k, undefined)]\<rparr>" "[]" k undefined "[]" x]
        by (simp add: fine_of_def)
      ultimately show ?thesis by (meson converse_rtranclp_into_rtranclp r_into_rtranclp)
    qed
  next
    case answered
    let ?mid = "(fine_of s' cs n)\<lparr>fi_hands := [(k, m)], fi_out := sink_out s\<rparr>"
    have "fine_step x (fine_of s cs n) ?mid"
      using fine_step.Take [of "fine_of s cs n" a k x m] answered by (simp add: fine_of_def)
    moreover have "fine_step x ?mid (fine_of s' cs n)"
      using fine_step.Write [of ?mid "[]" k m "[]" x] answered by (simp add: fine_of_def)
    ultimately show ?thesis by (meson converse_rtranclp_into_rtranclp r_into_rtranclp)
  qed
qed

lemma close_fine:
  assumes "cs n = Some c"
  shows "fine_step x (fine_of s cs m) (fine_of (close_connection x (c_addr c) (c_sink c) s) (cs(n := None)) m)"
  using fine_step.Close [of "fine_of s cs m" n c x] assms
  by (cases "c_sink c") (simp_all add: fine_of_def close_connection_def remove_sink_def)

text \<open>A frame that leaves the connection open, and one that ends it.\<close>

lemma frame_fine:
  assumes "cs n = Some c" and "handle_tcp x e h key bs (c_sink c) (c_addr c) ws s = (True, sk, s')"
  shows "(fine_step x)\<^sup>*\<^sup>* (fine_of s cs m) (fine_of s' (cs(n \<mapsto> c\<lparr>c_sink := sk\<rparr>)) m)"
proof -
  let ?cs = "cs(n \<mapsto> c\<lparr>c_sink := None\<rparr>)" and ?s = "park_sink x (c_addr c) (c_sink c) s"
  have served: "sk = None" "delivers ?s s'"
    by (rule handle_tcp_sinks [of x e h key bs "c_sink c" "c_addr c" ws s]; use assms(2) in auto)+
  have "(fine_step x)\<^sup>*\<^sup>* (fine_of s cs m) (fine_of ?s ?cs m)"
  proof (cases "c_sink c")
    case None
    then have "c\<lparr>c_sink := None\<rparr> = c" by simp
    with None assms(1) show ?thesis by (simp add: park_sink_def fun_upd_idem)
  next
    case (Some k)
    then show ?thesis
      using fine_step.Park [of "fine_of s cs m" n c k x] assms(1)
      by (simp add: fine_of_def park_sink_def put_sink_def r_into_rtranclp)
  qed
  also have "(fine_step x)\<^sup>*\<^sup>* (fine_of ?s ?cs m) (fine_of s' ?cs m)" by (rule delivers_fine [OF served(2)])
  finally show ?thesis by (simp add: served(1))
qed

lemma last_frame_fine:
  assumes "cs n = Some c" and "handle_tcp x e h key bs (c_sink c) (c_addr c) ws s = (False, sk, s')"
  shows "(fine_step x)\<^sup>*\<^sup>* (fine_of s cs m) (fine_of (close_connection x (c_addr c) sk s') (cs(n := None)) m)"
proof (rule handle_tcp_sinks [of x e h key bs "c_sink c" "c_addr c" ws s])
  fix s1 assume r: "handle_tcp x e h key bs (c_sink c) (c_addr c) ws s = (False, c_sink c, s1)" "delivers s s1"
  have "(fine_step x)\<^sup>*\<^sup>* (fine_of s cs m) (fine_of s1 cs m)" by (rule delivers_fine [OF r(2)])
  with close_fine [where cs = cs and n = n and c = c and x = x and s = s1 and m = m] r(1) assms show ?thesis
    by (auto intro: rtranclp.rtrancl_into_rtrancl)
next
  fix s1 k msg assume r: "handle_tcp x e h key bs (c_sink c) (c_addr c) ws s = (False, c_sink c, s1)" "c_sink c = Some k"
    "tcp_punch s1 = tcp_punch s" "sink_out s1 = sink_out s @ [(k, msg)]"
  then have "sk = Some k" "s' = s1" using assms(2) by auto
  then have "fine_step x (fine_of s cs m) (fine_of (close_connection x (c_addr c) sk s') (cs(n := None)) m)"
    using fine_step.Reply [of "fine_of s cs m" n c k x msg] assms(1) r(2-4)
    by (simp add: fine_of_def close_connection_def)
  then show ?thesis by (rule r_into_rtranclp)
qed (use assms(2) in auto)

end
