(* ===== verification/Persistence.thy ===== *)
theory Persistence
  imports Registration Samples
begin

text \<open>
  What survives a restart. While the database answers, memory and table agree on every
  peer, so the map a new process builds from the table (\<open>PeerMap::new\<close> with the old
  file) knows the identities the old process knew. When a write fails, the handler
  reports success all the same and the two drift apart.
\<close>

subsection \<open>Memory and table in step\<close>

definition in_step :: "externals \<Rightarrow> db_row option \<Rightarrow> peer \<Rightarrow> bool" where
  "in_step x row p \<longleftrightarrow>
     (case row of
        None \<Rightarrow> p_guid p = [] \<and> p_uuid p = []
      | Some r \<Rightarrow> p_guid p = r_guid r \<and> p_uuid p = r_uuid r \<and> p_pk p = r_pk r \<and>
          p_ip p = x_info_of_json x (r_info r))"

definition pm_synced :: "externals \<Rightarrow> peer_map \<Rightarrow> bool" where
  "pm_synced x pm \<longleftrightarrow> pm_wf pm \<and> (\<forall>r \<in> set (pm_db pm). r_guid r \<noteq> [] \<and> r_uuid r \<noteq> []) \<and>
     (\<forall>pid p. peer_of pm pid = Some p \<longrightarrow> in_step x (find_row (pm_db pm) pid) p)"

lemma pm_syncedD:
  "pm_synced x pm \<Longrightarrow> pm_wf pm"
  "pm_synced x pm \<Longrightarrow> r \<in> set (pm_db pm) \<Longrightarrow> r_guid r \<noteq> [] \<and> r_uuid r \<noteq> []"
  "pm_synced x pm \<Longrightarrow> peer_of pm pid = Some p \<Longrightarrow> in_step x (find_row (pm_db pm) pid) p"
  by (auto simp: pm_synced_def)

lemma pm_synced_coh: "pm_synced x pm \<Longrightarrow> pm_coh pm"
  unfolding pm_coh_def pm_synced_def in_step_def by (fastforce split: option.splits)

lemma restart_synced:
  "pm_synced x pm \<Longrightarrow> pm_synced x (pm_new (Some (pm_db pm)))"
  by (auto simp: pm_synced_def pm_wf_def pm_new_def create_tables_def peer_of_def)

lemma restart_identity:
  assumes "pm_synced x pm"
  shows "known_identity x (pm_new (Some (pm_db pm))) q = known_identity x pm q"
proof (cases "peer_of pm q")
  case None
  then show ?thesis by (simp add: known_identity_def peer_of_def pm_new_def create_tables_def)
next
  case (Some p)
  from pm_syncedD(3) [OF assms Some] pm_syncedD(2) [OF assms] Some show ?thesis
    by (auto simp: known_identity_def peer_of_def pm_new_def create_tables_def in_step_def
        split: option.splits)
qed

lemma add_peer_synced:
  assumes "pm_synced x pm" and "pm_map pm pid = None" and "in_step x (find_row (pm_db pm) pid) p"
  shows "pm_synced x (fst (add_peer pid p pm))"
  using assms by (auto simp: pm_synced_def add_peer_wf peer_of_add)

lemma pm_get_or_synced:
  assumes "pm_synced x pm"
  shows "pm_synced x (fst (pm_get_or x True now pid pm))"
  using pm_syncedD(1) [OF assms]
proof (cases rule: pm_get_or_cases [where pid = pid and x = x and up = True and now = now])
  case (fresh pm' l)
  have "pm_synced x (fst (add_peer pid (peer_default now) pm))"
    by (rule add_peer_synced [OF assms]) (use fresh in \<open>simp_all add: in_step_def\<close>)
  then show ?thesis using fresh by simp
next
  case got: (got pm' l)
  from pm_syncedD(1) [OF assms] show ?thesis
  proof (cases rule: pm_get_cases [where pid = pid and x = x and up = True and now = now])
    case (load v pm1 l1)
    have "pm_synced x (fst (add_peer pid (loaded_peer x now v) pm))"
      by (rule add_peer_synced [OF assms]) (use load in \<open>simp_all add: in_step_def\<close>)
    then show ?thesis using load got by simp
  qed (use got assms in auto)
qed

lemma set_peer_synced:
  assumes "pm_synced x pm" and "pm_map pm pid = Some l" and "in_step x (find_row (pm_db pm) pid) p"
  shows "pm_synced x (set_peer l p pm)"
  using assms peer_of_set [OF pm_syncedD(1) [OF assms(1)] assms(2), of p]
  by (auto simp: pm_synced_def set_peer_wf)

text \<open>With the database up and a fresh \<open>guid\<close> the write succeeds.\<close>

lemma pm_update_pk_succeeds:
  assumes sync: "pm_synced x pm" and l: "pm_map pm pid = Some l"
    and fresh: "fresh \<notin> r_guid ` set (pm_db pm)"
  shows "snd (pm_update_pk x True fresh now pid l addr uuid pk ip pm) = OK"
proof (cases "p_guid (peer_at pm l) = []")
  case True
  have "in_step x (find_row (pm_db pm) pid) (peer_at pm l)"
    by (rule pm_syncedD(3) [OF sync peer_of_at [OF l]])
  with True pm_syncedD(2) [OF sync] have "find_row (pm_db pm) pid = None"
    by (auto simp: in_step_def split: option.splits dest: find_row_in)
  then have "\<not> (\<exists>r \<in> set (pm_db pm). r_guid r = fresh \<or> r_id r = pid)"
    using fresh by (auto simp: find_row_None)
  with True show ?thesis by (simp add: pm_update_pk_def Let_def insert_peer_def)
next
  case False
  have dwf: "db_wf (pm_db pm)" using pm_syncedD(1) [OF sync] by (simp add: pm_wf_def)
  obtain r where r: "find_row (pm_db pm) pid = Some r" "r_guid r = p_guid (peer_at pm l)"
    using pm_cohD [OF pm_synced_coh [OF sync] peer_of_at [OF l] False] by auto
  from table.amend_total [OF dwf r, of pk "x_info_to_json x ip"] False show ?thesis
    by (auto simp: pm_update_pk_def Let_def store_amend_def split: prod.splits sum.splits)
qed

lemma pm_update_pk_synced:
  assumes sync: "pm_synced x pm" and l: "pm_map pm pid = Some l"
    and old: "p_guid (peer_at pm l) \<noteq> [] \<Longrightarrow> uuid = p_uuid (peer_at pm l)" and new: "uuid \<noteq> []"
    and fresh: "fresh \<notin> r_guid ` set (pm_db pm)" "fresh \<noteq> []" and json: "json_roundtrip x"
  shows "pm_synced x (fst (pm_update_pk x True fresh now pid l addr uuid pk ip pm))"
proof -
  note wf = pm_syncedD(1) [OF sync]
  have dwf: "db_wf (pm_db pm)" using wf by (simp add: pm_wf_def)
  have wf': "pm_wf (fst (pm_update_pk x True fresh now pid l addr uuid pk ip pm))"
    by (rule pm_update_pk_wf [OF wf])
  from wf l show ?thesis
  proof (cases rule: pm_update_pk_cases [where x = x and up = True and fresh = fresh and now = now
        and addr = addr and uuid = uuid and pk = pk and ip = ip])
    case failed
    then show ?thesis
      using pm_update_pk_succeeds [OF sync l fresh(1), of now addr uuid pk ip] by simp
  next
    case (inserted db')
    have "r_guid r \<noteq> [] \<and> r_uuid r \<noteq> []" if "r \<in> set db'" for r
      using store_create_row [OF inserted(3)] that pm_syncedD(2) [OF sync, of r] new fresh(2) by auto
    moreover have "in_step x (find_row db' q) p"
      if "peer_of (fst (pm_update_pk x True fresh now pid l addr uuid pk ip pm)) q = Some p" for q p
      using that pm_syncedD(3) [OF sync, of q] json inserted(4)
      by (auto simp: in_step_def json_roundtrip_def peer_of_set [OF wf l]
          table.create_lookup [OF dwf inserted(3)] split: if_splits)
    ultimately show ?thesis using wf' inserted(4) by (simp add: pm_synced_def)
  next
    case (updated db')
    obtain r where r: "find_row (pm_db pm) pid = Some r" "r_guid r = p_guid (peer_at pm l)"
      "r_uuid r = uuid"
      using pm_cohD [OF pm_synced_coh [OF sync] peer_of_at [OF l] updated(1)] old [OF updated(1)] by auto
    have find: "find_row db' q = (if q = pid then Some (r\<lparr>r_pk := pk, r_info := x_info_to_json x ip\<rparr>)
        else find_row (pm_db pm) q)" for q
      using table.amend_total [OF dwf r(1,2), of pk "x_info_to_json x ip"] updated(3) by auto
    have "r_guid r' \<noteq> [] \<and> r_uuid r' \<noteq> []" if "r' \<in> set db'" for r'
      using updated(3) that pm_syncedD(2) [OF sync]
      by (auto simp: store_amend_def db_update_pk_def set_rows_def split: if_splits)
    moreover have "in_step x (find_row db' q) p"
      if "peer_of (fst (pm_update_pk x True fresh now pid l addr uuid pk ip pm)) q = Some p" for q p
      using that pm_syncedD(3) [OF sync, of q] json updated(4) r find
      by (auto simp: in_step_def json_roundtrip_def peer_of_set [OF wf l] split: if_splits)
    ultimately show ?thesis using wf' updated(4) by (simp add: pm_synced_def)
  qed
qed

subsection \<open>Registrations while the database answers\<close>

lemma handle_register_pk_synced:
  assumes sync: "pm_synced x (pmap s)" and up: "e_db_read e" "e_db_write e"
    and fresh: "e_guid e \<notin> r_guid ` set (pm_db (pmap s))" "e_guid e \<noteq> []"
    and json: "json_roundtrip x"
  shows "pm_synced x (pmap (fst (handle_register_pk x e addr rk s)))"
proof (cases "rk_uuid rk = [] \<or> rk_pk rk = []")
  case True
  with sync show ?thesis by (auto simp: handle_register_pk_def)
next
  case False
  then have ne: "rk_uuid rk \<noteq> []" "rk_pk rk \<noteq> []" by auto
  have got: "pm_synced x pm1" if "pm_get_or x (e_db_read e) (e_now e) (rk_id rk) (pmap s) = (pm1, l)"
    for pm1 l
    using pm_get_or_synced [OF sync, of "e_now e" "rk_id rk"] up that by simp
  show ?thesis
    using ne
  proof (cases rule: handle_register_pk_cases [where x = x and e = e and addr = addr and s = s])
    case (accepted bl pm1 l changed ipc req pm3 chg)
    note sync1 = got [OF accepted(3)]
    have l: "pm_map pm1 (rk_id rk) = Some l"
      by (rule pm_get_or_found [OF pm_syncedD(1) [OF sync] accepted(3)])
    have db: "pm_db pm1 = pm_db (pmap s)" by (metis accepted(3) fst_conv pm_get_or_db)
    have sync3: "pm_synced x pm3"
      unfolding accepted(6) using pm_syncedD(3) [OF sync1 peer_of_at [OF l]]
      by (intro set_peer_synced [OF sync1 l]) (simp add: in_step_def split: option.splits)
    have at3: "peer_at pm3 l = (peer_at pm1 l)\<lparr>p_reg_pk := req\<rparr>"
      using accepted(6) pm_wf_alloc [OF pm_syncedD(1) [OF sync1] l] by simp
    have l3: "pm_map pm3 (rk_id rk) = Some l" using l accepted(6) by simp
    have old: "p_guid (peer_at pm3 l) \<noteq> [] \<Longrightarrow> rk_uuid rk = p_uuid (peer_at pm3 l)"
      using guid_uuid_agree [OF pm_synced_coh [OF sync1] l accepted(4)] at3 by simp
    have fresh3: "e_guid e \<notin> r_guid ` set (pm_db pm3)" using fresh(1) db accepted(6) by simp
    show ?thesis unfolding accepted(7)
      using sync3 up pm_update_pk_synced [OF sync3 l3 old ne(1) fresh3 fresh(2) json] by simp
  qed (use sync got in auto)
qed


lemma sample_json: "json_roundtrip sample_ext"
  by (simp add: json_roundtrip_def sample_ext_def)

lemma fresh_synced [simp]: "pm_synced x (pmap fresh_shared)"
  by (simp add: pm_synced_def peer_of_def)


subsection \<open>Registrations while it does not\<close>

text \<open>
  C29. A failed write is reported as success and never repaired: when the database refuses the
  insertion of a new peer, the client is told \<open>OK\<close> and memory knows the peer, but the table does not, so a
  restart forgets it; and the same registration sent again counts as unchanged, so the
  write is not tried again.
\<close>

theorem failed_write_reported_ok:
  fixes x :: externals
  assumes "pm_wf (pmap s)" and "pm_map (pmap s) (rk_id rk) = None"
    and "find_row (pm_db (pmap s)) (rk_id rk) = None"
    and "e_db_read e" and "\<not> e_db_write e" and "\<And>m. e_send e m addr"
    and "rk_uuid rk \<noteq> []" and "rk_pk rk \<noteq> []" and "6 \<le> length (rk_id rk)"
    and "ip_blocker s (show_ip (sa_ip addr)) = None"
    and "s' = fst (handle_register_pk x e addr rk s)"
  shows "udp_out s' = udp_out s @ [(RegisterPkResponse OK, addr)] \<and>
    known_identity x (pmap s') (rk_id rk) = Some (rk_uuid rk, rk_pk rk, show_ip (sa_ip addr)) \<and>
    known_identity x (pm_new (Some (pm_db (pmap s')))) (rk_id rk) = None \<and>
    (\<exists>p. peer_of (pmap s') (rk_id rk) = Some p \<and>
      rk_compare p rk (show_ip (sa_ip addr)) = Some (False, False))"
proof -
  have get: "pm_get_or x True (e_now e) (rk_id rk) (pmap s)
      = add_peer (rk_id rk) (peer_default (e_now e)) (pmap s)"
    using assms(2,3) by (simp add: pm_get_or_def pm_get_def get_peer_find)
  show ?thesis
    using assms get
    by (simp add: handle_register_pk_def check_ip_blocker_def add_peer_def peer_at_def
        rk_compare_def reg_pk_attempt_def peer_default_def set_peer_def pm_update_pk_def
        insert_peer_def known_identity_def peer_of_def send_rk_res_def udp_send_def Let_def
        pm_new_def create_tables_def)
qed

lemma failed_write_reported_ok_witness:
  "\<exists>s' :: shared. udp_out s' = [(RegisterPkResponse OK, SocketV4 1 2)] \<and>
    known_identity sample_ext (pmap s') ''123456'' = Some ([1], [2], show_ip (IpV4 1)) \<and>
    known_identity sample_ext (pm_new (Some (pm_db (pmap s')))) ''123456'' = None"
proof -
  let ?e = "(sample_env sample_now)\<lparr>e_db_write := False\<rparr>"
  let ?s = "fst (handle_register_pk sample_ext ?e (SocketV4 1 2) sample_rk fresh_shared)"
  have "udp_out ?s = [(RegisterPkResponse OK, SocketV4 1 2)] \<and>
    known_identity sample_ext (pmap ?s) ''123456'' = Some ([1], [2], show_ip (IpV4 1)) \<and>
    known_identity sample_ext (pm_new (Some (pm_db (pmap ?s)))) ''123456'' = None"
    using failed_write_reported_ok [of fresh_shared sample_rk ?e "SocketV4 1 2" ?s sample_ext]
    by (simp add: find_row_def)
  then show ?thesis by blast
qed

end
