(* ===== verification/Text_Parsing.thy ===== *)
theory Text_Parsing
  imports Prelude
begin

text \<open>
  The text functions of the Rust standard library that the commands, the settings and the
  arguments go through: \<open>trim\<close>, ASCII case, \<open>parse\<close> of \<open>usize\<close> and \<open>i32\<close>, the \<open>Debug\<close> form of strings.
  Text is taken to be ASCII, so trimming drops the six ASCII space characters and case
  conversion touches the letters \<open>a\<close> to \<open>z\<close> only.
\<close>

definition is_space :: "char \<Rightarrow> bool" where
  "is_space c \<longleftrightarrow> c = CHR '' '' \<or> (9 \<le> (of_char c :: nat) \<and> (of_char c :: nat) \<le> 13)"

definition trim :: "string \<Rightarrow> string" where
  "trim s = rev (dropWhile is_space (rev (dropWhile is_space s)))"

definition newline :: string where "newline = [CHR 10]"

definition show_bool :: "bool \<Rightarrow> string" where
  "show_bool b = (if b then ''true'' else ''false'')"

definition upper_char :: "char \<Rightarrow> char" where
  "upper_char c =
     (let k = (of_char c :: nat) in if 97 \<le> k \<and> k \<le> 122 then char_of (k - 32) else c)"

definition lower_char :: "char \<Rightarrow> char" where
  "lower_char c =
     (let k = (of_char c :: nat) in if 65 \<le> k \<and> k \<le> 90 then char_of (k + 32) else c)"

definition to_uppercase :: "string \<Rightarrow> string" where "to_uppercase s = map upper_char s"

definition to_lowercase :: "string \<Rightarrow> string" where "to_lowercase s = map lower_char s"

subsection \<open>Numbers\<close>

definition is_digit :: "char \<Rightarrow> bool" where
  "is_digit c \<longleftrightarrow> 48 \<le> (of_char c :: nat) \<and> (of_char c :: nat) \<le> 57"

text \<open>The digits after an optional plus sign, as a number.\<close>

definition parse_plain :: "string \<Rightarrow> nat option" where
  "parse_plain ds =
     (if ds = [] \<or> \<not> list_all is_digit ds then None else Some (read_base 10 ds))"

definition parse_usize :: "string \<Rightarrow> usize option" where
  "parse_usize s =
     (case parse_plain (case s of c # cs \<Rightarrow> if c = CHR ''+'' then cs else s | [] \<Rightarrow> []) of
        Some n \<Rightarrow> if n < 2 ^ 64 then Some (word_of_nat n) else None
      | None \<Rightarrow> None)"

text \<open>\<open>parse::<i32>\<close>: a sign is allowed, a value out of range is an error.\<close>

definition parse_i32 :: "string \<Rightarrow> int option" where
  "parse_i32 s =
     (let v = (case s of
                 [] \<Rightarrow> None
               | c # cs \<Rightarrow>
                   if c = CHR ''-'' then map_option (\<lambda>n. - int n) (parse_plain cs)
                   else map_option int (parse_plain (if c = CHR ''+'' then cs else s)))
      in case v of
           Some n \<Rightarrow> if - 2147483648 \<le> n \<and> n \<le> 2147483647 then Some n else None
         | None \<Rightarrow> None)"

definition show_usize :: "usize \<Rightarrow> string" where
  "show_usize n = show_nat (unat n)"

definition show_int :: "int \<Rightarrow> string" where
  "show_int n = (if n < 0 then CHR ''-'' # show_nat (nat (- n)) else show_nat (nat n))"

subsection \<open>Debug form\<close>

text \<open>\<open>{:?}\<close> of a string of ASCII characters.\<close>

definition debug_char :: "char \<Rightarrow> string" where
  "debug_char c =
     (let k = (of_char c :: nat)
      in if k = 0 then [CHR 92, CHR ''0'']
         else if k = 9 then [CHR 92, CHR ''t'']
         else if k = 10 then [CHR 92, CHR ''n'']
         else if k = 13 then [CHR 92, CHR ''r'']
         else if k = 34 \<or> k = 92 then [CHR 92, c]
         else if k < 32 \<or> k = 127 then CHR 92 # ''u{'' @ show_hex k @ ''}''
         else [c])"

definition debug_str :: "string \<Rightarrow> string" where
  "debug_str s = CHR 34 # concat (map debug_char s) @ [CHR 34]"

subsection \<open>Numbers printed and read back\<close>

lemma decimal_digits: "d < 10 \<Longrightarrow> is_digit (digit_char d)"
  by (simp add: is_digit_def digit_char_def)

lemma show_nat_digits: "list_all is_digit (show_nat n)"
proof (induction "10 :: nat" n rule: show_base.induct)
  case (1 n)
  then show ?case
    using decimal_digits [of "n mod 10"] decimal_digits [of n]
    by (subst show_base.simps) simp
qed

lemma digit_plain: "is_digit c \<Longrightarrow> c \<noteq> CHR ''+'' \<and> c \<noteq> CHR ''-'' \<and> \<not> is_space c"
  by (auto simp: is_digit_def is_space_def)

lemma parse_plain_show [simp]: "parse_plain (show_nat n) = Some n"
  by (simp add: parse_plain_def show_nat_digits read_show_base)

lemma show_nat_Cons:
  obtains c cs where "show_nat n = c # cs" "is_digit c"
  using show_nat_digits [of n] by (cases "show_nat n") auto

lemma parse_show_nat: "n < 2 ^ 64 \<Longrightarrow> parse_usize (show_nat n) = Some (word_of_nat n)"
proof -
  assume n: "n < 2 ^ 64"
  obtain c cs where s: "show_nat n = c # cs" "is_digit c" by (rule show_nat_Cons)
  have "parse_usize (c # cs) = (case parse_plain (c # cs) of
      Some n \<Rightarrow> if n < 2 ^ 64 then Some (word_of_nat n) else None | None \<Rightarrow> None)"
    using digit_plain [OF s(2)] by (simp add: parse_usize_def)
  with n show ?thesis by (simp add: s(1) [symmetric])
qed

lemma parse_i32_show: "n < 2147483648 \<Longrightarrow> parse_i32 (show_nat n) = Some (int n)"
proof -
  assume n: "n < 2147483648"
  obtain c cs where s: "show_nat n = c # cs" "is_digit c" by (rule show_nat_Cons)
  have "parse_i32 (c # cs) = (case map_option int (parse_plain (c # cs)) of
      Some n \<Rightarrow> if - 2147483648 \<le> n \<and> n \<le> 2147483647 then Some n else None | None \<Rightarrow> None)"
    using digit_plain [OF s(2)] by (simp add: parse_i32_def)
  with n show ?thesis by (simp add: s(1) [symmetric])
qed

lemma trim_ends: "s \<noteq> [] \<Longrightarrow> \<not> is_space (hd s) \<Longrightarrow> \<not> is_space (last s) \<Longrightarrow> trim s = s"
proof -
  assume s: "s \<noteq> []" "\<not> is_space (hd s)" "\<not> is_space (last s)"
  then have "dropWhile is_space s = s" by (cases s) auto
  moreover have "dropWhile is_space (rev s) = rev s"
    using s by (cases s rule: rev_cases) auto
  ultimately show ?thesis by (simp add: trim_def)
qed

text \<open>A command with one argument splits into the two.\<close>

lemma command_words:
  assumes "list_all (\<lambda>c. \<not> is_space c) name" and "name \<noteq> []" and "list_all (\<lambda>c. \<not> is_space c) v" and "v \<noteq> []"
  shows "split_on CHR '' '' (trim (name @ CHR '' '' # v)) = [name, v]"
proof -
  have sp: "is_space CHR '' ''" by (simp add: is_space_def)
  have "trim (name @ CHR '' '' # v) = name @ CHR '' '' # v"
    by (rule trim_ends) (use assms in \<open>auto simp: list_all_iff last_in_set hd_append\<close>)
  moreover have "CHR '' '' \<notin> set name" "CHR '' '' \<notin> set v" using assms sp by (auto simp: list_all_iff)
  ultimately show ?thesis by (simp add: split_on_append split_on_free)
qed

lemma trim_free: "(\<And>c. c \<in> set s \<Longrightarrow> \<not> is_space c) \<Longrightarrow> trim s = s"
  by (cases "s = []") (simp add: trim_def, simp add: trim_ends last_in_set)

end
