(* ===== verification/Net_Parse.thy ===== *)
theory Net_Parse
  imports Net Text_Parsing
begin

text \<open>
  \<open>FromStr\<close> of \<open>IpAddr\<close> and \<open>SocketAddr\<close>, as \<open>std::net\<close> reads them: a parser takes the front of
  its input and returns what is left, a failed alternative gives its input back, and the whole text has to be
  used up. Two facts carry the rest: what \<open>Display\<close> prints for an IPv4 address is read back, and a client's
  address text with \<open>:0\<close> after it is the socket address of that client.
\<close>

type_synonym 'a parser = "string \<Rightarrow> ('a \<times> string) option"

definition given :: "char \<Rightarrow> unit parser" where
  "given c s = (case s of d # ds \<Rightarrow> if d = c then Some ((), ds) else None | [] \<Rightarrow> None)"

definition hex_digit :: "char \<Rightarrow> nat option" where
  "hex_digit c =
     (let k = (of_char c :: nat)
      in if 48 \<le> k \<and> k \<le> 57 then Some (k - 48)
         else if 97 \<le> k \<and> k \<le> 102 then Some (k - 87)
         else if 65 \<le> k \<and> k \<le> 70 then Some (k - 55)
         else None)"

definition radix_digit :: "nat \<Rightarrow> char \<Rightarrow> nat option" where
  "radix_digit r c = Option.bind (hex_digit c) (\<lambda>d. if d < r then Some d else None)"

text \<open>
  \<open>read_number\<close>: all digits that follow, at most \<open>max_digits\<close> of them when that is given, no value above
  \<open>most\<close>, and no leading zero unless it is allowed.
\<close>

definition read_number :: "nat \<Rightarrow> nat option \<Rightarrow> bool \<Rightarrow> nat \<Rightarrow> nat parser" where
  "read_number r max_digits zero_prefix most s =
     (let ds = takeWhile (\<lambda>c. radix_digit r c \<noteq> None) s;
          n = foldl (\<lambda>acc c. acc * r + the (radix_digit r c)) 0 ds
      in if ds = [] then None
         else if (case max_digits of Some m \<Rightarrow> m < length ds | None \<Rightarrow> False) then None
         else if most < n then None
         else if \<not> zero_prefix \<and> hd ds = CHR ''0'' \<and> 1 < length ds then None
         else Some (n, drop (length ds) s))"

definition octet :: "nat parser" where
  "octet = read_number 10 (Some 3) False 255"

definition after :: "char \<Rightarrow> 'a parser \<Rightarrow> 'a parser" where
  "after c p s = Option.bind (given c s) (\<lambda>(_, s'). p s')"

definition v4_of :: "nat \<Rightarrow> nat \<Rightarrow> nat \<Rightarrow> nat \<Rightarrow> 32 word" where
  "v4_of a b c d = foldl (\<lambda>acc n. acc * 256 + word_of_nat n) 0 [a, b, c, d]"

definition read_ipv4 :: "(32 word) parser" where
  "read_ipv4 s =
     Option.bind (octet s) (\<lambda>(a, s1). Option.bind (after CHR ''.'' octet s1) (\<lambda>(b, s2).
     Option.bind (after CHR ''.'' octet s2) (\<lambda>(c, s3). Option.bind (after CHR ''.'' octet s3) (\<lambda>(d, s4).
       Some (v4_of a b c d, s4)))))"

text \<open>
  \<open>read_groups\<close>: hexadecimal groups separated by colons, up to \<open>room\<close> of them; an embedded IPv4 address
  counts as two and ends the list. \<open>first\<close> tells whether a separator is due.
\<close>

definition sep :: "bool \<Rightarrow> 'a parser \<Rightarrow> 'a parser" where
  "sep first p = (if first then p else after CHR '':'' p)"

fun read_groups :: "bool \<Rightarrow> nat \<Rightarrow> string \<Rightarrow> (nat list \<times> bool) \<times> string" where
  "read_groups first 0 s = (([], False), s)"
| "read_groups first (Suc room) s =
     (case (if 0 < room then sep first read_ipv4 s else None) of
        Some (a, s') \<Rightarrow> ((chunks 16 2 a, True), s')
      | None \<Rightarrow>
          (case sep first (read_number 16 (Some 4) True 65535) s of
             Some (g, s') \<Rightarrow>
               (let ((gs, v4), s'') = read_groups False room s' in ((g # gs, v4), s''))
           | None \<Rightarrow> (([], False), s)))"

definition v6_of :: "nat list \<Rightarrow> 128 word" where
  "v6_of gs = foldl (\<lambda>acc n. acc * 65536 + word_of_nat n) 0 gs"

definition read_ipv6 :: "(128 word) parser" where
  "read_ipv6 s =
     (let ((head, head_v4), s1) = read_groups True 8 s
      in if length head = 8 then Some (v6_of head, s1)
         else if head_v4 then None
         else Option.bind (after CHR '':'' (given CHR '':'') s1) (\<lambda>(_, s2).
           (let ((tail, _), s3) = read_groups True (7 - length head) s2
            in Some (v6_of (head @ replicate (8 - length head - length tail) 0 @ tail), s3))))"

definition whole :: "'a parser \<Rightarrow> string \<Rightarrow> 'a option" where
  "whole p s = (case p s of Some (v, []) \<Rightarrow> Some v | _ \<Rightarrow> None)"

definition parse_ip :: "string \<Rightarrow> ip_addr option" where
  "parse_ip s =
     (case whole read_ipv4 s of
        Some a \<Rightarrow> Some (IpV4 a)
      | None \<Rightarrow> map_option IpV6 (whole read_ipv6 s))"

definition read_port :: "nat parser" where
  "read_port = after CHR '':'' (read_number 10 None True 65535)"

definition read_scope :: "nat parser" where
  "read_scope s =
     (case after CHR ''%'' (read_number 10 None True 4294967295) s of
        Some r \<Rightarrow> Some r | None \<Rightarrow> Some (0, s))"

definition read_socket_v4 :: "socket_addr parser" where
  "read_socket_v4 s =
     Option.bind (read_ipv4 s) (\<lambda>(a, s1). Option.bind (read_port s1) (\<lambda>(p, s2).
       Some (SocketV4 a (word_of_nat p), s2)))"

definition read_socket_v6 :: "socket_addr parser" where
  "read_socket_v6 s =
     Option.bind (after CHR ''['' read_ipv6 s) (\<lambda>(a, s1). Option.bind (read_scope s1) (\<lambda>(sc, s2).
     Option.bind (given CHR '']'' s2) (\<lambda>(_, s3). Option.bind (read_port s3) (\<lambda>(p, s4).
       Some (SocketV6 a (word_of_nat p) 0 (word_of_nat sc), s4)))))"

definition parse_socket :: "string \<Rightarrow> socket_addr option" where
  "parse_socket s =
     (case whole read_socket_v4 s of Some a \<Rightarrow> Some a | None \<Rightarrow> whole read_socket_v6 s)"

subsection \<open>What is printed is read back\<close>

lemma radix_10: "radix_digit 10 c = (if is_digit c then Some (digit_val c) else None)"
  by (auto simp: radix_digit_def hex_digit_def is_digit_def digit_val_def Let_def)

lemma read_decimal:
  assumes "list_all is_digit ds" and "rest = [] \<or> \<not> is_digit (hd rest)"
  shows "takeWhile (\<lambda>c. radix_digit 10 c \<noteq> None) (ds @ rest) = ds"
    and "foldl (\<lambda>acc c. acc * 10 + the (radix_digit 10 c)) k ds = foldl (\<lambda>acc c. acc * 10 + digit_val c) k ds"
proof -
  show "takeWhile (\<lambda>c. radix_digit 10 c \<noteq> None) (ds @ rest) = ds"
    using assms by (induction ds) (cases rest, auto simp: radix_10)
  show "foldl (\<lambda>acc c. acc * 10 + the (radix_digit 10 c)) k ds = foldl (\<lambda>acc c. acc * 10 + digit_val c) k ds"
    using assms(1) by (induction ds arbitrary: k) (auto simp: radix_10)
qed

lemma hd_show_nat: "hd (show_nat n) = CHR ''0'' \<Longrightarrow> n = 0"
proof (induction "10 :: nat" n rule: show_base.induct)
  case (1 n)
  show ?case
  proof (cases "n < 10")
    case True
    with 1(2) have "digit_char n = CHR ''0''" by (subst (asm) show_base.simps) simp
    then have "(of_char (digit_char n) :: nat) = 48" by simp
    with True show ?thesis by (simp add: digit_char_def)
  next
    case False
    then have "hd (show_nat n) = hd (show_nat (n div 10))"
      by (subst show_base.simps) (simp add: hd_append)
    with 1 False have "n div 10 = 0" by simp
    with False show ?thesis by simp
  qed
qed

lemma length_show_nat: "n < 1000 \<Longrightarrow> length (show_nat n) \<le> 3"
  by (subst show_base.simps, simp, subst show_base.simps, simp, subst show_base.simps, simp)

lemma read_number_show:
  assumes "n \<le> most" and "rest = [] \<or> \<not> is_digit (hd rest)"
    and "case md of Some m \<Rightarrow> length (show_nat n) \<le> m | None \<Rightarrow> True"
  shows "read_number 10 md z most (show_nat n @ rest) = Some (n, rest)"
proof -
  note ds = read_decimal [OF show_nat_digits assms(2)]
  have "n = 0 \<Longrightarrow> length (show_nat n) = 1" by (subst show_base.simps) simp
  with hd_show_nat [of n] have z: "\<not> (hd (show_nat n) = CHR ''0'' \<and> 1 < length (show_nat n))" by fastforce
  have "foldl (\<lambda>acc c. acc * 10 + the (radix_digit 10 c)) 0 (show_nat n) = n"
    using read_show_base [of 10 n] ds(2) [of 0 n] by (simp add: read_base_def)
  with z assms(1,3) show ?thesis
    unfolding read_number_def Let_def ds(1) by (auto split: option.splits)
qed

lemma octet_show: "n < 256 \<Longrightarrow> rest = [] \<or> \<not> is_digit (hd rest) \<Longrightarrow> octet (show_nat n @ rest) = Some (n, rest)"
  unfolding octet_def by (rule read_number_show) (simp_all add: length_show_nat)

lemma after_Cons [simp]: "after c p (d # s) = (if d = c then p s else None)"
  by (simp add: after_def given_def)

lemma v4_of_chunks:
  fixes a :: "32 word"
  assumes "chunks 8 4 a = [p, q, r, s]"
  shows "v4_of p q r s = a"
proof -
  define m where "m = unat a"
  have m: "m < 4294967296" using unsigned_less [of a, where 'a = nat] by (simp add: m_def)
  have pieces: "p = m div 16777216 mod 256" "q = m div 65536 mod 256" "r = m div 256 mod 256" "s = m mod 256"
    using assms by (auto simp: chunks_def upt_rec m_def unsigned_take_bit_eq unsigned_drop_bit_eq
        take_bit_eq_mod drop_bit_eq_div take_bit_nat_eq_self unat_div unat_mod)
  have "m div 16777216 mod 256 = m div 16777216" using m by simp
  then have "((p * 256 + q) * 256 + r) * 256 + s = m"
    using div_mult_mod_eq [of "m div 65536" 256] div_mult_mod_eq [of "m div 256" 256] div_mult_mod_eq [of m 256]
    by (simp add: pieces flip: div_mult2_eq)
  moreover have "v4_of p q r s = word_of_nat (((p * 256 + q) * 256 + r) * 256 + s)"
    by (simp add: v4_of_def)
  ultimately show ?thesis by (simp add: m_def)
qed

lemma chunks_8_small: "n \<in> set (chunks 8 4 a) \<Longrightarrow> n < 256"
  using take_bit_nat_less_exp [of 8] by (auto simp: chunks_def unsigned_take_bit_eq)

lemma not_digit [simp]: "\<not> is_digit CHR ''.''" "\<not> is_digit CHR '':''" "\<not> is_digit CHR '']''"
  by (simp_all add: is_digit_def)

lemma read_ipv4_show:
  assumes "rest = [] \<or> \<not> is_digit (hd rest)"
  shows "read_ipv4 (show_v4 a @ rest) = Some (a, rest)"
proof -
  obtain p q r s where c: "chunks 8 4 a = [p, q, r, s]"
    by (simp add: chunks_def upt_rec)
  then have small: "p < 256" "q < 256" "r < 256" "s < 256" using chunks_8_small [of _ a] by auto
  have shown: "show_v4 a @ rest = show_nat p @ CHR ''.'' # show_nat q @ CHR ''.'' # show_nat r @ CHR ''.'' # show_nat s @ rest"
    by (simp add: show_v4_def c)
  show ?thesis
    using small assms unfolding read_ipv4_def shown by (simp add: octet_show v4_of_chunks [OF c])
qed

lemma parse_ip_v4: "parse_ip (show_v4 a) = Some (IpV4 a)"
  using read_ipv4_show [of "[]" a] by (simp add: parse_ip_def whole_def)

lemma parse_socket_v4: "parse_socket (show_v4 a @ '':0'') = Some (SocketV4 a 0)"
proof -
  have "read_port '':0'' = Some (0, [])"
    by (simp add: read_port_def read_number_def radix_digit_def hex_digit_def)
  then show ?thesis
    using read_ipv4_show [of "'':0''" a] by (simp add: parse_socket_def whole_def read_socket_v4_def)
qed

end
