(* ===== verification/Server_Admin.thy ===== *)
theory Server_Admin
  imports Samples Net_Parse "HOL-Library.List_Lexorder" "HOL-Library.Char_ord"
begin

text \<open>
  \<open>RendezvousServer::check_cmd\<close> (\<open>src/rendezvous_server.rs\<close>): the text commands an administrator
  on the machine itself sends to the NAT-test port. They read and prune the throttle tables, clear the log
  of requests, and set the relay servers. The order in which a hash table is read is a parameter, and so is the
  text of a past instant (\<open>chrono\<close>).
\<close>

definition IP_CHANGE_DUR_X2 :: nat where "IP_CHANGE_DUR_X2 = IP_CHANGE_DUR * 2"

record listing =
  ls_order :: "string set \<Rightarrow> string list"
  ls_stamp :: "nat \<Rightarrow> string"

text \<open>Reading a table visits each key once.\<close>

definition reads_all :: "listing \<Rightarrow> bool" where
  "reads_all ls \<longleftrightarrow> (\<forall>A. finite A \<longrightarrow> distinct (ls_order ls A) \<and> set (ls_order ls A) = A)"

definition server_help :: "string list" where
  "server_help =
     [''relay-servers(rs) <separated by ,>'', ''reload-geo(rg)'', ''ip-blocker(ib) [<ip>|<number>] [-]'',
      ''ip-changes(ic) [<id>|<number>] [-]'', ''punch-requests(pr) [<number>] [-]'',
      ''always-use-relay(aur)'', ''test-geo(tg) <ip1> <ip2>'']"

text \<open>\<open>next\<close> on the arguments, and \<open>HashMap::len\<close> by a full read.\<close>

definition arg :: "nat \<Rightarrow> string list \<Rightarrow> string option" where
  "arg n args = (if n < length args then Some (args ! n) else None)"

definition table_len :: "listing \<Rightarrow> (string \<rightharpoonup> 'a) \<Rightarrow> nat" where
  "table_len ls m = length (ls_order ls (dom m))"

definition table_rows :: "listing \<Rightarrow> (string \<rightharpoonup> 'a) \<Rightarrow> (string \<times> 'a) list" where
  "table_rows ls m = map (\<lambda>k. (k, the (m k))) (ls_order ls (dom m))"

definition i32_arg :: "string option \<Rightarrow> int" where
  "i32_arg v = (case v of None \<Rightarrow> -1 | Some s \<Rightarrow> (case parse_i32 s of Some n \<Rightarrow> n | None \<Rightarrow> -1))"

text \<open>
  The paging loop \<open>for i in 0..(start + 10)\<close> over an iterator; the bound is an \<open>i32\<close> and wraps in a release
  build, which leaves an empty range.
\<close>

fun page_loop :: "int \<Rightarrow> int \<Rightarrow> int \<Rightarrow> ('a \<Rightarrow> string) \<Rightarrow> 'a list \<Rightarrow> string" where
  "page_loop i start stop line [] = []"
| "page_loop i start stop line (r # rs) =
     (if stop \<le> i then []
      else (if i < start then [] else line r) @ page_loop (i + 1) start stop line rs)"

definition page :: "int \<Rightarrow> ('a \<Rightarrow> string) \<Rightarrow> 'a list \<Rightarrow> string" where
  "page start line rows = page_loop 0 start (sint (word_of_int start + 10 :: i32)) line rows"

subsection \<open>The throttle table\<close>

definition retain_blocker :: "instant \<Rightarrow> ip_block_map \<Rightarrow> ip_block_map" where
  "retain_blocker now lock ip =
     (case lock ip of
        Some (a, b) \<Rightarrow>
          (if elapsed_secs now (snd a) \<le> IP_BLOCK_DUR \<or> elapsed_secs now (snd b) \<le> DAY_SECONDS
           then Some (a, b) else None)
      | None \<Rightarrow> None)"

definition blocker_text :: "instant \<Rightarrow> ip_entry \<Rightarrow> string" where
  "blocker_text now e =
     (case e of (a, b) \<Rightarrow>
        show_nat (fst a) @ ''/'' @ show_nat (elapsed_secs now (snd a)) @ ''s '' @
        show_nat (fcard (fst b)) @ ''/'' @ show_nat (elapsed_secs now (snd b)) @ ''s'' @ newline)"

definition blocker_row :: "instant \<Rightarrow> string \<times> ip_entry \<Rightarrow> string" where
  "blocker_row now r = fst r @ '': '' @ blocker_text now (snd r)"

definition ip_blocker_cmd ::
  "listing \<Rightarrow> instant \<Rightarrow> string list \<Rightarrow> ip_block_map \<Rightarrow> string \<times> ip_block_map" where
  "ip_blocker_cmd ls now args lock0 =
     (let lock = retain_blocker now lock0;
          res = show_nat (table_len ls lock) @ newline;
          ip = arg 0 args; start = i32_arg ip
      in if start < 0 then
           (case ip of
              Some ip \<Rightarrow>
                (res @ (case lock ip of Some e \<Rightarrow> blocker_text now e | None \<Rightarrow> []),
                 if arg 1 args = Some ''-'' then lock(ip := None) else lock)
            | None \<Rightarrow> (res @ page 0 (blocker_row now) (table_rows ls lock), lock))
         else (res @ page start (blocker_row now) (table_rows ls lock), lock))"

subsection \<open>The log of address changes\<close>

definition retain_changes :: "listing \<Rightarrow> instant \<Rightarrow> ip_changes_map \<Rightarrow> ip_changes_map" where
  "retain_changes ls now lock pid =
     (case lock pid of
        Some (tm, ips) \<Rightarrow>
          (if elapsed_secs now tm < IP_CHANGE_DUR_X2 \<and> 1 < table_len ls ips then Some (tm, ips) else None)
      | None \<Rightarrow> None)"

definition join_comma :: "string list \<Rightarrow> string" where
  "join_comma ps = (case ps of [] \<Rightarrow> [] | p # qs \<Rightarrow> p @ concat (map (\<lambda>q. '', '' @ q) qs))"

definition changes_text :: "listing \<Rightarrow> instant \<Rightarrow> instant \<times> (string \<rightharpoonup> i32) \<Rightarrow> string" where
  "changes_text ls now v =
     show_nat (elapsed_secs now (fst v)) @ ''s {'' @
     join_comma (map (\<lambda>(ip, n). debug_str ip @ '': '' @ show_int (sint n)) (table_rows ls (snd v))) @
     ''}'' @ newline"

definition changes_row :: "listing \<Rightarrow> instant \<Rightarrow> string \<times> instant \<times> (string \<rightharpoonup> i32) \<Rightarrow> string" where
  "changes_row ls now r = fst r @ '': '' @ changes_text ls now (snd r)"

definition ip_changes_cmd ::
  "listing \<Rightarrow> instant \<Rightarrow> string list \<Rightarrow> ip_changes_map \<Rightarrow> string \<times> ip_changes_map" where
  "ip_changes_cmd ls now args lock0 =
     (let lock = retain_changes ls now lock0;
          res = show_nat (table_len ls lock) @ newline;
          pid = arg 0 args; start = i32_arg pid;
          (res1, lock1, start1) =
            (if \<not> (0 \<le> start \<and> start \<le> 10000000) then
               (case pid of
                  Some pid \<Rightarrow>
                    (res @ (case lock pid of Some v \<Rightarrow> changes_text ls now v | None \<Rightarrow> []),
                     if arg 1 args = Some ''-'' then lock(pid := None) else lock, start)
                | None \<Rightarrow> (res, lock, 0))
             else (res, lock, start))
      in if 0 \<le> start1 then (res1 @ page start1 (changes_row ls now) (table_rows ls lock1), lock1)
         else (res1, lock1))"

subsection \<open>The request log\<close>

definition usize_arg :: "string option \<Rightarrow> nat \<Rightarrow> nat" where
  "usize_arg v dflt =
     (case Option.bind v parse_usize of Some n \<Rightarrow> unat n | None \<Rightarrow> dflt)"

definition punch_text :: "listing \<Rightarrow> instant \<Rightarrow> punch_req_entry \<Rightarrow> string" where
  "punch_text ls now e =
     ls_stamp ls (now - pe_tm e) @ '' '' @ pe_from_ip e @ '' -> '' @ pe_to_id e @ ''@'' @ pe_to_ip e @ newline"

definition punch_requests_cmd ::
  "listing \<Rightarrow> instant \<Rightarrow> string list \<Rightarrow> punch_req_entry list \<Rightarrow> string \<times> punch_req_entry list" where
  "punch_requests_cmd ls now args lock =
     (if arg 0 args = Some ''-'' then ([], [])
      else let start = usize_arg (arg 0 args) 0; size = usize_arg (arg 1 args) 10;
               size = (if size = 0 then 10 else size)
           in (concat (map (punch_text ls now) (take size (drop start lock))), lock))"

subsection \<open>The relay commands\<close>

definition always_use_relay_cmd :: "env \<Rightarrow> string list \<Rightarrow> shared \<Rightarrow> string \<times> shared" where
  "always_use_relay_cmd e args s =
     (case arg 0 args of
        Some rs \<Rightarrow>
          ([], fst (tx_send e (RelayServers0 rs) (s\<lparr>always_use_relay := (to_uppercase rs = ''Y'')\<rparr>)))
      | None \<Rightarrow> (''ALWAYS_USE_RELAY: '' @ show_bool (always_use_relay s) @ newline, s))"

definition relay_servers_cmd :: "env \<Rightarrow> handle \<Rightarrow> string list \<Rightarrow> shared \<Rightarrow> string \<times> shared" where
  "relay_servers_cmd e h args s =
     (case arg 0 args of
        Some rs \<Rightarrow> ([], fst (tx_send e (RelayServers0 rs) s))
      | None \<Rightarrow> (concat (map (\<lambda>ip. ip @ newline) (h_relay_servers h)), s))"

definition test_geo_cmd :: "handle \<Rightarrow> string list \<Rightarrow> shared \<Rightarrow> string \<times> shared" where
  "test_geo_cmd h args s =
     (case Option.bind (arg 0 args) parse_ip of
        None \<Rightarrow> ([], s)
      | Some a \<Rightarrow>
          (case arg 1 args of
             Some rs \<Rightarrow>
               (case parse_ip rs of
                  Some b \<Rightarrow> (let (r, s') = get_relay_server h s in (debug_str r, s'))
                | None \<Rightarrow> ([], s))
           | None \<Rightarrow> (let (r, s') = get_relay_server h s in (debug_str r, s'))))"

definition server_check_cmd ::
  "listing \<Rightarrow> env \<Rightarrow> handle \<Rightarrow> string \<Rightarrow> shared \<Rightarrow> string \<times> shared" where
  "server_check_cmd ls e h cmd s =
     (let fds = split_on CHR '' '' (trim cmd); name = hd fds; args = tl fds
      in if name = ''h'' then (concat (map (\<lambda>l. l @ newline) server_help), s)
         else if name = ''relay-servers'' \<or> name = ''rs'' then relay_servers_cmd e h args s
         else if name = ''ip-blocker'' \<or> name = ''ib'' then
           (let (res, lock) = ip_blocker_cmd ls (e_now e) args (ip_blocker s) in (res, s\<lparr>ip_blocker := lock\<rparr>))
         else if name = ''ip-changes'' \<or> name = ''ic'' then
           (let (res, lock) = ip_changes_cmd ls (e_now e) args (ip_changes s) in (res, s\<lparr>ip_changes := lock\<rparr>))
         else if name = ''punch-requests'' \<or> name = ''pr'' then
           (let (res, lock) = punch_requests_cmd ls (e_now e) args (punch_reqs s) in (res, s\<lparr>punch_reqs := lock\<rparr>))
         else if name = ''always-use-relay'' \<or> name = ''aur'' then always_use_relay_cmd e args s
         else if name = ''test-geo'' \<or> name = ''tg'' then test_geo_cmd h args s
         else ([], s))"

subsection \<open>Paging\<close>

lemma page_loop_eq:
  "page_loop i start stop line rs = concat (map line (drop (nat (start - i)) (take (nat (stop - i)) rs)))"
proof (induction rs arbitrary: i)
  case (Cons r rs)
  consider "stop \<le> i" | "i < stop" "i < start" | "i < stop" "start \<le> i" by linarith
  then show ?case
  proof cases
    case 2
    then have "nat (stop - i) = Suc (nat (stop - (i + 1)))" "nat (start - i) = Suc (nat (start - (i + 1)))"
      by linarith+
    with 2 Cons show ?thesis by simp
  next
    case 3
    then have "nat (stop - i) = Suc (nat (stop - (i + 1)))" "nat (start - i) = 0" "nat (start - (i + 1)) = 0"
      by linarith+
    with 3 Cons show ?thesis by simp
  qed simp
qed simp

lemma page_eq:
  assumes "0 \<le> start" and "start \<le> 2147483637"
  shows "page start line rs = concat (map line (take 10 (drop (nat start) rs)))"
proof -
  have "sint (word_of_int start + 10 :: i32) = sint (word_of_int (start + 10) :: i32)"
    by (simp add: wi_hom_add)
  also have "\<dots> = start + 10"
    unfolding signed_of_int using assms by (simp add: signed_take_bit_int_eq_self)
  finally have "page start line rs = concat (map line (drop (nat start) (take (nat (start + 10)) rs)))"
    by (simp add: page_def page_loop_eq)
  also have "drop (nat start) (take (nat (start + 10)) rs) = take 10 (drop (nat start) rs)"
  proof -
    have "nat (start + 10) = 10 + nat start" using assms(1) by (simp add: nat_add_distrib)
    then show ?thesis by (simp add: drop_take)
  qed
  finally show ?thesis .
qed

lemma pages_cover: "concat (map (\<lambda>k. concat (map f (take 10 (drop (10 * k) rs)))) [0..<n]) = concat (map f (take (10 * n) rs))"
proof (induction n)
  case (Suc n)
  have "take (10 * Suc n) rs = take (10 * n) rs @ take 10 (drop (10 * n) rs)"
    by (metis add.commute mult_Suc_right take_add)
  with Suc show ?case by simp
qed simp

subsection \<open>Pruning the throttle\<close>

lemma retain_blocker_cases:
  "retain_blocker now lock ip = lock ip \<or>
     (\<exists>a b. lock ip = Some (a, b) \<and> IP_BLOCK_DUR < elapsed_secs now (snd a) \<and>
        DAY_SECONDS < elapsed_secs now (snd b) \<and> retain_blocker now lock ip = None)"
  by (auto simp: retain_blocker_def split: option.split)

lemma retain_blocker_idem [simp]: "retain_blocker now (retain_blocker now lock) = retain_blocker now lock"
  by (rule ext) (simp add: retain_blocker_def split: option.split)

lemma expired_passes:
  assumes "IP_BLOCK_DUR < elapsed_secs now (snd a)" and "DAY_SECONDS < elapsed_secs now (snd b)"
    and "lock ip = Some (a, b)"
  shows "fst (check_ip_blocker now ip pid lock)"
  using assms by (simp add: check_ip_blocker_def ip_attempt_def id_attempt_def case_prod_beta Let_def)

text \<open>
  Pruning the throttle never changes a verdict: whatever was in the table when an
  administrator looked at it, the next registration from any address is let through or refused as it would have been without.
\<close>

theorem pruning_keeps_verdict:
  assumes "t \<le> now"
  shows "fst (check_ip_blocker now ip pid (snd (ip_blocker_cmd ls t [] lock)))
    = fst (check_ip_blocker now ip pid lock)"
proof -
  have cmd: "snd (ip_blocker_cmd ls t [] lock) = retain_blocker t lock"
    by (simp add: ip_blocker_cmd_def arg_def i32_arg_def Let_def)
  consider (same) "retain_blocker t lock ip = lock ip"
    | (gone) a b where "lock ip = Some (a, b)" "IP_BLOCK_DUR < elapsed_secs t (snd a)"
        "DAY_SECONDS < elapsed_secs t (snd b)" "retain_blocker t lock ip = None"
    using retain_blocker_cases [of t lock ip] by blast
  then show ?thesis
  proof cases
    case same
    then show ?thesis by (simp add: cmd check_ip_blocker_def case_prod_beta split: option.split)
  next
    case gone
    have "fst (check_ip_blocker now ip pid lock)"
      by (rule expired_passes [where a = a and b = b and lock = lock and ip = ip, OF _ _ gone(1)])
        (use gone(2,3) elapsed_secs_mono [OF assms] in \<open>blast intro: less_le_trans\<close>)+
    with gone(4) show ?thesis by (simp add: cmd check_ip_blocker_def)
  qed
qed

lemma pruning_keeps_verdict_witness:
  "fst (check_ip_blocker 90000000000000 ''10.0.0.1'' ''123456''
     (snd (ip_blocker_cmd \<lparr>ls_order = \<lambda>_. [], ls_stamp = \<lambda>_. []\<rparr> 90000000000000 []
        [''10.0.0.1'' \<mapsto> ((31, 0), ({||}, 0))])))"
  using pruning_keeps_verdict [of 90000000000000 90000000000000 "''10.0.0.1''" "''123456''"
      "\<lparr>ls_order = \<lambda>_. [], ls_stamp = \<lambda>_. []\<rparr>" "[''10.0.0.1'' \<mapsto> ((31, 0), ({||}, 0))]"]
    expired_passes [of 90000000000000 "(31, 0)" "({||}, 0)" "[''10.0.0.1'' \<mapsto> ((31, 0), ({||}, 0))]" "''10.0.0.1''"]
  by (simp add: IP_BLOCK_DUR_def DAY_SECONDS_def clock_simps)

lemma finite_retain: "finite (dom lock) \<Longrightarrow> finite (dom (retain_blocker now lock))"
  by (rule finite_subset [of _ "dom lock"]) (auto simp: retain_blocker_def split: option.splits)

definition blocker_page_cmd :: "nat \<Rightarrow> string" where
  "blocker_page_cmd k = ''ib '' @ show_nat (10 * k)"

text \<open>A command of two words, when the second is a number.\<close>

lemma split_number_cmd:
  assumes "name \<noteq> []" and "list_all (\<lambda>c. \<not> is_space c) name"
  shows "split_on CHR '' '' (trim (name @ CHR '' '' # show_nat n)) = [name, show_nat n]"
proof -
  have plain: "\<not> is_space c" if "c \<in> set (show_nat n)" for c
    using that show_nat_digits [of n] digit_plain [of c] by (auto simp: list_all_iff)
  have sp: "is_space CHR '' ''" by (simp add: is_space_def)
  have "trim (name @ CHR '' '' # show_nat n) = name @ CHR '' '' # show_nat n"
    by (rule trim_ends) (use assms plain in \<open>auto simp: list_all_iff last_in_set\<close>)
  moreover have "CHR '' '' \<notin> set name" "CHR '' '' \<notin> set (show_nat n)" using assms(2) plain sp by (auto simp: list_all_iff)
  ultimately show ?thesis by (simp add: split_on_append split_on_free)
qed

lemma blocker_page:
  assumes "10 * k \<le> 2147483637"
  shows "server_check_cmd ls e h (blocker_page_cmd k) s =
    (let lock = retain_blocker (e_now e) (ip_blocker s)
     in (show_nat (table_len ls lock) @ newline @
         concat (map (blocker_row (e_now e)) (take 10 (drop (10 * k) (table_rows ls lock)))),
         s\<lparr>ip_blocker := lock\<rparr>))"
proof -
  have "split_on CHR '' '' (trim (blocker_page_cmd k)) = [''ib'', show_nat (10 * k)]"
    using split_number_cmd [of "''ib''" "10 * k"] by (simp add: blocker_page_cmd_def is_space_def)
  moreover have "i32_arg (Some (show_nat (10 * k))) = int (10 * k)"
    using parse_i32_show [of "10 * k"] assms by (simp add: i32_arg_def)
  moreover have "page (int (10 * k)) line rs = concat (map line (take 10 (drop (10 * k) rs)))"
    for line :: "string \<times> ip_entry \<Rightarrow> string" and rs
    using page_eq [of "int (10 * k)" line rs] assms by (simp del: of_nat_mult)
  ultimately show ?thesis
    by (simp add: server_check_cmd_def ip_blocker_cmd_def arg_def Let_def del: of_nat_mult)
qed

text \<open>
  Page after page shows the whole throttle table: the pages \<open>ib 0\<close>, \<open>ib 10\<close>, \<open>ib 20\<close> and so on, read at one moment,
  hold one line for every live address and no other, in the order of the table.
\<close>

theorem pages_show_table:
  assumes "reads_all ls" and "finite (dom (ip_blocker s))"
    and "lock = retain_blocker (e_now e) (ip_blocker s)"
    and "card (dom lock) \<le> 10 * n" and "10 * n \<le> 2147483637"
  shows "concat (map (\<lambda>k. drop (length (show_nat (card (dom lock)) @ newline))
           (fst (server_check_cmd ls e h (blocker_page_cmd k) s))) [0..<n])
      = concat (map (blocker_row (e_now e)) (table_rows ls lock))
      \<and> set (map fst (table_rows ls lock)) = dom lock \<and> distinct (map fst (table_rows ls lock))"
proof -
  let ?rows = "table_rows ls lock"
  have fin: "finite (dom lock)" using finite_retain [OF assms(2)] assms(3) by simp
  then have keys: "set (ls_order ls (dom lock)) = dom lock" "distinct (ls_order ls (dom lock))"
    using assms(1) by (auto simp: reads_all_def)
  then have len: "table_len ls lock = card (dom lock)" "length ?rows = card (dom lock)"
    by (simp_all add: table_len_def table_rows_def flip: distinct_card)
  have "drop (length (show_nat (card (dom lock)) @ newline)) (fst (server_check_cmd ls e h (blocker_page_cmd k) s))
      = concat (map (blocker_row (e_now e)) (take 10 (drop (10 * k) ?rows)))" if "k < n" for k
    using blocker_page [of k ls e h s] that assms(5) by (simp add: Let_def len flip: assms(3))
  then have "concat (map (\<lambda>k. drop (length (show_nat (card (dom lock)) @ newline))
           (fst (server_check_cmd ls e h (blocker_page_cmd k) s))) [0..<n])
      = concat (map (\<lambda>k. concat (map (blocker_row (e_now e)) (take 10 (drop (10 * k) ?rows)))) [0..<n])"
    by (intro arg_cong [where f = concat] map_cong) auto
  also have "\<dots> = concat (map (blocker_row (e_now e)) ?rows)"
    unfolding pages_cover using assms(4) len by simp
  finally show ?thesis using keys by (simp add: table_rows_def comp_def)
qed

definition sample_listing :: listing where
  "sample_listing = \<lparr>ls_order = \<lambda>A. sorted_list_of_set A, ls_stamp = \<lambda>_. []\<rparr>"

lemma pages_show_table_witness:
  "concat (map (\<lambda>k. drop (length (show_nat 1 @ newline))
        (fst (server_check_cmd sample_listing (sample_env 0) sample_handle (blocker_page_cmd k)
           (fresh_shared\<lparr>ip_blocker := [''10.0.0.1'' \<mapsto> ((2, 0), ({||}, 0))]\<rparr>)))) [0..<1])
    = blocker_row 0 (''10.0.0.1'', (2, 0), ({||}, 0))"
proof -
  let ?lock = "[''10.0.0.1'' \<mapsto> ((2 :: nat, 0 :: nat), ({||} :: string fset, 0 :: nat))]"
  have keep: "retain_blocker 0 ?lock = ?lock" by (rule ext) (simp add: retain_blocker_def)
  have all: "reads_all sample_listing" by (simp add: reads_all_def sample_listing_def)
  have rows: "table_rows sample_listing ?lock = [(''10.0.0.1'', (2, 0), ({||}, 0))]"
    by (simp add: table_rows_def sample_listing_def)
  from pages_show_table [OF all, of "fresh_shared\<lparr>ip_blocker := ?lock\<rparr>" ?lock "sample_env 0" 1 sample_handle]
  show ?thesis by (simp add: keep rows)
qed

subsection \<open>What a command may do\<close>

lemma admin_tables:
  "ip_blocker (snd (server_check_cmd ls e h cmd s)) = ip_blocker s \<or>
     (\<exists>name args. split_on CHR '' '' (trim cmd) = name # args \<and> (name = ''ip-blocker'' \<or> name = ''ib'') \<and>
        ip_blocker (snd (server_check_cmd ls e h cmd s)) = snd (ip_blocker_cmd ls (e_now e) args (ip_blocker s)))"
  by (cases "split_on CHR '' '' (trim cmd)")
    (auto simp: server_check_cmd_def case_prod_beta Let_def relay_servers_cmd_def always_use_relay_cmd_def
      test_geo_cmd_def tx_send_def split: option.split)

lemma server_check_cmd_frame [simp]:
  "pmap (snd (server_check_cmd ls e h cmd s)) = pmap s"
  "tcp_punch (snd (server_check_cmd ls e h cmd s)) = tcp_punch s"
  "udp_out (snd (server_check_cmd ls e h cmd s)) = udp_out s"
  "sink_out (snd (server_check_cmd ls e h cmd s)) = sink_out s"
  "spawned (snd (server_check_cmd ls e h cmd s)) = spawned s"
  by (auto simp: server_check_cmd_def case_prod_beta Let_def relay_servers_cmd_def always_use_relay_cmd_def
      test_geo_cmd_def tx_send_def get_relay_server_def split: option.split)

lemma ip_blocker_cmd_scope:
  "snd (ip_blocker_cmd ls now args lock) ip = retain_blocker now lock ip \<or>
     (snd (ip_blocker_cmd ls now args lock) ip = None \<and> arg 0 args = Some ip \<and> arg 1 args = Some ''-'')"
  by (auto simp: ip_blocker_cmd_def Let_def split: option.split)

lemma admin_blocker:
  assumes "s' = snd (server_check_cmd ls e h cmd s)"
  shows "ip_blocker s' ip = ip_blocker s ip \<or>
     ip_blocker s' ip = None \<and>
       ((\<exists>a b. ip_blocker s ip = Some (a, b) \<and> IP_BLOCK_DUR < elapsed_secs (e_now e) (snd a) \<and>
           DAY_SECONDS < elapsed_secs (e_now e) (snd b)) \<or>
        (\<exists>name rest. split_on CHR '' '' (trim cmd) = name # ip # ''-'' # rest))"
proof -
  have two: "\<exists>rest. args = ip # ''-'' # rest" if "arg 0 args = Some ip" "arg 1 args = Some ''-''" for args
    using that by (cases args; cases "tl args") (auto simp: arg_def split: if_splits)
  show ?thesis
    using admin_tables [of ls e h cmd s] ip_blocker_cmd_scope [of ls "e_now e" _ "ip_blocker s" ip]
      retain_blocker_cases [of "e_now e" "ip_blocker s" ip] two
    unfolding assms by metis
qed

text \<open>
  C20. What an administrator's command may do: no command touches the peers, the waiting connections or
  anything already sent, and a command drops an address from the throttle only
  when both of its clocks have run out or the command names it with a minus sign.
\<close>

theorem admin_scope:
  assumes "s' = snd (server_check_cmd ls e h cmd s)"
  shows "pmap s' = pmap s \<and> tcp_punch s' = tcp_punch s \<and> udp_out s' = udp_out s \<and> sink_out s' = sink_out s \<and>
    (ip_blocker s' ip = ip_blocker s ip \<or>
     ip_blocker s' ip = None \<and>
       ((\<exists>a b. ip_blocker s ip = Some (a, b) \<and> IP_BLOCK_DUR < elapsed_secs (e_now e) (snd a) \<and>
           DAY_SECONDS < elapsed_secs (e_now e) (snd b)) \<or>
        (\<exists>name rest. split_on CHR '' '' (trim cmd) = name # ip # ''-'' # rest)))"
  unfolding assms using admin_blocker [OF refl, of ls e h cmd s ip] by simp

lemma admin_scope_witness:
  "pmap (snd (server_check_cmd sample_listing (sample_env 0) sample_handle ''ib 10.0.0.1 -'' (sample_shared 0)))
    = sample_pm 0"
  using admin_scope [OF refl, of sample_listing "sample_env 0" sample_handle "''ib 10.0.0.1 -''" "sample_shared 0"]
  by (metis sample_shared_pmap)

lemma server_check_cmd_ok: "shared_ok s \<Longrightarrow> shared_ok (snd (server_check_cmd ls e h cmd s))"
proof -
  assume ok: "shared_ok s"
  have "blocker_ok (ip_blocker (snd (server_check_cmd ls e h cmd s)))"
    unfolding blocker_ok_def
  proof (intro allI impI)
    fix ip v assume "ip_blocker (snd (server_check_cmd ls e h cmd s)) ip = Some v"
    with admin_blocker [OF refl, of ls e h cmd s ip] have "ip_blocker s ip = Some v" by auto
    with ok show "entry_ok v" using blocker_okD by blast
  qed
  with ok show ?thesis by (simp add: shared_ok_def)
qed

end
