(* ===== verification/Health_Check.thy ===== *)
theory Health_Check
  imports Udp_Server Server_Admin "HOL-Library.Multiset"
begin

text \<open>
  The two tasks of \<open>src/rendezvous_server.rs\<close> that probe servers: \<open>check_relay_servers\<close>, started every three seconds by
  \<open>io_loop\<close>, which keeps the relay servers that accept a connection, and \<open>test_hbbs\<close>, which sends the server a heartbeat
  every second and ends the process when no answer came for too long. The network is a parameter: which hosts accept, in which
  order the connections complete, and when datagrams arrive.
\<close>

subsection \<open>Relay servers\<close>

text \<open>\<open>port\<close> is \<open>RELAY_PORT\<close> of \<open>hbb_common::config\<close>.\<close>

definition relay_host :: "nat \<Rightarrow> string \<Rightarrow> string" where
  "relay_host port x = (if CHR '':'' \<in> set x then x else x @ CHR '':'' # show_nat port)"

text \<open>The probes push in the order in which they complete, \<open>finished\<close>.\<close>

definition check_relay_servers ::
  "env \<Rightarrow> nat \<Rightarrow> (string \<Rightarrow> bool) \<Rightarrow> string list \<Rightarrow> shared \<Rightarrow> shared" where
  "check_relay_servers e port accepts finished s =
     (let rs = filter (\<lambda>x. accepts (relay_host port x)) finished
      in if rs \<noteq> [] then fst (tx_send e (RelayServers rs) s) else s)"

lemma check_relay_servers_frame [simp]:
  "pmap (check_relay_servers e port acc fin s) = pmap s"
  "tcp_punch (check_relay_servers e port acc fin s) = tcp_punch s"
  "sink_out (check_relay_servers e port acc fin s) = sink_out s"
  "ip_blocker (check_relay_servers e port acc fin s) = ip_blocker s"
  "shared_ok (check_relay_servers e port acc fin s) = shared_ok s"
  by (simp_all add: check_relay_servers_def tx_send_def Let_def shared_ok_def)

text \<open>
  A round of health checks leaves the relay servers that answered: once its message
  is handled, clients are sent to exactly the configured servers that accepted a connection, and when none did the list stays as it
  was, so that there is always a relay server to name if there was one.
\<close>

theorem relay_check_round:
  assumes "mset finished = mset (h_relay_servers0 h)" and "e_rx_open e" and "tx s = []"
    and "s' = check_relay_servers e port accepts finished s"
    and "h' = (case tx s' of d # _ \<Rightarrow> fst (handle_data x e d h s') | [] \<Rightarrow> h)"
  shows "(if \<exists>r \<in> set (h_relay_servers0 h). accepts (relay_host port r)
          then mset (h_relay_servers h') =
            filter_mset (\<lambda>r. accepts (relay_host port r)) (mset (h_relay_servers0 h))
          else h' = h) \<and>
    (h_relay_servers h \<noteq> [] \<longrightarrow> h_relay_servers h' \<noteq> [])"
proof -
  let ?rs = "filter (\<lambda>x. accepts (relay_host port x)) finished"
  have some: "?rs \<noteq> [] \<longleftrightarrow> (\<exists>r \<in> set (h_relay_servers0 h). accepts (relay_host port r))"
    using arg_cong [OF assms(1), of set_mset] by (auto simp: filter_empty_conv)
  have new: "mset ?rs = filter_mset (\<lambda>r. accepts (relay_host port r)) (mset (h_relay_servers0 h))"
    using assms(1) by simp
  show ?thesis
  proof (cases "?rs = []")
    case True
    then have "h' = h" using assms(3,4,5) by (simp add: check_relay_servers_def)
    with True some show ?thesis by simp
  next
    case False
    then have "h_relay_servers h' = ?rs"
      using assms(2-5) by (simp add: check_relay_servers_def tx_send_def)
    with False some new show ?thesis by simp
  qed
qed

lemma relay_check_round_witness:
  "\<exists>h' :: handle. mset (h_relay_servers h') = mset [''r2'']"
proof -
  define acc :: "string \<Rightarrow> bool" where "acc = (\<lambda>host. hd (tl host) = CHR ''2'')"
  define s' where "s' = check_relay_servers (sample_env 0) 21117 acc [''r2'', ''r1''] fresh_shared"
  define h' where "h' = (case tx s' of d # _ \<Rightarrow> fst (handle_data sample_ext (sample_env 0) d sample_handle s')
      | [] \<Rightarrow> sample_handle)"
  have r0: "h_relay_servers0 sample_handle = [''r1'', ''r2'']" by (simp add: sample_handle_def)
  have acc: "\<not> acc (relay_host 21117 ''r1'')" "acc (relay_host 21117 ''r2'')"
    by (simp_all add: relay_host_def acc_def)
  have "mset (h_relay_servers h') = filter_mset (\<lambda>r. acc (relay_host 21117 r)) (mset [''r1'', ''r2''])"
    using relay_check_round [OF _ _ _ s'_def h'_def] acc unfolding r0 by simp
  with acc have "mset (h_relay_servers h') = mset [''r2'']" by simp
  then show ?thesis by (rule exI)
qed

text \<open>
  The command \<open>always-use-relay\<close> takes the relay servers away: its argument is also sent as the new list of
  relay servers, so once it is handled, unless its argument happens to name a host, clients are sent to no relay server at all.
\<close>

theorem always_use_relay_drops_relays:
  assumes "h_relay_servers h \<noteq> []" and "e_rx_open e" and "tx s = []" and "\<not> test_if_valid_server x ''Y''"
    and "s1 = snd (server_check_cmd ls e h ''always-use-relay Y'' s)"
    and "(h', s') = handle_data x e (hd (tx s1)) h (s1\<lparr>tx := []\<rparr>)"
  shows "always_use_relay s' \<and> fst (get_relay_server h s) \<in> set (h_relay_servers h) \<and>
    fst (get_relay_server h' s') = []"
proof -
  have "split_on CHR '' '' (trim ''always-use-relay Y'') = [''always-use-relay'', ''Y'']"
    by (simp add: trim_def is_space_def)
  then have s1: "s1 = s\<lparr>always_use_relay := True, tx := [RelayServers0 ''Y'']\<rparr>"
    using assms(2,3,5) by (simp add: server_check_cmd_def always_use_relay_cmd_def arg_def tx_send_def
        to_uppercase_def upper_char_def)
  then have "h' = parse_relay_servers x ''Y'' h" "always_use_relay s'"
    using assms(6) by simp_all
  moreover have "get_servers x ''Y'' = []" using assms(4) by (simp add: get_servers_def)
  ultimately show ?thesis
    using get_relay_server_mem [OF assms(1)] by (simp add: parse_relay_servers_def get_relay_server_def)
qed

lemma always_use_relay_drops_relays_witness:
  "\<exists>(h' :: handle) (s' :: shared). always_use_relay s' \<and> fst (get_relay_server h' s') = []"
  using always_use_relay_drops_relays [of sample_handle "sample_env 0" fresh_shared
      "sample_ext\<lparr>x_resolves := \<lambda>_. False\<rparr>" _ sample_listing, OF _ _ _ _ refl prod.collapse]
  by (auto simp: sample_handle_def test_if_valid_server_def)

subsection \<open>The self test\<close>

text \<open>
  \<open>test_hbbs\<close>: a tick of the timer gives up when the last datagram is more than 12 s back and otherwise sends a heartbeat
  (which may fail); a datagram that parses restarts the wait. The events are those of the \<open>select\<close> loop.
\<close>

datatype probe_event = Probe_Tick instant bool | Probe_Recv instant bytes

datatype probe_end = Timed_Out | Send_Error

fun test_hbbs_loop :: "externals \<Rightarrow> instant \<Rightarrow> probe_event list \<Rightarrow> probe_end + instant" where
  "test_hbbs_loop x last_recv [] = Inr last_recv"
| "test_hbbs_loop x last_recv (Probe_Tick now sent # evs) =
     (if 12 < elapsed_secs now last_recv then Inl Timed_Out
      else if sent then test_hbbs_loop x last_recv evs
      else Inl Send_Error)"
| "test_hbbs_loop x last_recv (Probe_Recv now bs # evs) =
     test_hbbs_loop x (if x_decode x bs = None then last_recv else now) evs"

definition test_hbbs_target :: "socket_addr \<Rightarrow> socket_addr" where
  "test_hbbs_target addr =
     (if is_unspecified (sa_ip addr) then
        (case addr of
           SocketV4 _ p \<Rightarrow> SocketV4 2130706433 p
         | SocketV6 _ p f sc \<Rightarrow> SocketV6 1 p f sc)
      else addr)"

definition test_hbbs_msg :: rmsg where
  "test_hbbs_msg = RegisterPeer \<lparr>rp_id = ''(:test_hbbs:)'', rp_serial = 0\<rparr>"

text \<open>\<open>start\<close>: the process is ended unless a second try over IPv4 is due, for the IPv6 wildcard address.\<close>

definition retry_target :: "socket_addr \<Rightarrow> socket_addr option" where
  "retry_target addr =
     (case addr of
        SocketV6 a p _ _ \<Rightarrow> if a = 0 then Some (SocketV4 0 p) else None
      | SocketV4 _ _ \<Rightarrow> None)"

fun last_answer :: "externals \<Rightarrow> instant \<Rightarrow> probe_event list \<Rightarrow> instant" where
  "last_answer x t [] = t"
| "last_answer x t (Probe_Tick now sent # evs) = last_answer x t evs"
| "last_answer x t (Probe_Recv now bs # evs) = last_answer x (if x_decode x bs = None then t else now) evs"

text \<open>One try goes on exactly while every tick sends its heartbeat within 12 s of the last answer.\<close>

lemma test_hbbs_loop_running:
  "(\<exists>t. test_hbbs_loop x t0 evs = Inr t) \<longleftrightarrow>
     (\<forall>as now sent bs. evs = as @ Probe_Tick now sent # bs \<longrightarrow>
        sent \<and> elapsed_secs now (last_answer x t0 as) \<le> 12)"
proof (induction evs arbitrary: t0)
  case (Cons ev evs)
  have split: "(\<forall>as now sent bs. ev # evs = as @ Probe_Tick now sent # bs \<longrightarrow> Q as now sent) \<longleftrightarrow>
      (\<forall>now sent. ev = Probe_Tick now sent \<longrightarrow> Q [] now sent) \<and>
      (\<forall>as now sent bs. evs = as @ Probe_Tick now sent # bs \<longrightarrow> Q (ev # as) now sent)" for Q
    by (auto simp: Cons_eq_append_conv)
  show ?case
    unfolding split using Cons by (cases ev) auto
qed simp

lemma heartbeat_answered:
  assumes "x_decode x msg = Some (Some test_hbbs_msg)" and "\<And>m a. e_send e m a"
  shows "\<exists>request_pk. (RegisterPeerResponse request_pk, addr)
    \<in> set (udp_out (fst (snd (handle_udp x e key msg addr h s))))"
proof -
  have "\<exists>request_pk s1. update_addr e pid addr s = (s1, Inr ()) \<and>
      (RegisterPeerResponse request_pk, addr) \<in> set (udp_out s1)" for pid
    using assms(2) by (auto simp: update_addr_def udp_send_def Let_def split: option.split)
  then obtain request_pk s1 where u: "update_addr e ''(:test_hbbs:)'' addr s = (s1, Inr ())"
    "(RegisterPeerResponse request_pk, addr) \<in> set (udp_out s1)" by blast
  have "fst (snd (handle_udp x e key msg addr h s)) =
      fst (if 0 <s in_serial (h_inner h) then udp_send e (ConfigureUpdate (config_update_of h)) addr s1
        else (s1, Inr ()))"
    using assms(1) u(1) by (simp add: handle_udp_def test_hbbs_msg_def handle_register_peer_def)
  with u(2) have "(RegisterPeerResponse request_pk, addr)
      \<in> set (udp_out (fst (snd (handle_udp x e key msg addr h s))))"
    by (simp add: udp_send_def split: if_splits)
  then show ?thesis ..
qed

end
