(* ===== verification/Utf8.thy ===== *)
theory Utf8
  imports Prelude
begin

text \<open>
  \<open>std::str::from_utf8\<close> as both servers use it on the bytes of an administrator's connection (\<open>handle_listener2\<close> of
  \<open>src/rendezvous_server.rs\<close>, \<open>handle_connection\<close> of \<open>src/relay_server.rs\<close>): the bytes as text when they are
  well-formed UTF-8, and what such a connection hands to \<open>check_cmd\<close>.
\<close>

definition between :: "byte \<Rightarrow> byte \<Rightarrow> byte \<Rightarrow> bool" where
  "between a b c \<longleftrightarrow> a \<le> c \<and> c \<le> b"

definition tail_byte :: "byte \<Rightarrow> bool" where
  "tail_byte c \<longleftrightarrow> between 0x80 0xBF c"

text \<open>Well-formed sequences: the table of the Unicode standard, without overlong forms and surrogates.\<close>

fun utf8_ok :: "bytes \<Rightarrow> bool" where
  "utf8_ok [] = True"
| "utf8_ok (a # bs) =
     (if a < 0x80 then utf8_ok bs
      else (case bs of
         [] \<Rightarrow> False
       | b # cs \<Rightarrow>
           if between 0xC2 0xDF a then tail_byte b \<and> utf8_ok cs
           else (case cs of
              [] \<Rightarrow> False
            | c # ds \<Rightarrow>
                if a = 0xE0 then between 0xA0 0xBF b \<and> tail_byte c \<and> utf8_ok ds
                else if a = 0xED then between 0x80 0x9F b \<and> tail_byte c \<and> utf8_ok ds
                else if between 0xE1 0xEF a then tail_byte b \<and> tail_byte c \<and> utf8_ok ds
                else (case ds of
                   [] \<Rightarrow> False
                 | d # es \<Rightarrow>
                     if a = 0xF0 then between 0x90 0xBF b \<and> tail_byte c \<and> tail_byte d \<and> utf8_ok es
                     else if between 0xF1 0xF3 a then tail_byte b \<and> tail_byte c \<and> tail_byte d \<and> utf8_ok es
                     else if a = 0xF4 then between 0x80 0x8F b \<and> tail_byte c \<and> tail_byte d \<and> utf8_ok es
                     else False))))"

definition byte_char :: "byte \<Rightarrow> char" where
  "byte_char b = char_of (unat b)"

definition char_byte :: "char \<Rightarrow> byte" where
  "char_byte c = word_of_nat (of_char c)"

lemma byte_char_inverse [simp]: "char_byte (byte_char b) = b" "byte_char (char_byte c) = c"
proof -
  have "of_char c < (256 :: nat)" by (rule nat_of_char_less_256)
  then show "byte_char (char_byte c) = c" by (simp add: byte_char_def char_byte_def unat_of_nat)
  have "unat b < 256" using unsigned_less [of b, where ?'a = nat] by simp
  then show "char_byte (byte_char b) = b" by (simp add: byte_char_def char_byte_def)
qed

definition from_utf8 :: "bytes \<Rightarrow> string option" where
  "from_utf8 bs = (if utf8_ok bs then Some (map byte_char bs) else None)"

text \<open>
  An administrator's connection: one \<open>read\<close> into a buffer of 1024 bytes, within a second (otherwise, or on an
  error, \<^const>\<open>None\<close>), and the text of what came.
\<close>

definition admin_input :: "bytes option \<Rightarrow> string option" where
  "admin_input arrived = Option.bind arrived (\<lambda>bs. from_utf8 (take 1024 bs))"

text \<open>A command in ASCII that fits the buffer reaches \<open>check_cmd\<close> as it was typed.\<close>

definition ascii :: "string \<Rightarrow> bool" where
  "ascii s \<longleftrightarrow> list_all (\<lambda>c. of_char c < (128 :: nat)) s"

lemma utf8_ok_ascii: "list_all (\<lambda>b. b < 0x80) bs \<Longrightarrow> utf8_ok bs"
  by (induction bs) (auto split: list.split)

lemma char_byte_ascii: "of_char c < (128 :: nat) \<Longrightarrow> char_byte c < 0x80"
  by (simp add: char_byte_def word_less_nat_alt unat_of_nat)

lemma admin_input_typed:
  assumes "ascii s" and "length s \<le> 1024"
  shows "admin_input (Some (map char_byte s)) = Some s"
proof -
  have "utf8_ok (map char_byte s)"
    using assms(1) by (intro utf8_ok_ascii) (auto simp: ascii_def list_all_iff char_byte_ascii)
  then show ?thesis using assms(2) by (simp add: admin_input_def from_utf8_def o_def)
qed

lemma admin_input_length: "admin_input (Some bs) = Some s \<Longrightarrow> length s \<le> 1024"
  by (auto simp: admin_input_def from_utf8_def split: if_splits)

text \<open>A command cut inside a character is not carried out at all.\<close>

lemma admin_input_cut: "admin_input (Some (replicate 1023 0x61 @ [0xC3, 0xA9])) = None"
proof -
  have "utf8_ok (replicate n 0x61 @ [0xC3]) = False" for n
    by (induction n) (simp_all add: between_def)
  then show ?thesis by (simp add: admin_input_def from_utf8_def)
qed

end
