(* ===== verification/Server.thy ===== *)
theory Server
  imports Sinks Persistence Health_Check Utf8
begin

text \<open>
  The rendezvous server as a whole: the main loop's value, the shared state and the open
  connections, with one step for everything that can happen next (a datagram, a message on the channel, a spawned
  task, a new connection, a frame, the end of a connection, a tick of the relay timer, the end of a round of relay checks, an
  administrator's connection, with the value the main loop had when it came, and its command, a connection from elsewhere to the NAT-test port
  (\<open>sv_nat\<close>) and the reply to its one frame (\<open>sv_replies\<close>), the failure of a socket). A socket that fails, or a datagram whose handler fails, stops the main
  loop (\<open>sv_failed\<close>), while connections and tasks go on, until the socket has been opened again. Handlers are atomic, and
  connections and tasks interleave freely. The parameter \<open>P\<close> says which worlds the steps may
  meet, for instance those where the database answers.
\<close>

datatype loop_failure = UdpSocket | Listener3 | Listener2 | Listener

record server =
  sv_handle :: handle
  sv_shared :: shared
  sv_conns :: "nat \<rightharpoonup> conn"
  sv_next :: nat
  sv_checks :: "string list list"
  sv_admins :: "handle list"
  sv_nat :: "socket_addr list"
  sv_replies :: "(socket_addr \<times> rmsg) list"
  sv_failed :: "loop_failure option"

text \<open>What \<open>start\<close> builds from the arguments, the environment and the database file.\<close>

definition start_server ::
  "externals \<Rightarrow> db option \<Rightarrow> inner \<Rightarrow> string \<Rightarrow> string \<Rightarrow> string \<Rightarrow> server" where
  "start_server x file cfg rendezvous_arg relay_arg always_var =
     \<lparr>sv_handle = parse_relay_servers x relay_arg
        \<lparr>h_relay_servers = [], h_relay_servers0 = [],
         h_rendezvous_servers = get_servers x rendezvous_arg, h_inner = cfg\<rparr>,
      sv_shared =
        \<lparr>tcp_punch = (\<lambda>_. None), pmap = pm_new file, tx = [], udp_out = [], sink_out = [],
         ip_blocker = (\<lambda>_. None), ip_changes = (\<lambda>_. None), punch_reqs = [], rotation = 0,
         always_use_relay = (always_var = ''Y'' \<or> always_var = ''y''), spawned = []\<rparr>,
      sv_conns = (\<lambda>_. None), sv_next = 0, sv_checks = [], sv_admins = [],
      sv_nat = [], sv_replies = [], sv_failed = None\<rparr>"

text \<open>An error of the datagram's handler ends \<open>io_loop\<close>, like an error of the socket itself.\<close>

fun udp_failure :: "result \<Rightarrow> loop_failure option" where
  "udp_failure (Inl _) = Some UdpSocket"
| "udp_failure (Inr _) = None"

inductive server_step :: "externals \<Rightarrow> string \<Rightarrow> (env \<Rightarrow> bool) \<Rightarrow> server \<Rightarrow> server \<Rightarrow> bool"
  for x :: externals and key :: string and P :: "env \<Rightarrow> bool" where
  Datagram: "sv_failed v = None \<Longrightarrow> P e \<Longrightarrow>
    handle_udp x e key bs addr (sv_handle v) (sv_shared v) = (h', s', r) \<Longrightarrow>
    server_step x key P v (v\<lparr>sv_handle := h', sv_shared := s', sv_failed := udp_failure r\<rparr>)"
| Select_Failed: "sv_failed v = None \<Longrightarrow> server_step x key P v (v\<lparr>sv_failed := Some f\<rparr>)"
| Channel: "sv_failed v = None \<Longrightarrow> P e \<Longrightarrow> tx (sv_shared v) = d # ds \<Longrightarrow>
    handle_data x e d (sv_handle v) ((sv_shared v)\<lparr>tx := ds\<rparr>) = (h', s') \<Longrightarrow>
    server_step x key P v (v\<lparr>sv_handle := h', sv_shared := s'\<rparr>)"
| Task: "P e \<Longrightarrow> spawned (sv_shared v) = ts @ t # us \<Longrightarrow>
    s' = run_task x e t ((sv_shared v)\<lparr>spawned := ts @ us\<rparr>) \<Longrightarrow>
    server_step x key P v (v\<lparr>sv_shared := s'\<rparr>)"
| Accept: "sv_failed v = None \<Longrightarrow> n = sv_next v \<Longrightarrow>
    c = \<lparr>c_handle = sv_handle v, c_addr = addr, c_ws = ws, c_sink = Some (sink_of ws n)\<rparr> \<Longrightarrow>
    server_step x key P v (v\<lparr>sv_conns := (sv_conns v)(n \<mapsto> c), sv_next := Suc n\<rparr>)"
| Frame: "P e \<Longrightarrow> sv_conns v n = Some c \<Longrightarrow>
    handle_tcp x e (c_handle c) key bs (c_sink c) (c_addr c) (c_ws c) (sv_shared v) = (True, sk, s') \<Longrightarrow>
    server_step x key P v (v\<lparr>sv_shared := s', sv_conns := (sv_conns v)(n \<mapsto> c\<lparr>c_sink := sk\<rparr>)\<rparr>)"
| Last_Frame: "P e \<Longrightarrow> sv_conns v n = Some c \<Longrightarrow>
    handle_tcp x e (c_handle c) key bs (c_sink c) (c_addr c) (c_ws c) (sv_shared v) = (False, sk, s') \<Longrightarrow>
    server_step x key P v (v\<lparr>sv_shared := close_connection x (c_addr c) sk s',
      sv_conns := (sv_conns v)(n := None)\<rparr>)"
| Eof: "sv_conns v n = Some c \<Longrightarrow>
    server_step x key P v (v\<lparr>sv_shared := close_connection x (c_addr c) (c_sink c) (sv_shared v),
      sv_conns := (sv_conns v)(n := None)\<rparr>)"
| Relay_Tick: "sv_failed v = None \<Longrightarrow> 1 < length (h_relay_servers0 (sv_handle v)) \<Longrightarrow>
    server_step x key P v (v\<lparr>sv_checks := sv_checks v @ [h_relay_servers0 (sv_handle v)]\<rparr>)"
| Relay_Checked: "P e \<Longrightarrow> sv_checks v = cs @ rs # ds \<Longrightarrow> mset finished = mset rs \<Longrightarrow>
    s' = check_relay_servers e port accepts finished (sv_shared v) \<Longrightarrow>
    server_step x key P v (v\<lparr>sv_shared := s', sv_checks := cs @ ds\<rparr>)"
| Admin_Accept: "sv_failed v = None \<Longrightarrow> is_loopback (sa_ip (x_into_v4 x addr)) \<Longrightarrow>
    server_step x key P v (v\<lparr>sv_admins := sv_admins v @ [sv_handle v]\<rparr>)"
| Admin_Command: "P e \<Longrightarrow> sv_admins v = hs @ h # gs \<Longrightarrow> admin_input arrived = Some cmd \<Longrightarrow>
    s' = snd (server_check_cmd ls e h cmd (sv_shared v)) \<Longrightarrow>
    server_step x key P v (v\<lparr>sv_shared := s', sv_admins := hs @ gs\<rparr>)"
| Admin_Gone: "sv_admins v = hs @ h # gs \<Longrightarrow> admin_input arrived = None \<Longrightarrow>
    server_step x key P v (v\<lparr>sv_admins := hs @ gs\<rparr>)"
| Nat_Accept: "sv_failed v = None \<Longrightarrow> \<not> is_loopback (sa_ip (x_into_v4 x addr)) \<Longrightarrow>
    server_step x key P v (v\<lparr>sv_nat := sv_nat v @ [addr]\<rparr>)"
| Nat_Frame: "P e \<Longrightarrow> sv_nat v = as @ a # bs \<Longrightarrow>
    answer = listener2_reply x (e_now e) a frame (pmap (sv_shared v)) \<Longrightarrow>
    server_step x key P v (v\<lparr>sv_nat := as @ bs,
      sv_replies := sv_replies v @ (case answer of None \<Rightarrow> [] | Some m \<Rightarrow> [(a, m)])\<rparr>)"
| Nat_Gone: "sv_nat v = as @ a # bs \<Longrightarrow> server_step x key P v (v\<lparr>sv_nat := as @ bs\<rparr>)"

inductive server_reaches :: "externals \<Rightarrow> string \<Rightarrow> (env \<Rightarrow> bool) \<Rightarrow> server \<Rightarrow> server \<Rightarrow> bool"
  for x :: externals and key :: string and P :: "env \<Rightarrow> bool" and v0 :: server where
  Start: "server_reaches x key P v0 v0"
| Step: "server_reaches x key P v0 v \<Longrightarrow> server_step x key P v v' \<Longrightarrow> server_reaches x key P v0 v'"
| Reopened: "server_reaches x key P v0 v \<Longrightarrow> server_reaches x key P v0 (v\<lparr>sv_failed := None\<rparr>)"

subsection \<open>The shared state over whole runs\<close>

lemma close_connection_frame [simp]:
  "pmap (close_connection x a sk s) = pmap s" "shared_ok (close_connection x a sk s) = shared_ok s"
  "sink_out (close_connection x a sk s) = sink_out s"
  by (simp_all add: close_connection_def remove_sink_def)

lemma server_step_ok: "server_step x key P v v' \<Longrightarrow> shared_ok (sv_shared v) \<Longrightarrow> shared_ok (sv_shared v')"
proof (induction rule: server_step.induct)
  case (Datagram v e bs addr h' s' r)
  then show ?case using handle_udp_ok [of "sv_shared v" x e key bs addr "sv_handle v"] by simp
next
  case (Channel v e d ds h' s')
  then show ?case using handle_data_ok [of "(sv_shared v)\<lparr>tx := ds\<rparr>" x e d "sv_handle v"] by simp
next
  case (Task e v ts t us s')
  then show ?case using run_task_ok by simp
next
  case (Frame e v n c bs sk s')
  then show ?case
    using handle_tcp_ok [of "sv_shared v" x e "c_handle c" key bs "c_sink c" "c_addr c" "c_ws c"] by simp
next
  case (Last_Frame e v n c bs sk s')
  then show ?case
    using handle_tcp_ok [of "sv_shared v" x e "c_handle c" key bs "c_sink c" "c_addr c" "c_ws c"] by simp
qed (simp_all add: server_check_cmd_ok)

lemma server_reaches_ok:
  "server_reaches x key P v0 v \<Longrightarrow> shared_ok (sv_shared v0) \<Longrightarrow> shared_ok (sv_shared v)"
  by (induction rule: server_reaches.induct) (auto intro: server_step_ok)

text \<open>A table as \<open>insert_peer\<close> and \<open>update_pk\<close> leave it on disk.\<close>

definition file_ok :: "db option \<Rightarrow> bool" where
  "file_ok file \<longleftrightarrow> db_wf (create_tables file) \<and> (\<forall>r \<in> set (create_tables file). r_uuid r \<noteq> [])"

lemma start_server_ok: "file_ok file \<Longrightarrow> shared_ok (sv_shared (start_server x file cfg ra rl av))"
  by (simp add: start_server_def shared_ok_def pm_wf_def pm_coh_def pm_new_def peer_of_def
      blocker_ok_def file_ok_def)

lemma server_step_bound:
  assumes "server_step x key e_db_read v v'" and "shared_ok (sv_shared v)"
    and "bound_uuid x (pmap (sv_shared v)) q = Some u"
  shows "bound_uuid x (pmap (sv_shared v')) q = Some u"
  using assms
proof (induction rule: server_step.induct)
  case (Datagram v e bs addr h' s' r)
  then show ?case using handle_udp_bound [of "sv_shared v" e x q u key bs addr "sv_handle v"] by simp
next
  case (Channel v e d ds h' s')
  then show ?case using handle_data_bound [of x e d "sv_handle v" "(sv_shared v)\<lparr>tx := ds\<rparr>"] by simp
next
  case (Task e v ts t us s')
  then show ?case using run_task_bound [of "(sv_shared v)\<lparr>spawned := ts @ us\<rparr>" e x t q] by simp
next
  case (Frame e v n c bs sk s')
  then show ?case
    using handle_tcp_bound [of "sv_shared v" e x "c_handle c" key bs "c_sink c" "c_addr c" "c_ws c" q]
    by (simp add: bound_uuid_def)
next
  case (Last_Frame e v n c bs sk s')
  then show ?case
    using handle_tcp_bound [of "sv_shared v" e x "c_handle c" key bs "c_sink c" "c_addr c" "c_ws c" q]
    by (simp add: bound_uuid_def)
qed simp_all

lemma server_reaches_bound:
  "server_reaches x key e_db_read v0 v \<Longrightarrow> shared_ok (sv_shared v0) \<Longrightarrow>
     bound_uuid x (pmap (sv_shared v0)) q = Some u \<Longrightarrow> bound_uuid x (pmap (sv_shared v)) q = Some u"
  by (induction rule: server_reaches.induct) (auto intro: server_step_bound server_reaches_ok)

text \<open>
  C4. In every state any run of the server reaches, from any table file, whatever clients
  send and even when the database fails: the peer map has no dangling or shared handle and distinct keys, every
  peer with a \<open>guid\<close> agrees with its row, and each address's counters stay within 31
  attempts and 301 ids.
\<close>

theorem server_invariant:
  assumes "file_ok file" and "server_reaches x key P (start_server x file cfg ra rl av) v"
  shows "pm_wf (pmap (sv_shared v)) \<and> pm_coh (pmap (sv_shared v)) \<and> blocker_ok (ip_blocker (sv_shared v))"
  using server_reaches_ok [OF assms(2) start_server_ok [OF assms(1)]] by (simp add: shared_ok_def)

text \<open>
  C3. No run rebinds an id: while the database answers reads, an id that is bound to a \<open>uuid\<close>, in
  memory or in the table, stays bound to it, whatever datagrams, connections and tasks come in any order.
\<close>

theorem uuid_pinned:
  assumes "shared_ok (sv_shared v)" and "bound_uuid x (pmap (sv_shared v)) q = Some u"
    and "server_reaches x key e_db_read v v'"
  shows "bound_uuid x (pmap (sv_shared v')) q = Some u"
  using server_reaches_bound [OF assms(3,1,2)] .

subsection \<open>Witnesses\<close>

definition attack_ext :: "register_pk \<Rightarrow> externals" where
  "attack_ext rk = sample_ext\<lparr>x_decode := \<lambda>_. Some (Some (RegisterPk rk))\<rparr>"

definition sample_server :: "instant \<Rightarrow> server" where
  "sample_server t =
     \<lparr>sv_handle = sample_handle, sv_shared = sample_shared t, sv_conns = (\<lambda>_. None), sv_next = 0, sv_checks = [], sv_admins = [],
      sv_nat = [], sv_replies = [], sv_failed = None\<rparr>"

lemma datagram_reaches:
  "P e \<Longrightarrow> sv_failed v = None \<Longrightarrow> server_reaches x key P v
     (v\<lparr>sv_handle := fst (handle_udp x e key bs addr (sv_handle v) (sv_shared v)),
        sv_shared := fst (snd (handle_udp x e key bs addr (sv_handle v) (sv_shared v))),
        sv_failed := udp_failure (snd (snd (handle_udp x e key bs addr (sv_handle v) (sv_shared v))))\<rparr>)"
  by (rule server_reaches.Step [OF server_reaches.Start server_step.Datagram [where bs = bs
        and addr = addr and r = "snd (snd (handle_udp x e key bs addr (sv_handle v) (sv_shared v)))"]])
    simp_all

text \<open>A fresh server that takes its first registration.\<close>

lemma server_invariant_witness:
  "\<exists>v. server_reaches (attack_ext sample_rk) [] (\<lambda>_. True)
      (start_server (attack_ext sample_rk) None (h_inner sample_handle) [] [] []) v \<and>
    pm_wf (pmap (sv_shared v)) \<and> pm_coh (pmap (sv_shared v)) \<and> blocker_ok (ip_blocker (sv_shared v))"
proof -
  let ?v0 = "start_server (attack_ext sample_rk) None (h_inner sample_handle) [] [] []"
  have "file_ok None" by (simp add: file_ok_def) (simp add: create_tables_def)
  moreover have "sv_failed ?v0 = None" by (simp add: start_server_def)
  ultimately show ?thesis
    using server_invariant [OF _ datagram_reaches [where e = "sample_env 0" and v = ?v0]]
      datagram_reaches [where P = "\<lambda>_. True" and e = "sample_env 0" and v = ?v0] by blast
qed

text \<open>Another \<open>uuid\<close> tries to register the id of the sample peer.\<close>

lemma uuid_pinned_witness:
  "bound_uuid (attack_ext \<lparr>rk_id = ''peer-b'', rk_uuid = [9], rk_pk = [9]\<rparr>)
    (pmap (fst (snd (handle_udp (attack_ext \<lparr>rk_id = ''peer-b'', rk_uuid = [9], rk_pk = [9]\<rparr>)
      (sample_env sample_now) [] [] (SocketV4 1 2) sample_handle (sample_shared 5))))) ''peer-b''
    = Some [1]"
proof -
  let ?x = "attack_ext \<lparr>rk_id = ''peer-b'', rk_uuid = [9], rk_pk = [9]\<rparr>"
  have v: "sv_shared (sample_server 5) = sample_shared 5" "sv_handle (sample_server 5) = sample_handle"
    "sv_failed (sample_server 5) = None"
    by (simp_all add: sample_server_def)
  have "bound_uuid ?x (pmap (sample_shared 5)) ''peer-b'' = Some [1]"
    by (simp add: bound_uuid_def known_identity_def peer_of_def sample_peer_def)
  then show ?thesis
    using uuid_pinned [OF _ _ datagram_reaches [where e = "sample_env sample_now" and x = ?x
          and v = "sample_server 5" and key = "[]" and bs = "[]" and addr = "SocketV4 1 2"]] v
    by simp
qed

subsection \<open>One answer per connection\<close>

text \<open>
  Seen from the write halves, a run of the server is a run of the machine of \<open>Sinks\<close>, whose invariant carries over.
\<close>

abbreviation fine_server :: "server \<Rightarrow> fine" where
  "fine_server v \<equiv> fine_of (sv_shared v) (sv_conns v) (sv_next v)"

definition server_sinks :: "server \<Rightarrow> bool" where
  "server_sinks v \<longleftrightarrow> fine_ok (fine_server v)"

lemma server_step_fine: "server_step x key P v v' \<Longrightarrow> (fine_step x)\<^sup>*\<^sup>* (fine_server v) (fine_server v')"
proof (induction rule: server_step.induct)
  case (Datagram v e bs addr h' s' r)
  then have "delivers (sv_shared v) s'"
    using handle_udp_delivers [of "sv_shared v" x e key bs addr "sv_handle v"] by simp
  from delivers_fine [OF this] show ?case by simp
next
  case (Channel v e d ds h' s')
  then have "fine_of s' = fine_of (sv_shared v)" by (cases d) (auto simp: fine_of_def fun_eq_iff)
  then show ?case by simp
next
  case (Task e v ts t us s')
  let ?s = "(sv_shared v)\<lparr>spawned := ts @ us\<rparr>"
  have "delivers ?s s'" using Task(3) udp_request_delivers by (cases t) simp
  then have "delivers (sv_shared v) s'" by (rule delivers_cong) simp_all
  from delivers_fine [OF this] show ?case by simp
next
  case (Accept v n c addr ws)
  then have "fine_step x (fine_server v) (fine_server (v\<lparr>sv_conns := (sv_conns v)(n \<mapsto> c), sv_next := Suc n\<rparr>))"
    using fine_step.Accept [of n "fine_server v" c "sv_handle v" addr ws x] by (simp add: fine_of_def)
  then show ?case by (rule r_into_rtranclp)
next
  case (Frame e v n c bs sk s')
  then show ?case using frame_fine [where cs = "sv_conns v" and n = n and c = c and m = "sv_next v"]
    by (simp add: fun_upd_def)
next
  case (Last_Frame e v n c bs sk s')
  then show ?case using last_frame_fine [where cs = "sv_conns v" and n = n and c = c and m = "sv_next v"]
    by (simp add: fun_upd_def)
next
  case (Eof v n c)
  then show ?case using close_fine [where cs = "sv_conns v" and n = n and c = c and m = "sv_next v"]
    by (simp add: r_into_rtranclp fun_upd_def)
next
  case (Relay_Checked e v cs rs ds finished s' port accepts)
  then have "fine_of s' = fine_of (sv_shared v)" by (auto simp: fine_of_def fun_eq_iff)
  then show ?case by simp
next
  case (Admin_Command e v hs h gs arrived cmd s' ls)
  then have "fine_of s' = fine_of (sv_shared v)" by (auto simp: fine_of_def fun_eq_iff)
  then show ?case by simp
qed simp_all

lemma server_step_sinks: "server_step x key P v v' \<Longrightarrow> server_sinks v \<Longrightarrow> server_sinks v'"
  unfolding server_sinks_def by (rule sinks_system.run_inv [OF server_step_fine])

lemma server_sinksD:
  "server_sinks v \<Longrightarrow> written k (sink_out (sv_shared v)) \<le> 1"
  "server_sinks v \<Longrightarrow> tcp_punch (sv_shared v) a = Some k \<Longrightarrow> written k (sink_out (sv_shared v)) = 0"
  by (simp_all add: server_sinks_def fine_ok_def fine_of_def sinks_ok_def)

lemma server_sinks_reopened [simp]: "server_sinks (v\<lparr>sv_failed := f\<rparr>) = server_sinks v"
  by (simp add: server_sinks_def)

lemma server_reaches_sinks: "server_reaches x key P v0 v \<Longrightarrow> server_sinks v0 \<Longrightarrow> server_sinks v"
  by (induction rule: server_reaches.induct) (auto intro: server_step_sinks)

lemma start_server_sinks: "server_sinks (start_server x file cfg ra rl av)"
  by (simp add: server_sinks_def start_server_def fine_of_def fine_init_ok [unfolded fine_init_def])

text \<open>
  C6. Every stream connection gets at most one message from the server in any run: it is written to
  while its own handler still holds it, and then closed, or when an answer takes it out of the waiting
  table, and then it is in nobody's hands. A connection that still waits has
  got nothing yet.
\<close>

theorem one_answer_per_connection:
  assumes "server_reaches x key P (start_server x file cfg ra rl av) v"
  shows "written k (sink_out (sv_shared v)) \<le> 1 \<and>
    (tcp_punch (sv_shared v) a = Some k \<longrightarrow> written k (sink_out (sv_shared v)) = 0)"
  using server_sinksD [OF server_reaches_sinks [OF assms start_server_sinks]] by blast

text \<open>A websocket client connects and registers a key, which is not supported there.\<close>

lemma one_answer_per_connection_witness:
  "\<exists>v. server_reaches (attack_ext sample_rk) [] (\<lambda>_. True)
      (start_server (attack_ext sample_rk) None (h_inner sample_handle) [] [] []) v \<and>
    sink_out (sv_shared v) = [(WsSink 0, RegisterPkResponse NOT_SUPPORT)] \<and>
    written (WsSink 0) (sink_out (sv_shared v)) \<le> 1"
proof -
  let ?x = "attack_ext sample_rk"
  let ?v0 = "start_server ?x None (h_inner sample_handle) [] [] []"
  let ?c = "\<lparr>c_handle = sv_handle ?v0, c_addr = SocketV4 1 2, c_ws = True, c_sink = Some (sink_of True 0)\<rparr>"
  define v1 where "v1 = ?v0\<lparr>sv_conns := (sv_conns ?v0)(0 \<mapsto> ?c), sv_next := Suc 0\<rparr>"
  define s2 where "s2 = (sv_shared ?v0)\<lparr>sink_out := [(WsSink 0, RegisterPkResponse NOT_SUPPORT)]\<rparr>"
  define v2 where "v2 = v1\<lparr>sv_shared := s2, sv_conns := (sv_conns v1)(0 := None)\<rparr>"
  have "server_step ?x [] (\<lambda>_. True) ?v0 v1"
    unfolding v1_def by (rule server_step.Accept [where addr = "SocketV4 1 2" and ws = True])
      (simp_all add: start_server_def)
  moreover have "server_step ?x [] (\<lambda>_. True) v1 v2"
  proof -
    have "handle_tcp ?x (sample_env 0) (c_handle ?c) [] [] (c_sink ?c) (c_addr ?c) (c_ws ?c) (sv_shared v1)
        = (False, Some (sink_of True 0), s2)"
      by (simp add: handle_tcp_def attack_ext_def sample_ext_def send_to_sink_def v1_def s2_def
          start_server_def sink_of_def)
    from server_step.Last_Frame [OF _ _ this, where P = "\<lambda>_. True" and n = 0] show ?thesis
      by (simp add: v2_def v1_def close_connection_def)
  qed
  ultimately have r: "server_reaches ?x [] (\<lambda>_. True) ?v0 v2"
    by (meson server_reaches.Start server_reaches.Step)
  moreover have "sink_out (sv_shared v2) = [(WsSink 0, RegisterPkResponse NOT_SUPPORT)]"
    by (simp add: v2_def s2_def)
  ultimately show ?thesis using one_answer_per_connection [OF r, of "WsSink 0"] by blast
qed

end
