(* ===== verification/Registry.thy ===== *)
theory Registry
  imports Server
begin

text \<open>
  The rendezvous server as a registry of identities. The abstract system is a table from ids to \<open>(uuid, key, address)\<close> that
  changes by accepted registrations only (\<open>tofu\<close>); the server, with its cache, its database, its tasks and its connections, is
  shown to refine it over its whole life, restarts included.
\<close>

subsection \<open>The abstract registry\<close>

type_synonym registry = "string \<Rightarrow> (bytes \<times> bytes \<times> string) option"

text \<open>One registration that is accepted: a new identity, a new address, or a new key from the same address.\<close>

inductive registers :: "registry \<Rightarrow> registry \<Rightarrow> bool" where
  Accepted: "uuid \<noteq> [] \<Longrightarrow> pk \<noteq> [] \<Longrightarrow> tofu (R i) uuid pk ip = (OK, n) \<Longrightarrow> registers R (R(i := n))"

text \<open>The rules of the registry, as laws of one step: a binding stays, and address and key never change together.\<close>

lemma registers_laws:
  assumes "registers R R'" and "R i = Some (u, k, ip)"
  shows "\<exists>k' ip'. R' i = Some (u, k', ip') \<and> (k' = k \<or> ip' = ip)"
  using assms by (cases rule: registers.cases) (auto simp: tofu_def split: if_splits prod.splits)

subsection \<open>What a handler does to the peer map\<close>

text \<open>All handlers but two only look peers up, which can load them from the table.\<close>

inductive looks_up :: "externals \<Rightarrow> env \<Rightarrow> peer_map \<Rightarrow> peer_map \<Rightarrow> bool" for x :: externals and e :: env where
  Same: "looks_up x e pm pm"
| Load: "looks_up x e pm pm' \<Longrightarrow> looks_up x e pm (fst (pm_get x (e_db_read e) (e_now e) i pm'))"

lemma looks_up_get:
  "looks_up x e pm pm' \<Longrightarrow> pm_get x (e_db_read e) (e_now e) i pm' = (pm'', r) \<Longrightarrow> looks_up x e pm pm''"
  using Load [of x e pm pm' i] by simp

lemma get_pk_looks_up: "get_pk x e h v i s = (k, s') \<Longrightarrow> looks_up x e pm (pmap s) \<Longrightarrow> looks_up x e pm (pmap s')"
  by (auto simp: get_pk_def split: if_splits option.splits prod.splits intro: looks_up_get)

lemma punch_request_looks_up:
  assumes "handle_punch_hole_request x e h a ph key ws s = (r, s')"
  shows "looks_up x e (pmap s) (pmap s')"
proof -
  have "s' = snd (handle_punch_hole_request x e h a ph key ws s)" using assms by simp
  then show ?thesis by (simp add: Same Load [OF Same])
qed

lemma broker_looks_up:
  "looks_up x e (pmap s) (pmap (fst (handle_udp_punch_hole_request x e h a ph key s)))"
  "looks_up x e (pmap s) (pmap (fst (handle_tcp_punch_hole_request x e h a ph key ws s)))"
  "looks_up x e (pmap s) (pmap (fst (handle_hole_sent x e h phs a udp s)))"
  "looks_up x e (pmap s) (pmap (fst (handle_local_addr x e h la a udp s)))"
  "looks_up x e (pmap s) (pmap (handle_relay_response x e h rr s))"
  by (auto simp: handle_udp_punch_hole_request_def handle_tcp_punch_hole_request_def handle_hole_sent_def
      handle_local_addr_def handle_relay_response_def Let_def case_prod_beta
      intro: Same Load [OF Same] get_pk_looks_up [OF prod.collapse [symmetric]]
      split: prod.split option.split)

lemma handle_tcp_looks_up:
  "looks_up x e (pmap s) (pmap (snd (snd (handle_tcp x e h key bs sk addr ws s))))"
  using broker_looks_up [of x e "park_sink x addr sk s"] broker_looks_up [of x e s]
  by (simp add: handle_tcp_def Same split: option.split rmsg.split)

text \<open>A datagram looks peers up, renews an address or registers.\<close>

lemma handle_udp_peers:
  obtains (look) "looks_up x e (pmap s) (pmap (fst (snd (handle_udp x e key bs addr h s))))"
  | (heartbeat) i where "pmap (fst (snd (handle_udp x e key bs addr h s))) = pmap (fst (update_addr e i addr s))"
  | (register) rk where "fst (snd (handle_udp x e key bs addr h s)) = fst (handle_register_pk x e addr rk s)"
proof -
  have "pmap (fst (handle_register_peer e h addr rp s)) \<in> {pmap s, pmap (fst (update_addr e (rp_id rp) addr s))}" for rp
    by (auto simp: handle_register_peer_def split: prod.split sum.split)
  note hb = this
  show ?thesis
  proof (cases "\<exists>m. x_decode x bs = Some (Some m)")
    case True
    then obtain m where m: "x_decode x bs = Some (Some m)" by blast
    show ?thesis
    proof (cases m)
      case (RegisterPeer rp)
      with hb [of rp] m show ?thesis
        using look heartbeat [of "rp_id rp"] by (auto simp: handle_udp_def Same)
    next
      case (RegisterPk rk)
      with m show ?thesis by (intro register [of rk]) (simp add: handle_udp_def)
    qed (rule look, use m broker_looks_up [of x e s] in \<open>simp add: handle_udp_def handle_software_update_def Same\<close>)+
  qed (rule look, auto simp: handle_udp_def Same split: option.split)
qed

lemma looks_up_identity:
  assumes "looks_up x e pm pm'" and "e_db_read e" and "pm_wf pm"
  shows "pm_wf pm' \<and> known_identity x pm' q = known_identity x pm q"
  using assms by (induction rule: looks_up.induct) (auto simp: pm_get_identity pm_get_wf)

lemma pm_get_synced:
  assumes "pm_synced x pm"
  shows "pm_synced x (fst (pm_get x True now pid pm))"
  using pm_syncedD(1) [OF assms]
proof (cases rule: pm_get_cases [where pid = pid and x = x and up = True and now = now])
  case (load v pm' l)
  have "pm_synced x (fst (add_peer pid (loaded_peer x now v) pm))"
    by (rule add_peer_synced [OF assms]) (use load in \<open>simp_all add: in_step_def\<close>)
  then show ?thesis using load by simp
qed (use assms in auto)

lemma looks_up_synced:
  "looks_up x e pm pm' \<Longrightarrow> e_db_read e \<Longrightarrow> pm_synced x pm \<Longrightarrow> pm_synced x pm'"
  by (induction rule: looks_up.induct) (auto intro: pm_get_synced)

lemma update_addr_synced:
  assumes "pm_synced x (pmap s)"
  shows "pm_synced x (pmap (fst (update_addr e pid addr s)))"
proof (cases "pm_map (pmap s) pid")
  case (Some l)
  note old = pm_syncedD(3) [OF assms peer_of_at [OF Some]]
  then have "in_step x (find_row (pm_db (pmap s)) pid) ((peer_at (pmap s) l)\<lparr>p_socket_addr := addr, p_last_reg_time := t\<rparr>)" for t
    by (simp add: in_step_def split: option.splits)
  with set_peer_synced [OF assms Some] assms show ?thesis
    by (simp add: update_addr_def pm_get_in_memory_def Some Let_def)
qed (use assms in \<open>simp add: update_addr_def pm_get_in_memory_def\<close>)

text \<open>A registration is refused or is a step of the registry.\<close>

lemma register_pk_registers:
  assumes "shared_ok s" and "e_db_read e" and "s' = fst (handle_register_pk x e addr rk s)"
  shows "known_identity x (pmap s') = known_identity x (pmap s) \<or>
    registers (known_identity x (pmap s)) (known_identity x (pmap s'))"
proof (cases "rk_uuid rk = [] \<or> rk_pk rk = []")
  case True
  with assms(3) show ?thesis by (auto simp: handle_register_pk_def)
next
  case False
  let ?e = "e\<lparr>e_send := (\<lambda>_ _. True)\<rparr>" and ?K = "known_identity x (pmap s)"
  let ?t = "tofu (?K (rk_id rk)) (rk_uuid rk) (rk_pk rk) (show_ip (sa_ip addr))"
  have pre: "pm_wf (pmap s)" "pm_coh (pmap s)" "e_db_read ?e" "rk_uuid rk \<noteq> []" "rk_pk rk \<noteq> []"
    "\<And>m. e_send ?e m addr" using assms(1,2) False by auto
  have same: "pmap s' = pmap (fst (handle_register_pk x ?e addr rk s))"
    unfolding assms(3) using handle_register_pk_send by metis
  from pre show ?thesis
  proof (cases rule: register_pk_tofu [where x = x])
    case (judged)
    then have new: "known_identity x (pmap s') = ?K(rk_id rk := snd ?t)" by (auto simp: same)
    show ?thesis
    proof (cases "fst ?t = OK")
      case True
      with registers.Accepted [OF pre(4,5), of ?K "rk_id rk" "show_ip (sa_ip addr)" "snd ?t"] new
      show ?thesis by (metis prod.collapse)
    next
      case False
      then have "snd ?t = ?K (rk_id rk)" by (auto simp: tofu_def split: option.splits if_splits)
      with new show ?thesis by simp
    qed
  qed (auto simp: same)
qed

subsection \<open>A whole life\<close>

text \<open>The database answers and the next \<open>guid\<close> is new.\<close>

definition healthy :: "server \<Rightarrow> env \<Rightarrow> bool" where
  "healthy v e \<longleftrightarrow> e_db_read e \<and> e_db_write e \<and> e_guid e \<noteq> [] \<and>
     e_guid e \<notin> r_guid ` set (pm_db (pmap (sv_shared v)))"

text \<open>A new process opens the table the old one left, with any arguments; everything else is lost.\<close>

inductive life_step :: "externals \<Rightarrow> string \<Rightarrow> server \<Rightarrow> server \<Rightarrow> bool" for x :: externals and key :: string where
  Live: "server_step x key (healthy v) v v' \<Longrightarrow> life_step x key v v'"
| Socket_Reopened: "life_step x key v (v\<lparr>sv_failed := None\<rparr>)"
| Restarted: "life_step x key v (start_server x (Some (pm_db (pmap (sv_shared v)))) cfg ra rl av)"

definition life_inv :: "externals \<Rightarrow> server \<Rightarrow> bool" where
  "life_inv x v \<longleftrightarrow> json_roundtrip x \<and> shared_ok (sv_shared v) \<and> pm_synced x (pmap (sv_shared v))"

definition registry_of :: "externals \<Rightarrow> server \<Rightarrow> registry" where
  "registry_of x v = known_identity x (pmap (sv_shared v))"

text \<open>The state after a datagram.\<close>

definition after_datagram :: "externals \<Rightarrow> env \<Rightarrow> string \<Rightarrow> bytes \<Rightarrow> socket_addr \<Rightarrow> server \<Rightarrow> server" where
  "after_datagram x e key bs addr v =
     (case handle_udp x e key bs addr (sv_handle v) (sv_shared v) of
        (h', s', r) \<Rightarrow> v\<lparr>sv_handle := h', sv_shared := s', sv_failed := udp_failure r\<rparr>)"

lemma after_datagram_shared [simp]:
  "sv_shared (after_datagram x e key bs addr v) = fst (snd (handle_udp x e key bs addr (sv_handle v) (sv_shared v)))"
  by (simp add: after_datagram_def split: prod.split)

text \<open>How one step changes the peer map.\<close>

lemma server_step_looks:
  assumes "server_step x key P v v'"
  obtains (datagram) e bs addr where "sv_failed v = None" "P e" "v' = after_datagram x e key bs addr v"
  | (look) e where "P e" "looks_up x e (pmap (sv_shared v)) (pmap (sv_shared v'))"
  | (unchanged) "pmap (sv_shared v') = pmap (sv_shared v)"
  using assms
proof (cases rule: server_step.cases)
  case (Datagram e bs addr h' s' r)
  then show ?thesis using datagram [of e bs addr] by (simp add: after_datagram_def)
next
  case (Task e ts t us s')
  show ?thesis
  proof (cases t)
    case (PunchTask h a ph k)
    have "looks_up x e (pmap (sv_shared v)) (pmap s')"
      using broker_looks_up(1) [of x e "(sv_shared v)\<lparr>spawned := ts @ us\<rparr>" h a ph k] by (simp add: Task(4) PunchTask)
    then show ?thesis using look [of e] Task(1,2) by simp
  qed
next
  case (Frame e n c bs sk s')
  show ?thesis
    by (rule look [of e]) (use Frame handle_tcp_looks_up [of x e "sv_shared v" "c_handle c" key bs "c_sink c" "c_addr c" "c_ws c"] in auto)
next
  case (Last_Frame e n c bs sk s')
  show ?thesis
    by (rule look [of e]) (use Last_Frame handle_tcp_looks_up [of x e "sv_shared v" "c_handle c" key bs "c_sink c" "c_addr c" "c_ws c"] in auto)
next
  case (Channel e d ds h' s')
  then have "pmap s' = pmap (sv_shared v)"
    using handle_data_bound [of x e d "sv_handle v" "(sv_shared v)\<lparr>tx := ds\<rparr>"] by simp
  with Channel(1) unchanged show ?thesis by simp
qed (rule unchanged, simp)+

lemma server_step_peers:
  assumes "server_step x key P v v'"
  obtains (look) e where "P e" "looks_up x e (pmap (sv_shared v)) (pmap (sv_shared v'))"
  | (heartbeat) e i addr where "P e" "pmap (sv_shared v') = pmap (fst (update_addr e i addr (sv_shared v)))"
  | (register) e addr rk where "P e" "pmap (sv_shared v') = pmap (fst (handle_register_pk x e addr rk (sv_shared v)))"
  | (unchanged) "pmap (sv_shared v') = pmap (sv_shared v)"
  using assms
proof (cases rule: server_step_looks)
  case (datagram e bs addr)
  then show ?thesis
    using look [of e] heartbeat [of e _ addr] register [of e addr]
    by (cases rule: handle_udp_peers [of x e "sv_shared v" key bs addr "sv_handle v"]) auto
qed (use look unchanged in blast)+

lemma server_step_synced:
  assumes "server_step x key (healthy v) v v'" and "pm_synced x (pmap (sv_shared v))" and "json_roundtrip x"
  shows "pm_synced x (pmap (sv_shared v'))"
  using assms(1)
proof (cases rule: server_step_peers)
  case (register e addr rk)
  then show ?thesis using handle_register_pk_synced [OF assms(2) _ _ _ _ assms(3)] by (simp add: healthy_def)
qed (use assms(2) looks_up_synced update_addr_synced in \<open>auto simp: healthy_def\<close>)

lemma server_step_registers:
  assumes "server_step x key P v v'" and "\<And>e. P e \<Longrightarrow> e_db_read e" and "shared_ok (sv_shared v)"
  shows "registry_of x v' = registry_of x v \<or> registers (registry_of x v) (registry_of x v')"
  using assms(1)
proof (cases rule: server_step_peers)
  case (look e)
  with looks_up_identity [OF look(2) assms(2) shared_okD(1) [OF assms(3)]] show ?thesis
    by (auto simp: registry_of_def)
next
  case (heartbeat e i addr)
  with update_addr_identity [OF shared_okD(1) [OF assms(3)]] show ?thesis by (auto simp: registry_of_def)
next
  case (register e addr rk)
  with register_pk_registers [OF assms(3) assms(2) refl] show ?thesis by (simp add: registry_of_def)
qed (simp add: registry_of_def)

lemma synced_file_ok: "pm_synced x pm \<Longrightarrow> file_ok (Some (pm_db pm))"
  by (auto simp: file_ok_def pm_synced_def pm_wf_def create_tables_def)

lemma start_server_pmap: "pmap (sv_shared (start_server x file cfg ra rl av)) = pm_new file"
  by (simp add: start_server_def)

lemma life_step_inv: "life_inv x v \<Longrightarrow> life_step x key v v' \<Longrightarrow> life_inv x v'"
  unfolding life_inv_def
  by (erule life_step.cases)
    (auto simp: server_step_ok server_step_synced start_server_ok synced_file_ok restart_synced start_server_pmap)

lemma life_step_sim:
  assumes "life_inv x v" and "life_step x key v v'"
  shows "registry_of x v' = registry_of x v \<or> registers (registry_of x v) (registry_of x v')"
  using assms(2)
proof (cases rule: life_step.cases)
  case Live
  with assms(1) show ?thesis by (intro server_step_registers [OF Live]) (auto simp: healthy_def life_inv_def)
qed (use assms(1) restart_identity in \<open>auto simp: registry_of_def life_inv_def start_server_pmap\<close>)

interpretation server_life: refinement "life_step x key" "life_inv x" registers "registry_of x"
  by unfold_locales (rule life_step_inv, assumption+, rule life_step_sim)

lemma registers_bound:
  "registers R R' \<Longrightarrow> map_option fst (R i) = Some u \<Longrightarrow> map_option fst (R' i) = Some u"
  by (auto dest: registers_laws)

lemma life_start:
  assumes "file_ok file" and "\<forall>r \<in> set (create_tables file). r_guid r \<noteq> []" and "json_roundtrip x"
  shows "life_inv x (start_server x file cfg ra rl av)"
  using assms start_server_ok [OF assms(1)]
  by (auto simp: life_inv_def start_server_pmap pm_synced_def pm_wf_def pm_new_def file_ok_def peer_of_def)

text \<open>
  While no lookup overlaps a registration, the rendezvous server refines a registry. Through its whole life, with any datagrams, connections, tasks and commands in any
  order, with sockets that fail and processes that are restarted with other arguments, and as long as the database answers, what the server knows of the ids
  (from memory or from the table) changes only by registrations that the registry accepts: so an id stays bound to its first
  \<open>uuid\<close> for ever.
\<close>

theorem undisturbed_server_registers:
  assumes "file_ok file" and "\<forall>r \<in> set (create_tables file). r_guid r \<noteq> []" and "json_roundtrip x"
    and "v0 = start_server x file cfg ra rl av" and "(life_step x key)\<^sup>*\<^sup>* v0 v"
  shows "registers\<^sup>*\<^sup>* (registry_of x v0) (registry_of x v) \<and>
    (map_option fst (registry_of x v0 i) = Some u \<longrightarrow> map_option fst (registry_of x v i) = Some u)"
proof -
  have inv: "life_inv x v0" unfolding assms(4) by (rule life_start [OF assms(1-3)])
  from server_life.run_sim [OF assms(5) inv]
    server_life.transfer [OF assms(5) inv, where I = "\<lambda>R. map_option fst (R i) = Some u"]
  show ?thesis using registers_bound by blast
qed

text \<open>A peer registers with a new server.\<close>

lemma sample_registered:
  assumes "create_tables file = []"
  obtains v where "life_step (attack_ext sample_rk) key (start_server (attack_ext sample_rk) file cfg ra rl av) v"
    and "registry_of (attack_ext sample_rk) v ''123456'' = Some ([1], [2], show_ip (IpV4 1))"
proof -
  let ?x = "attack_ext sample_rk" and ?v0 = "start_server (attack_ext sample_rk) file cfg ra rl av"
  have pm: "pm_new file = pm_new None" using assms by (simp add: pm_new_def create_tables_def)
  obtain h s r where u: "handle_udp ?x (sample_env sample_now) key [1] (SocketV4 1 2) (sv_handle ?v0) (sv_shared ?v0) = (h, s, r)"
    by (metis prod_cases3)
  have "healthy ?v0 (sample_env sample_now)" "sv_failed ?v0 = None"
    by (simp_all add: healthy_def start_server_def pm sample_env_def)
  then have step: "life_step ?x key ?v0 (?v0\<lparr>sv_handle := h, sv_shared := s, sv_failed := udp_failure r\<rparr>)"
    by (intro life_step.Live server_step.Datagram [where e = "sample_env sample_now", OF _ _ u])
  have "s = fst (handle_register_pk ?x (sample_env sample_now) (SocketV4 1 2) sample_rk (sv_shared ?v0))"
    using u by (auto simp: handle_udp_def attack_ext_def)
  then have "known_identity ?x (pmap s) ''123456'' = Some ([1], [2], show_ip (IpV4 1))"
    by (simp add: start_server_def pm handle_register_pk_def check_ip_blocker_def pm_get_or_def
        pm_get_def get_peer_def add_peer_def peer_at_def rk_compare_def
        reg_pk_attempt_def peer_default_def set_peer_def pm_update_pk_def insert_peer_def
        known_identity_def peer_of_def send_rk_res_def udp_send_def Let_def)
  with that [OF step] show ?thesis by (simp add: registry_of_def)
qed

lemma attack_json: "json_roundtrip (attack_ext m)"
  using sample_json by (simp add: json_roundtrip_def attack_ext_def)

text \<open>The peer registers, and the server is restarted.\<close>

lemma undisturbed_server_registers_witness:
  "\<exists>v. registers\<^sup>*\<^sup>* (\<lambda>_. None) (registry_of (attack_ext sample_rk) v) \<and>
    registry_of (attack_ext sample_rk) v ''123456'' = Some ([1], [2], show_ip (IpV4 1)) \<and> sv_conns v = (\<lambda>_. None)"
proof -
  let ?x = "attack_ext sample_rk" and ?cfg = "h_inner sample_handle"
  let ?v0 = "start_server ?x None ?cfg [] [] []"
  have none: "create_tables None = []" by (simp add: create_tables_def)
  obtain v1 where 1: "life_step ?x [] ?v0 v1" and v1: "registry_of ?x v1 ''123456'' = Some ([1], [2], show_ip (IpV4 1))"
    using sample_registered [OF none] by blast
  define v2 where "v2 = start_server ?x (Some (pm_db (pmap (sv_shared v1)))) ?cfg [] [] []"
  have ok: "file_ok None" "\<forall>r \<in> set (create_tables None). r_guid r \<noteq> []" by (simp_all add: file_ok_def none db_wf_def)
  have 2: "life_step ?x [] v1 v2" unfolding v2_def by (rule life_step.Restarted)
  have run: "(life_step ?x [])\<^sup>*\<^sup>* ?v0 v2" using 1 2 by (meson r_into_rtranclp rtranclp.rtrancl_into_rtrancl)
  have "registry_of ?x v2 ''123456'' = registry_of ?x v1 ''123456''"
    using restart_identity [of ?x "pmap (sv_shared v1)"] life_step_inv [OF life_start [OF ok attack_json] 1]
    by (simp add: v2_def registry_of_def start_server_pmap life_inv_def)
  moreover have "registry_of ?x ?v0 = (\<lambda>_. None)"
    by (simp add: fun_eq_iff registry_of_def start_server_pmap known_identity_def peer_of_def find_row_def)
  ultimately show ?thesis
    using undisturbed_server_registers [OF ok attack_json refl run] v1
    by (intro exI [of _ v2]) (simp add: v2_def start_server_def)
qed

end
