(* ===== verification/Peer_Race.thy ===== *)
theory Peer_Race
  imports Persistence
begin

text \<open>
  \<open>PeerMap::get\<close> is not atomic: it releases the map's lock before it asks the database, and
  takes it again to insert what it read. The task of a punch-hole request can be between
  the two while the main loop handles a registration of the same id. This theory splits \<open>get\<close> at that
  point and follows the interleaving.
\<close>

definition load_read :: "bool \<Rightarrow> string \<Rightarrow> peer_map \<Rightarrow> db_row option" where
  "load_read up pid pm =
     (if pm_map pm pid = None
      then (case get_peer up (pm_db pm) pid of Inr r \<Rightarrow> r | Inl _ \<Rightarrow> None) else None)"

definition load_insert ::
  "externals \<Rightarrow> instant \<Rightarrow> string \<Rightarrow> db_row \<Rightarrow> peer_map \<Rightarrow> peer_map \<times> lock_peer" where
  "load_insert x now pid v pm =
     add_peer pid ((peer_default now)\<lparr>p_guid := r_guid v, p_uuid := r_uuid v, p_pk := r_pk v,
       p_ip := x_info_of_json x (r_info v)\<rparr>) pm"

text \<open>With nothing in between, the two phases are \<open>get\<close>.\<close>

lemma load_phases:
  "pm_map pm pid = None \<Longrightarrow> pm_get x up now pid pm =
     (case load_read up pid pm of
        Some v \<Rightarrow> (case load_insert x now pid v pm of (pm', l) \<Rightarrow> (pm', Some l))
      | None \<Rightarrow> (pm, None))"
  by (simp add: pm_get_def load_read_def load_insert_def Let_def split: sum.split option.split)

lemma load_insert_loaded: "load_insert x now pid v pm = add_peer pid (loaded_peer x now v) pm"
  by (simp add: load_insert_def loaded_peer_def)

text \<open>A known peer with a new key, from its recorded address, passes every check.\<close>

lemma new_key_accepted:
  fixes x :: externals
  assumes sync: "pm_synced x (pmap s)" and none: "pm_map (pmap s) (rk_id rk) = None"
    and row: "find_row (pm_db (pmap s)) (rk_id rk) = Some v" and up: "e_db_read e"
    and same: "r_uuid v = rk_uuid rk" "x_info_of_json x (r_info v) = show_ip (sa_ip addr)"
    and rk: "rk_uuid rk \<noteq> []" "rk_pk rk \<noteq> []" "6 \<le> length (rk_id rk)"
    and free: "ip_blocker s (show_ip (sa_ip addr)) = None"
  shows "known_identity x (pmap (fst (handle_register_pk x e addr rk s))) (rk_id rk)
    = Some (rk_uuid rk, rk_pk rk, show_ip (sa_ip addr))"
proof -
  note wf = pm_syncedD(1) [OF sync]
  have got: "pm_get_or x True (e_now e) (rk_id rk) (pmap s)
      = add_peer (rk_id rk) (loaded_peer x (e_now e) v) (pmap s)"
    using none row by (simp add: pm_get_or_def load_phases load_read_def get_peer_find
        load_insert_loaded split: prod.split)
  have at: "peer_at pm1 l = loaded_peer x (e_now e) v"
    if "pm_get_or x (e_db_read e) (e_now e) (rk_id rk) (pmap s) = (pm1, l)" for pm1 l
    using that got up by (auto simp: add_peer_def peer_at_def)
  have pass: "rk_compare (loaded_peer x (e_now e) v) rk (show_ip (sa_ip addr)) \<noteq> None"
    "reg_pk_attempt (e_now e) (p_reg_pk (loaded_peer x (e_now e) v)) \<noteq> None"
    "\<And>bl. check_ip_blocker (e_now e) (show_ip (sa_ip addr)) (rk_id rk) (ip_blocker s) \<noteq> (False, bl)"
    using same rk(1) free
    by (simp_all add: rk_compare_def Let_def reg_pk_attempt_def loaded_peer_def peer_default_def
        check_ip_blocker_def)
  from rk(1,2) show ?thesis
  proof (cases rule: handle_register_pk_cases [where x = x and e = e and addr = addr and s = s])
    case (accepted bl pm1 l changed ipc req pm3 chg)
    have "pm_wf pm1" "pm_coh pm1"
      using pm_get_or_wf [OF wf] pm_get_or_coh [OF wf pm_synced_coh [OF sync]] accepted(3)
      by (metis fst_conv)+
    from accepted_identity [OF this pm_get_or_found [OF wf accepted(3)] rk(1) accepted(4,6) refl]
    show ?thesis by (simp add: accepted(7))
  qed (use rk(3) pass at in auto)
qed

text \<open>
  C33. A lookup that overlaps a registration takes the new key back: when a task has read the row of a peer and the main loop then
  registers that peer with a new key, the task's insertion replaces the peer in memory by the one it
  read, so the server hands out the old key, and reports the peer as silent for an hour, while the table has the new one.
\<close>

theorem overlapping_load_reverts_key:
  fixes x :: externals
  assumes "pm_synced x (pmap s)" and "load_read True (rk_id rk) (pmap s) = Some v"
    and "e_db_read e" and "e_db_write e" and "e_guid e \<notin> r_guid ` set (pm_db (pmap s))" and "e_guid e \<noteq> []"
    and "json_roundtrip x" and "r_uuid v = rk_uuid rk" and "x_info_of_json x (r_info v) = show_ip (sa_ip addr)"
    and "rk_uuid rk \<noteq> []" and "rk_pk rk \<noteq> []" and "6 \<le> length (rk_id rk)"
    and "ip_blocker s (show_ip (sa_ip addr)) = None" and "3600 * 1000000000 \<le> now"
    and "pm' = pmap (fst (handle_register_pk x e addr rk s))"
  shows "known_identity x pm' (rk_id rk) = Some (rk_uuid rk, rk_pk rk, show_ip (sa_ip addr)) \<and>
    (\<exists>p r. peer_of (fst (load_insert x now (rk_id rk) v pm')) (rk_id rk) = Some p \<and>
       p_pk p = r_pk v \<and> reg_age now p = 3600000 \<and>
       find_row (pm_db (fst (load_insert x now (rk_id rk) v pm'))) (rk_id rk) = Some r \<and> r_pk r = rk_pk rk)"
proof -
  have none: "pm_map (pmap s) (rk_id rk) = None" and row: "find_row (pm_db (pmap s)) (rk_id rk) = Some v"
    using assms(2) by (auto simp: load_read_def get_peer_find split: if_splits)
  have new: "known_identity x pm' (rk_id rk) = Some (rk_uuid rk, rk_pk rk, show_ip (sa_ip addr))"
    unfolding assms(15)
    by (rule new_key_accepted [OF assms(1) none row assms(3,8,9,10,11,12,13)])
  have sync: "pm_synced x pm'"
    unfolding assms(15) by (rule handle_register_pk_synced [OF assms(1,3,4,5,6,7)])
  obtain r where r: "find_row (pm_db pm') (rk_id rk) = Some r" "r_pk r = rk_pk rk"
  proof (cases "peer_of pm' (rk_id rk)")
    case None
    with new that show thesis by (auto simp: known_identity_def split: option.splits if_splits)
  next
    case (Some p)
    with new have "p_uuid p \<noteq> []" "p_pk p = rk_pk rk" by (auto simp: known_identity_def split: if_splits)
    with pm_syncedD(3) [OF sync Some] that show thesis by (auto simp: in_step_def split: option.splits)
  qed
  have "reg_age now (loaded_peer x now v) = 3600000"
    using assms(14)
    by (simp add: loaded_peer_def peer_default_def get_expired_time_def clock_simps)
  with new r peer_of_add [OF pm_syncedD(1) [OF sync], of "rk_id rk" "loaded_peer x now v" "rk_id rk"]
  show ?thesis by (auto simp: load_insert_loaded)
qed

definition known_row :: db_row where
  "known_row = \<lparr>r_guid = [5], r_id = ''123456'', r_uuid = [1], r_pk = [3], r_user = None,
     r_info = show_ip (IpV4 1), r_status = None\<rparr>"

lemma overlapping_load_reverts_key_witness:
  "\<exists>pm' p r. known_identity sample_ext pm' ''123456'' = Some ([1], [2], show_ip (IpV4 1)) \<and>
    peer_of (fst (load_insert sample_ext sample_now ''123456'' known_row pm')) ''123456'' = Some p \<and>
    p_pk p = [3] \<and>
    find_row (pm_db (fst (load_insert sample_ext sample_now ''123456'' known_row pm'))) ''123456'' = Some r \<and>
    r_pk r = [2]"
proof -
  let ?s = "fresh_shared\<lparr>pmap := pm_new (Some [known_row])\<rparr>"
  have sync: "pm_synced sample_ext (pmap ?s)"
    by (simp add: pm_synced_def pm_wf_def db_wf_def peer_of_def known_row_def pm_new_def create_tables_def)
  have read: "load_read True (rk_id sample_rk) (pmap ?s) = Some known_row"
    by (simp add: load_read_def get_peer_def) (simp add: pm_new_def create_tables_def known_row_def)
  have guid: "e_guid (sample_env sample_now) \<notin> r_guid ` set (pm_db (pmap ?s))"
    by (simp add: pm_new_def create_tables_def known_row_def)
  have info: "x_info_of_json sample_ext (r_info known_row) = show_ip (sa_ip (SocketV4 1 2))"
    by (simp add: sample_ext_def known_row_def)
  define pm' where "pm' = pmap (fst (handle_register_pk sample_ext (sample_env sample_now)
      (SocketV4 1 2) sample_rk ?s))"
  have row: "r_uuid known_row = rk_uuid sample_rk" "r_pk known_row = [3]" by (simp_all add: known_row_def)
  have pre: "e_db_read (sample_env sample_now)" "e_db_write (sample_env sample_now)"
    "e_guid (sample_env sample_now) \<noteq> []" "rk_uuid sample_rk \<noteq> []" "rk_pk sample_rk \<noteq> []"
    "6 \<le> length (rk_id sample_rk)" "ip_blocker ?s (show_ip (sa_ip (SocketV4 1 2))) = None"
    "3600 * 1000000000 \<le> sample_now"
    by (simp_all add: sample_now_def)
  from overlapping_load_reverts_key [OF sync read pre(1,2) guid pre(3) sample_json row(1) info pre(4-8) pm'_def]
  show ?thesis unfolding row(2) sample_rk_fields sa_ip.simps by blast
qed

end
