(* ===== verification/Life.thy ===== *)
theory Life
  imports Registry Peer_Race
begin

text \<open>
  The whole life of a rendezvous server with lookups that overlap its other steps: a task can have read a row of the table and put the
  peer into memory at any later time, over whatever has been registered meanwhile. The server then no longer refines the registry of
  \<open>Registry\<close>, but one that can fall back on what it has accepted before.
\<close>

subsection \<open>An archive of identities\<close>

text \<open>What is known of each id, and all identities that were ever accepted for it.\<close>

record archive =
  ar_known :: registry
  ar_accepted :: "string \<Rightarrow> (bytes \<times> bytes \<times> string) set"

definition archive_of :: "registry \<Rightarrow> archive" where
  "archive_of R = \<lparr>ar_known = R, ar_accepted = (\<lambda>i. set_option (R i))\<rparr>"

text \<open>A registration that is accepted, by trust on first use; or known ids fall back on identities accepted before.\<close>

inductive archive_step :: "archive \<Rightarrow> archive \<Rightarrow> bool" where
  Accepts: "uuid \<noteq> [] \<Longrightarrow> pk \<noteq> [] \<Longrightarrow> tofu (ar_known a i) uuid pk ip = (OK, Some k) \<Longrightarrow>
    archive_step a \<lparr>ar_known = (ar_known a)(i \<mapsto> k), ar_accepted = (ar_accepted a)(i := insert k (ar_accepted a i))\<rparr>"
| Relapses: "\<forall>i. R i = ar_known a i \<or> ar_known a i \<noteq> None \<and> (\<exists>k \<in> ar_accepted a i. R i = Some k) \<Longrightarrow>
    archive_step a (a\<lparr>ar_known := R\<rparr>)"

text \<open>The laws of the archive: what is known was accepted, and all that was accepted for an id has one \<open>uuid\<close>.\<close>

definition archive_ok :: "archive \<Rightarrow> bool" where
  "archive_ok a \<longleftrightarrow> (\<forall>i k. ar_known a i = Some k \<longrightarrow> k \<in> ar_accepted a i) \<and>
     (\<forall>i. \<forall>k \<in> ar_accepted a i. ar_known a i \<noteq> None \<and> (\<forall>k' \<in> ar_accepted a i. fst k' = fst k))"

lemma archive_ok_of [simp]: "archive_ok (archive_of R)"
  by (auto simp: archive_ok_def archive_of_def)

lemma archive_okD:
  "archive_ok a \<Longrightarrow> ar_known a i = Some k \<Longrightarrow> k \<in> ar_accepted a i"
  "archive_ok a \<Longrightarrow> k \<in> ar_accepted a i \<Longrightarrow> k' \<in> ar_accepted a i \<Longrightarrow> fst k' = fst k"
  "archive_ok a \<Longrightarrow> k \<in> ar_accepted a i \<Longrightarrow> \<exists>k'. ar_known a i = Some k'"
  unfolding archive_ok_def by blast+

lemma archive_okI:
  assumes "\<And>i k. ar_known a i = Some k \<Longrightarrow> k \<in> ar_accepted a i" and "\<And>i k. k \<in> ar_accepted a i \<Longrightarrow> ar_known a i \<noteq> None"
    and "\<And>i k k'. k \<in> ar_accepted a i \<Longrightarrow> k' \<in> ar_accepted a i \<Longrightarrow> fst k' = fst k"
  shows "archive_ok a"
  using assms unfolding archive_ok_def by blast

lemma tofu_uuid: "tofu known uuid pk ip = (OK, Some k) \<Longrightarrow> k = (uuid, pk, ip) \<and> (\<forall>k'. known = Some k' \<longrightarrow> fst k' = uuid)"
  by (auto simp: tofu_def split: option.splits if_splits)

lemma archive_step_ok:
  assumes "archive_step a a'" and "archive_ok a"
  shows "archive_ok a'"
  using assms(1)
proof (cases rule: archive_step.cases)
  case (Accepts uuid pk i ip k)
  note old = archive_okD [OF assms(2)]
  have same: "fst k' = fst k" if "k' \<in> ar_accepted a i" for k'
  proof -
    from old(3) [OF that] obtain kk where kk: "ar_known a i = Some kk" by blast
    from old(2) [OF old(1) [OF kk]] \<open>k' \<in> ar_accepted a i\<close> kk tofu_uuid [OF Accepts(4)] show ?thesis by auto
  qed
  show ?thesis
  proof (rule archive_okI)
    show "m \<in> ar_accepted a' j" if "ar_known a' j = Some m" for j m
      using that old(1) by (auto simp: Accepts(1) split: if_splits)
    show "ar_known a' j \<noteq> None" if "m \<in> ar_accepted a' j" for j m
      using that old(3) by (cases k) (auto simp: Accepts(1) split: if_splits)
    show "fst n = fst m" if "m \<in> ar_accepted a' j" "n \<in> ar_accepted a' j" for j m n
      using that old(2) [of m j n] same [of m] same [of n] by (auto simp: Accepts(1) split: if_splits)
  qed
next
  case (Relapses R)
  note old = archive_okD [OF assms(2)]
  show ?thesis
  proof (rule archive_okI)
    show "k \<in> ar_accepted a' i" if "ar_known a' i = Some k" for i k
    proof -
      have R: "R i = Some k" using that by (simp add: Relapses(1))
      from Relapses(2) have "R i = ar_known a i \<or> (\<exists>k \<in> ar_accepted a i. R i = Some k)" by blast
      with R old(1) [of i k] have "k \<in> ar_accepted a i" by auto
      then show ?thesis by (simp add: Relapses(1))
    qed
    show "ar_known a' i \<noteq> None" if "k \<in> ar_accepted a' i" for i k
    proof -
      have "k \<in> ar_accepted a i" using that by (simp add: Relapses(1))
      from Relapses(2) have "R i = ar_known a i \<or> (\<exists>k \<in> ar_accepted a i. R i = Some k)" by blast
      with old(3) [OF \<open>k \<in> ar_accepted a i\<close>] have "R i \<noteq> None" by auto
      then show ?thesis by (simp add: Relapses(1))
    qed
    show "fst k' = fst k" if "k \<in> ar_accepted a' i" "k' \<in> ar_accepted a' i" for i k k'
      using old(2) [of k i k'] that by (simp add: Relapses(1))
  qed
qed

text \<open>An id keeps its \<open>uuid\<close>.\<close>

lemma archive_step_uuid:
  assumes "archive_step a a'" and "archive_ok a" and "map_option fst (ar_known a i) = Some u"
  shows "map_option fst (ar_known a' i) = Some u"
  using assms(1)
proof (cases rule: archive_step.cases)
  case (Accepts uuid pk j ip k)
  then show ?thesis using tofu_uuid [OF Accepts(4)] assms(3) by auto
next
  case (Relapses R)
  obtain k where k: "ar_known a i = Some k" "fst k = u" using assms(3) by auto
  from Relapses(2) have "R i = Some k \<or> (\<exists>k' \<in> ar_accepted a i. R i = Some k')" using k(1) by metis
  then obtain k' where "R i = Some k'" "fst k' = fst k"
    using archive_okD(2) [OF assms(2) archive_okD(1) [OF assms(2) k(1)]] by blast
  then show ?thesis using k(2) by (simp add: Relapses(1))
qed

lemma archive_run:
  assumes "archive_step\<^sup>*\<^sup>* (archive_of R) a"
  shows "archive_ok a \<and> (map_option fst (R i) = Some u \<longrightarrow> map_option fst (ar_known a i) = Some u)"
  using assms
proof (induction rule: rtranclp_induct)
  case base
  then show ?case by (simp add: archive_of_def [of R]) (simp flip: archive_of_def)
next
  case (step b c)
  with archive_step_ok [OF step(2)] archive_step_uuid [OF step(2)] show ?case by blast
qed

subsection \<open>The life of a server, with lookups on their way\<close>

text \<open>
  Besides the server, the rows that lookups have read and not yet put into memory. A lookup asks the table some time after it missed the
  peer in memory, so \<open>Reads\<close> asks nothing of the memory. A restart ends the tasks that read the rows.
\<close>

inductive long_life_step ::
  "externals \<Rightarrow> string \<Rightarrow> server \<times> (string \<times> db_row) list \<Rightarrow> server \<times> (string \<times> db_row) list \<Rightarrow> bool"
  for x :: externals and key :: string where
  Lives: "server_step x key (healthy v) v v' \<Longrightarrow> long_life_step x key (v, L) (v', L)"
| Reads: "get_peer True (pm_db (pmap (sv_shared v))) i = Inr (Some row) \<Longrightarrow> long_life_step x key (v, L) (v, (i, row) # L)"
| Inserts: "L = A @ (i, row) # B \<Longrightarrow> pm' = fst (load_insert x now i row (pmap (sv_shared v))) \<Longrightarrow>
    long_life_step x key (v, L) (v\<lparr>sv_shared := (sv_shared v)\<lparr>pmap := pm'\<rparr>\<rparr>, A @ B)"
| Gone: "L = A @ l # B \<Longrightarrow> long_life_step x key (v, L) (v, A @ B)"
| Reopens: "long_life_step x key (v, L) (v\<lparr>sv_failed := None\<rparr>, L)"
| Restarts: "long_life_step x key (v, L) (start_server x (Some (pm_db (pmap (sv_shared v)))) cfg ra rl av, [])"

text \<open>A life in which no lookup is ever overtaken is one of these.\<close>

lemma life_is_long: "life_step x key v v' \<Longrightarrow> long_life_step x key (v, []) (v', [])"
  by (erule life_step.cases) (auto intro: long_life_step.intros)

subsection \<open>Memory anchored in the table\<close>

text \<open>Weaker than \<^const>\<open>pm_synced\<close>: a peer has the \<open>guid\<close> and the \<open>uuid\<close> of its row, but perhaps another key.\<close>

definition anchored :: "db_row option \<Rightarrow> peer \<Rightarrow> bool" where
  "anchored row p \<longleftrightarrow>
     (case row of None \<Rightarrow> p_guid p = [] \<and> p_uuid p = [] | Some r \<Rightarrow> p_guid p = r_guid r \<and> p_uuid p = r_uuid r)"

definition pm_anchored :: "peer_map \<Rightarrow> bool" where
  "pm_anchored pm \<longleftrightarrow> pm_wf pm \<and> (\<forall>r \<in> set (pm_db pm). r_guid r \<noteq> [] \<and> r_uuid r \<noteq> []) \<and>
     (\<forall>pid p. peer_of pm pid = Some p \<longrightarrow> anchored (find_row (pm_db pm) pid) p)"

lemma pm_anchoredD:
  "pm_anchored pm \<Longrightarrow> pm_wf pm"
  "pm_anchored pm \<Longrightarrow> r \<in> set (pm_db pm) \<Longrightarrow> r_guid r \<noteq> [] \<and> r_uuid r \<noteq> []"
  "pm_anchored pm \<Longrightarrow> peer_of pm pid = Some p \<Longrightarrow> anchored (find_row (pm_db pm) pid) p"
  by (auto simp: pm_anchored_def)

lemma pm_anchored_row: "pm_anchored pm \<Longrightarrow> find_row (pm_db pm) i = Some r \<Longrightarrow> r_guid r \<noteq> [] \<and> r_uuid r \<noteq> []"
  using pm_anchoredD(2) find_row_in by blast

lemma pm_anchored_coh: "pm_anchored pm \<Longrightarrow> pm_coh pm"
  unfolding pm_coh_def pm_anchored_def anchored_def by (fastforce split: option.splits)

lemma pm_synced_anchored: "pm_synced x pm \<Longrightarrow> pm_anchored pm"
  unfolding pm_synced_def pm_anchored_def in_step_def anchored_def by (fastforce split: option.splits)

lemma add_peer_anchored:
  assumes "pm_anchored pm" and "anchored (find_row (pm_db pm) pid) p"
  shows "pm_anchored (fst (add_peer pid p pm))"
proof -
  note wf = pm_anchoredD(1) [OF assms(1)]
  have "pm_map pm q \<noteq> Some (length (pm_heap pm))" for q using wf by (auto simp: pm_wf_def)
  then have "inj_on ((pm_map pm)(pid \<mapsto> length (pm_heap pm))) (dom ((pm_map pm)(pid \<mapsto> length (pm_heap pm))))"
    using wf by (auto simp: pm_wf_def inj_on_def dom_def)
  then have "pm_wf (fst (add_peer pid p pm))"
    using wf by (auto simp: pm_wf_def add_peer_def less_SucI)
  moreover have "pm_db (fst (add_peer pid p pm)) = pm_db pm" by (simp add: add_peer_def)
  ultimately show ?thesis
    using assms peer_of_add [OF wf] by (auto simp: pm_anchored_def)
qed

lemma set_peer_anchored:
  assumes "pm_anchored pm" and "pm_map pm pid = Some l" and "anchored (find_row (pm_db pm) pid) p"
  shows "pm_anchored (set_peer l p pm)"
  using assms peer_of_set [OF pm_anchoredD(1) [OF assms(1)] assms(2), of p]
  by (auto simp: pm_anchored_def set_peer_wf)

lemma pm_get_anchored:
  assumes "pm_anchored pm"
  shows "pm_anchored (fst (pm_get x True now pid pm))"
  using pm_anchoredD(1) [OF assms]
proof (cases rule: pm_get_cases [where pid = pid and x = x and up = True and now = now])
  case (load v pm' l)
  have "pm_anchored (fst (add_peer pid (loaded_peer x now v) pm))"
    by (rule add_peer_anchored [OF assms]) (use load(3) in \<open>simp add: anchored_def loaded_peer_def\<close>)
  with load show ?thesis by simp
qed (use assms in auto)

lemma pm_get_or_anchored:
  assumes "pm_anchored pm"
  shows "pm_anchored (fst (pm_get_or x True now pid pm))"
  using pm_anchoredD(1) [OF assms]
proof (cases rule: pm_get_or_cases [where pid = pid and x = x and up = True and now = now])
  case (got pm' l)
  with pm_get_anchored [OF assms, of x now pid] show ?thesis by simp
next
  case (fresh pm' l)
  have "pm_anchored (fst (add_peer pid (peer_default now) pm))"
    by (rule add_peer_anchored [OF assms]) (use fresh in \<open>simp add: anchored_def peer_default_def\<close>)
  with fresh show ?thesis by simp
qed

lemma looks_up_anchored:
  "looks_up x e pm pm' \<Longrightarrow> e_db_read e \<Longrightarrow> pm_anchored pm \<Longrightarrow> pm_anchored pm' \<and> pm_db pm' = pm_db pm"
  by (induction rule: looks_up.induct) (auto intro: pm_get_anchored)

lemma update_addr_anchored:
  assumes "pm_anchored (pmap s)"
  shows "pm_anchored (pmap (fst (update_addr e pid addr s)))" "pm_db (pmap (fst (update_addr e pid addr s))) = pm_db (pmap s)"
proof -
  show "pm_anchored (pmap (fst (update_addr e pid addr s)))"
  proof (cases "pm_map (pmap s) pid")
    case (Some l)
    note old = pm_anchoredD(3) [OF assms peer_of_at [OF Some]]
    then have "anchored (find_row (pm_db (pmap s)) pid) ((peer_at (pmap s) l)\<lparr>p_socket_addr := addr, p_last_reg_time := t\<rparr>)" for t
      by (simp add: anchored_def split: option.splits)
    with set_peer_anchored [OF assms Some] assms show ?thesis
      by (simp add: update_addr_def pm_get_in_memory_def Some Let_def)
  qed (use assms in \<open>simp add: update_addr_def pm_get_in_memory_def\<close>)
  show "pm_db (pmap (fst (update_addr e pid addr s))) = pm_db (pmap s)"
    by (simp add: update_addr_def Let_def set_peer_def split: option.split)
qed


text \<open>The identity a row stands for.\<close>

definition row_identity :: "externals \<Rightarrow> db_row \<Rightarrow> bytes \<times> bytes \<times> string" where
  "row_identity x r = (r_uuid r, r_pk r, x_info_of_json x (r_info r))"

text \<open>An id with a row is known, and one without is not.\<close>

lemma anchored_known:
  assumes "pm_anchored pm"
  shows "find_row (pm_db pm) i = None \<longleftrightarrow> known_identity x pm i = None"
proof (cases "peer_of pm i")
  case None
  with pm_anchored_row [OF assms] show ?thesis by (auto simp: known_identity_def split: option.split)
next
  case (Some p)
  with pm_anchoredD(3) [OF assms Some] pm_anchored_row [OF assms] show ?thesis
    by (auto simp: known_identity_def anchored_def split: option.splits)
qed

text \<open>Rows of one table later on: a new one or a new key is what memory knows now, and \<open>guid\<close> and \<open>uuid\<close> stay.\<close>

definition rows_follow :: "externals \<Rightarrow> peer_map \<Rightarrow> peer_map \<Rightarrow> bool" where
  "rows_follow x pm pm' \<longleftrightarrow>
     (\<forall>i r'. find_row (pm_db pm') i = Some r' \<longrightarrow>
        find_row (pm_db pm) i = Some r' \<or> known_identity x pm' i = Some (row_identity x r')) \<and>
     (\<forall>i r. find_row (pm_db pm) i = Some r \<longrightarrow>
        (\<exists>r'. find_row (pm_db pm') i = Some r' \<and> r_guid r' = r_guid r \<and> r_uuid r' = r_uuid r))"

lemma rows_followD:
  "rows_follow x pm pm' \<Longrightarrow> find_row (pm_db pm') i = Some r' \<Longrightarrow>
     find_row (pm_db pm) i = Some r' \<or> known_identity x pm' i = Some (row_identity x r')"
  "rows_follow x pm pm' \<Longrightarrow> find_row (pm_db pm) i = Some r \<Longrightarrow>
     \<exists>r'. find_row (pm_db pm') i = Some r' \<and> r_guid r' = r_guid r \<and> r_uuid r' = r_uuid r"
  unfolding rows_follow_def by blast+

lemma rows_follow_same: "pm_db pm' = pm_db pm \<Longrightarrow> rows_follow x pm pm'"
  by (simp add: rows_follow_def)

text \<open>With the database up the write succeeds, whatever key memory has.\<close>

lemma pm_update_pk_written:
  assumes anc: "pm_anchored pm" and l: "pm_map pm pid = Some l" and fresh: "fresh \<notin> r_guid ` set (pm_db pm)"
  shows "snd (pm_update_pk x True fresh now pid l addr uuid pk ip pm) = OK"
proof (cases "find_row (pm_db pm) pid")
  case None
  with pm_anchoredD(3) [OF anc peer_of_at [OF l]] have "p_guid (peer_at pm l) = []" by (simp add: anchored_def)
  moreover have "\<not> (\<exists>r \<in> set (pm_db pm). r_guid r = fresh \<or> r_id r = pid)"
    using fresh None by (auto simp: find_row_None)
  ultimately show ?thesis by (simp add: pm_update_pk_def Let_def insert_peer_def)
next
  case (Some r)
  have dwf: "db_wf (pm_db pm)" using pm_anchoredD(1) [OF anc] by (simp add: pm_wf_def)
  have r: "r_guid r = p_guid (peer_at pm l)" "p_guid (peer_at pm l) \<noteq> []"
    using pm_anchoredD(3) [OF anc peer_of_at [OF l]] pm_anchored_row [OF anc Some] Some
    by (auto simp: anchored_def)
  from table.amend_total [OF dwf Some r(1), of pk "x_info_to_json x ip"] r(2) show ?thesis
    by (auto simp: pm_update_pk_def Let_def store_amend_def split: prod.splits sum.splits)
qed

lemma pm_update_pk_anchored:
  fixes now :: instant and addr :: socket_addr and pk :: bytes and ip :: string
  assumes anc: "pm_anchored pm" and l: "pm_map pm pid = Some l"
    and old: "p_guid (peer_at pm l) \<noteq> [] \<Longrightarrow> uuid = p_uuid (peer_at pm l)" and new: "uuid \<noteq> []"
    and fresh: "fresh \<notin> r_guid ` set (pm_db pm)" "fresh \<noteq> []" and json: "json_roundtrip x"
  defines "pm' \<equiv> fst (pm_update_pk x True fresh now pid l addr uuid pk ip pm)"
  shows "pm_anchored pm' \<and> rows_follow x pm pm'"
proof -
  note wf = pm_anchoredD(1) [OF anc]
  have dwf: "db_wf (pm_db pm)" using wf by (simp add: pm_wf_def)
  have wf': "pm_wf pm'" unfolding pm'_def by (rule pm_update_pk_wf [OF wf])
  have old': "anchored (find_row (pm_db pm) pid) (peer_at pm l)" by (rule pm_anchoredD(3) [OF anc peer_of_at [OF l]])
  have known: "known_identity x pm' pid = Some (uuid, pk, ip)"
    using pm_update_pk_memory(1) [OF wf l, of x True fresh now addr uuid pk ip] new unfolding pm'_def known_identity_def by auto
  from wf l show ?thesis
  proof (cases rule: pm_update_pk_cases [where x = x and up = True and fresh = fresh and now = now
        and addr = addr and uuid = uuid and pk = pk and ip = ip])
    case failed
    with pm_update_pk_written [OF anc l fresh(1), of x now addr uuid pk ip] show ?thesis by simp
  next
    case (inserted db')
    have none: "find_row (pm_db pm) pid = None"
      using old' inserted(1) pm_anchored_row [OF anc] by (auto simp: anchored_def split: option.splits)
    note find = table.create_lookup [OF dwf inserted(3)]
    have rows: "r_guid r \<noteq> [] \<and> r_uuid r \<noteq> []" if "r \<in> set db'" for r
      using store_create_row [OF inserted(3)] that pm_anchoredD(2) [OF anc, of r] new fresh(2) by auto
    have "anchored (find_row db' q) p" if "peer_of pm' q = Some p" for q p
      using that pm_anchoredD(3) [OF anc, of q] inserted(4)
      by (auto simp: pm'_def anchored_def peer_of_set [OF wf l] find split: if_splits)
    with rows wf' inserted(4) have "pm_anchored pm'" by (simp add: pm'_def pm_anchored_def)
    moreover have "rows_follow x pm pm'"
      using known json none inserted(4) find
      by (auto simp: rows_follow_def row_identity_def json_roundtrip_def pm'_def)
    ultimately show ?thesis ..
  next
    case (updated db')
    obtain r where r: "find_row (pm_db pm) pid = Some r" "r_guid r = p_guid (peer_at pm l)" "r_uuid r = uuid"
      using old' old [OF updated(1)] updated(1) by (auto simp: anchored_def split: option.splits)
    have find: "find_row db' q = (if q = pid then Some (r\<lparr>r_pk := pk, r_info := x_info_to_json x ip\<rparr>)
        else find_row (pm_db pm) q)" for q
      using table.amend_total [OF dwf r(1,2), of pk "x_info_to_json x ip"] updated(3) by auto
    have rows: "r_guid r' \<noteq> [] \<and> r_uuid r' \<noteq> []" if "r' \<in> set db'" for r'
      using updated(3) that pm_anchoredD(2) [OF anc]
      by (auto simp: store_amend_def db_update_pk_def set_rows_def split: if_splits)
    have "anchored (find_row db' q) p" if "peer_of pm' q = Some p" for q p
      using that pm_anchoredD(3) [OF anc, of q] updated(4) r
      by (auto simp: pm'_def anchored_def peer_of_set [OF wf l] find split: if_splits)
    with rows wf' updated(4) have "pm_anchored pm'" by (simp add: pm'_def pm_anchored_def)
    moreover have "rows_follow x pm pm'"
      using known json r updated(4) find
      by (auto simp: rows_follow_def row_identity_def json_roundtrip_def pm'_def)
    ultimately show ?thesis ..
  qed
qed


lemma register_pk_anchored:
  assumes anc: "pm_anchored (pmap s)" and up: "e_db_read e" "e_db_write e"
    and fresh: "e_guid e \<notin> r_guid ` set (pm_db (pmap s))" "e_guid e \<noteq> []" and json: "json_roundtrip x"
    and s': "s' = fst (handle_register_pk x e addr rk s)"
  shows "pm_anchored (pmap s') \<and> rows_follow x (pmap s) (pmap s')"
proof (cases "rk_uuid rk = [] \<or> rk_pk rk = []")
  case True
  with anc s' show ?thesis by (auto simp: handle_register_pk_def rows_follow_def)
next
  case False
  then have ne: "rk_uuid rk \<noteq> []" "rk_pk rk \<noteq> []" by auto
  have got: "pm_anchored pm1 \<and> rows_follow x (pmap s) pm1"
    if "pm_get_or x (e_db_read e) (e_now e) (rk_id rk) (pmap s) = (pm1, l)" for pm1 l
    using that pm_get_or_anchored [OF anc, of x "e_now e" "rk_id rk"] up rows_follow_same [of pm1 "pmap s"]
    by (metis fst_conv pm_get_or_db)
  show ?thesis
    using ne
  proof (cases rule: handle_register_pk_cases [where x = x and e = e and addr = addr and s = s])
    case (accepted bl pm1 l changed ipc req pm3 chg)
    have anc1: "pm_anchored pm1" using got [OF accepted(3)] ..
    have l: "pm_map pm1 (rk_id rk) = Some l" by (rule pm_get_or_found [OF pm_anchoredD(1) [OF anc] accepted(3)])
    have db: "pm_db pm3 = pm_db (pmap s)" using accepted(3,6) by (simp, metis fst_conv pm_get_or_db)
    have anc3: "pm_anchored pm3"
      unfolding accepted(6) using pm_anchoredD(3) [OF anc1 peer_of_at [OF l]]
      by (intro set_peer_anchored [OF anc1 l]) (simp add: anchored_def split: option.splits)
    have at3: "peer_at pm3 l = (peer_at pm1 l)\<lparr>p_reg_pk := req\<rparr>"
      using accepted(6) pm_wf_alloc [OF pm_anchoredD(1) [OF anc1] l] by simp
    have l3: "pm_map pm3 (rk_id rk) = Some l" using l accepted(6) by simp
    have old: "p_guid (peer_at pm3 l) \<noteq> [] \<Longrightarrow> rk_uuid rk = p_uuid (peer_at pm3 l)"
      using guid_uuid_agree [OF pm_anchored_coh [OF anc1] l accepted(4)] at3 by simp
    have fresh3: "e_guid e \<notin> r_guid ` set (pm_db pm3)" using fresh(1) db by simp
    show ?thesis unfolding s' accepted(7)
      using anc3 up db pm_update_pk_anchored [OF anc3 l3 old ne(1) fresh3 fresh(2) json]
      by (simp add: rows_follow_def)
  qed (use anc got s' rows_follow_same [of "pmap s" "pmap s"] in auto)
qed

subsection \<open>The server and its archive\<close>

definition linked :: "externals \<Rightarrow> server \<times> (string \<times> db_row) list \<Rightarrow> archive \<Rightarrow> bool" where
  "linked x c a \<longleftrightarrow> (let pm = pmap (sv_shared (fst c)) in
     json_roundtrip x \<and> shared_ok (sv_shared (fst c)) \<and> pm_anchored pm \<and> ar_known a = registry_of x (fst c) \<and> archive_ok a \<and>
     (\<forall>i r. find_row (pm_db pm) i = Some r \<longrightarrow> row_identity x r \<in> ar_accepted a i) \<and>
     (\<forall>(i, row) \<in> set (snd c). row_identity x row \<in> ar_accepted a i \<and>
        (\<exists>r. find_row (pm_db pm) i = Some r \<and> r_guid r = r_guid row \<and> r_uuid r = r_uuid row)))"

lemma linkedD:
  assumes "linked x (v, L) a"
  shows "json_roundtrip x" "shared_ok (sv_shared v)" "pm_anchored (pmap (sv_shared v))" "ar_known a = registry_of x v"
    "archive_ok a" "find_row (pm_db (pmap (sv_shared v))) i = Some r \<Longrightarrow> row_identity x r \<in> ar_accepted a i"
    "(i, row) \<in> set L \<Longrightarrow> row_identity x row \<in> ar_accepted a i"
    "(i, row) \<in> set L \<Longrightarrow>
       \<exists>r. find_row (pm_db (pmap (sv_shared v))) i = Some r \<and> r_guid r = r_guid row \<and> r_uuid r = r_uuid row"
  using assms unfolding linked_def Let_def by (auto 0 3)

lemma linkedI:
  assumes "json_roundtrip x" "shared_ok (sv_shared v)" "pm_anchored (pmap (sv_shared v))" "ar_known a = registry_of x v"
    "archive_ok a" "\<And>i r. find_row (pm_db (pmap (sv_shared v))) i = Some r \<Longrightarrow> row_identity x r \<in> ar_accepted a i"
    "\<And>i row. (i, row) \<in> set L \<Longrightarrow> row_identity x row \<in> ar_accepted a i"
    "\<And>i row. (i, row) \<in> set L \<Longrightarrow>
       \<exists>r. find_row (pm_db (pmap (sv_shared v))) i = Some r \<and> r_guid r = r_guid row \<and> r_uuid r = r_uuid row"
  shows "linked x (v, L) a"
  using assms unfolding linked_def Let_def by auto

text \<open>What one step of the undisturbed server does to memory and table.\<close>

lemma server_step_anchored:
  assumes "server_step x key (healthy v) v v'" and "pm_anchored (pmap (sv_shared v))" and "json_roundtrip x"
  shows "pm_anchored (pmap (sv_shared v')) \<and> rows_follow x (pmap (sv_shared v)) (pmap (sv_shared v'))"
  using assms(1)
proof (cases rule: server_step_peers)
  case (look e)
  with looks_up_anchored [OF look(2) _ assms(2)] rows_follow_same show ?thesis by (simp add: healthy_def)
next
  case (heartbeat e i addr)
  with update_addr_anchored [OF assms(2)] rows_follow_same show ?thesis by simp
next
  case (register e addr rk)
  with register_pk_anchored [OF assms(2) _ _ _ _ assms(3) refl] show ?thesis by (simp add: healthy_def)
qed (use assms(2) rows_follow_same in simp)

text \<open>What the server knows is accepted; and after a step so are the rows of the new table.\<close>

lemma rows_accepted:
  assumes "linked x (v, L) a" and "rows_follow x (pmap (sv_shared v)) (pmap (sv_shared v'))"
    and "archive_ok a'" and "ar_known a' = registry_of x v'" and "\<And>i. ar_accepted a i \<subseteq> ar_accepted a' i"
    and "find_row (pm_db (pmap (sv_shared v'))) i = Some r"
  shows "row_identity x r \<in> ar_accepted a' i"
  using rows_followD(1) [OF assms(2,6)]
proof
  assume "find_row (pm_db (pmap (sv_shared v))) i = Some r"
  with linkedD(6) [OF assms(1)] assms(5) show ?thesis by blast
next
  assume "known_identity x (pmap (sv_shared v')) i = Some (row_identity x r)"
  with archive_okD(1) [OF assms(3)] assms(4) show ?thesis by (simp add: registry_of_def)
qed

lemma server_step_linked:
  assumes link: "linked x (v, L) a" and step: "server_step x key (healthy v) v v'"
  shows "\<exists>a'. (a' = a \<or> archive_step a a') \<and> linked x (v', L) a'"
proof -
  note old = linkedD [OF link]
  from server_step_anchored [OF step old(3,1)]
  have anc: "pm_anchored (pmap (sv_shared v'))" and rows: "rows_follow x (pmap (sv_shared v)) (pmap (sv_shared v'))" by simp_all
  have keep: "linked x (v', L) a'"
    if "archive_ok a'" "ar_known a' = registry_of x v'" "\<And>i. ar_accepted a i \<subseteq> ar_accepted a' i" for a'
  proof (rule linkedI [OF old(1) server_step_ok [OF step old(2)] anc that(2,1)])
    show "row_identity x r \<in> ar_accepted a' i" if "find_row (pm_db (pmap (sv_shared v'))) i = Some r" for i r
      by (rule rows_accepted [OF link rows \<open>archive_ok a'\<close> \<open>ar_known a' = _\<close> \<open>\<And>i. ar_accepted a i \<subseteq> _\<close> that])
    show "row_identity x row \<in> ar_accepted a' i" if "(i, row) \<in> set L" for i row
      using old(7) [OF that] \<open>\<And>i. ar_accepted a i \<subseteq> _\<close> by blast
    show "\<exists>r. find_row (pm_db (pmap (sv_shared v'))) i = Some r \<and> r_guid r = r_guid row \<and> r_uuid r = r_uuid row"
      if "(i, row) \<in> set L" for i row
      using old(8) [OF that] rows_followD(2) [OF rows] by metis
  qed
  from server_step_registers [OF step _ old(2)] consider
    "registry_of x v' = registry_of x v" | "registers (registry_of x v) (registry_of x v')" by (auto simp: healthy_def)
  then show ?thesis
  proof cases
    case 1
    with keep [of a] old(4,5) show ?thesis by auto
  next
    case 2
    then show ?thesis
    proof (cases rule: registers.cases)
      case (Accepted uuid pk i ip n)
      then obtain k where k: "n = Some k" by (auto simp: tofu_def split: option.splits if_splits)
      define a' where "a' = \<lparr>ar_known = (ar_known a)(i \<mapsto> k), ar_accepted = (ar_accepted a)(i := insert k (ar_accepted a i))\<rparr>"
      have step': "archive_step a a'"
        unfolding a'_def by (rule archive_step.Accepts [OF Accepted(2,3)]) (use Accepted(4) k old(4) in simp)
      have "linked x (v', L) a'"
        by (rule keep [OF archive_step_ok [OF step' old(5)]]) (use Accepted(1) k old(4) in \<open>auto simp: a'_def\<close>)
      with step' show ?thesis by blast
    qed
  qed
qed

text \<open>An insertion brings back a row that was read, whatever memory has by then.\<close>

lemma load_insert_anchored:
  fixes x :: externals and now :: instant
  assumes anc: "pm_anchored pm" and row: "find_row (pm_db pm) i = Some r" "r_guid r = r_guid row" "r_uuid r = r_uuid row"
  defines "pm' \<equiv> fst (load_insert x now i row pm)"
  shows "pm_anchored pm'" and "pm_db pm' = pm_db pm"
    and "known_identity x pm' = (known_identity x pm)(i \<mapsto> row_identity x row)"
proof -
  note wf = pm_anchoredD(1) [OF anc]
  show "pm_anchored pm'" unfolding pm'_def load_insert_loaded
    by (rule add_peer_anchored [OF anc]) (simp add: anchored_def row loaded_peer_def)
  show db: "pm_db pm' = pm_db pm" by (simp add: pm'_def load_insert_loaded add_peer_def)
  have "r_uuid row \<noteq> []" using pm_anchored_row [OF anc row(1)] row(3) by simp
  moreover have "peer_of pm' q = (if q = i then Some (loaded_peer x now row) else peer_of pm q)" for q
    unfolding pm'_def load_insert_loaded by (rule peer_of_add [OF wf])
  ultimately show "known_identity x pm' = (known_identity x pm)(i \<mapsto> row_identity x row)"
    using db by (simp add: fun_eq_iff known_identity_def row_identity_def loaded_peer_def split: option.split)
qed

lemma inserts_linked:
  assumes link: "linked x (v, A @ (i, row) # B) a" and pm': "pm' = fst (load_insert x now i row (pmap (sv_shared v)))"
  shows "\<exists>a'. (a' = a \<or> archive_step a a') \<and> linked x (v\<lparr>sv_shared := (sv_shared v)\<lparr>pmap := pm'\<rparr>\<rparr>, A @ B) a'"
proof -
  note old = linkedD [OF link]
  let ?v = "v\<lparr>sv_shared := (sv_shared v)\<lparr>pmap := pm'\<rparr>\<rparr>" and ?R = "(ar_known a)(i \<mapsto> row_identity x row)"
  obtain r where r: "find_row (pm_db (pmap (sv_shared v))) i = Some r" "r_guid r = r_guid row" "r_uuid r = r_uuid row"
    using old(8) [of i row] by auto
  note new = load_insert_anchored [OF old(3) r, of x now, folded pm']
  have acc: "row_identity x row \<in> ar_accepted a i" by (rule old(7)) simp
  have step: "archive_step a (a\<lparr>ar_known := ?R\<rparr>)"
    by (rule archive_step.Relapses) (use acc archive_okD(3) [OF old(5) acc] in auto)
  have "shared_ok (sv_shared ?v)"
    using old(2) pm_anchored_coh [OF new(1)] pm_anchoredD(1) [OF new(1)] by (simp add: shared_ok_def)
  then have "linked x (?v, A @ B) (a\<lparr>ar_known := ?R\<rparr>)"
    using old(1,4) new archive_step_ok [OF step old(5)] old(6-8)
    by (intro linkedI) (auto simp: registry_of_def)
  with step show ?thesis by blast
qed

text \<open>A restart falls back on the rows.\<close>

lemma restarts_linked:
  assumes link: "linked x (v, L) a"
    and v': "v' = start_server x (Some (pm_db (pmap (sv_shared v)))) cfg ra rl av"
  shows "\<exists>a'. (a' = a \<or> archive_step a a') \<and> linked x (v', []) a'"
proof -
  note old = linkedD [OF link]
  let ?db = "pm_db (pmap (sv_shared v))"
  have pm: "pmap (sv_shared v') = pm_new (Some ?db)" "pm_db (pm_new (Some ?db)) = ?db"
    by (simp_all add: v' start_server_pmap pm_new_def create_tables_def)
  have file_ok: "file_ok (Some ?db)"
    using old(3) by (auto simp: file_ok_def pm_anchored_def pm_wf_def create_tables_def)
  have anc: "pm_anchored (pm_new (Some ?db))"
    using old(3) by (auto simp: pm_anchored_def pm_wf_def pm_new_def create_tables_def peer_of_def)
  have known: "registry_of x v' i = map_option (row_identity x) (find_row ?db i)" for i
    using pm_anchored_row [OF old(3), of i]
    by (simp add: registry_of_def pm(1) known_identity_def row_identity_def pm(2) peer_of_def split: option.split)
  have step: "archive_step a (a\<lparr>ar_known := registry_of x v'\<rparr>)"
  proof (rule archive_step.Relapses, rule allI)
    fix i
    show "registry_of x v' i = ar_known a i \<or> ar_known a i \<noteq> None \<and> (\<exists>k \<in> ar_accepted a i. registry_of x v' i = Some k)"
    proof (cases "find_row ?db i")
      case None
      with anchored_known [OF old(3), of i x] old(4) known show ?thesis by (simp add: registry_of_def)
    next
      case (Some r)
      from old(6) [OF Some] archive_okD(3) [OF old(5) old(6) [OF Some]] known Some show ?thesis by auto
    qed
  qed
  have "shared_ok (sv_shared v')" unfolding v' by (rule start_server_ok [OF file_ok])
  then have "linked x (v', []) (a\<lparr>ar_known := registry_of x v'\<rparr>)"
    using old(1) anc pm archive_step_ok [OF step old(5)] old(6) by (intro linkedI) auto
  with step show ?thesis by blast
qed

lemma long_life_linked:
  assumes "linked x c a" and "long_life_step x key c c'"
  shows "\<exists>a'. (a' = a \<or> archive_step a a') \<and> linked x c' a'"
  using assms(2)
proof (cases rule: long_life_step.cases)
  case (Lives v v' L)
  with server_step_linked assms(1) show ?thesis by simp
next
  case (Reads v i row L)
  have row: "find_row (pm_db (pmap (sv_shared v))) i = Some row"
    using Reads(3) by (simp add: get_peer_find)
  note old = linkedD [OF assms(1) [unfolded Reads(1)]]
  have "linked x (v, (i, row) # L) a"
    using old row by (intro linkedI) auto
  with Reads show ?thesis by blast
next
  case (Inserts L A i row B pm' now v)
  with inserts_linked assms(1) show ?thesis by simp
next
  case (Gone L A l B v)
  note old = linkedD [OF assms(1) [unfolded Gone(1)]]
  have "linked x (v, A @ B) a" using old Gone(3) by (intro linkedI) auto
  with Gone show ?thesis by blast
next
  case (Reopens v L)
  note old = linkedD [OF assms(1) [unfolded Reopens(1)]]
  have "linked x (v\<lparr>sv_failed := None\<rparr>, L) a" using old by (intro linkedI) (auto simp: registry_of_def)
  with Reopens show ?thesis by blast
next
  case (Restarts v L cfg ra rl av)
  with restarts_linked assms(1) show ?thesis by simp
qed

interpretation long_life: simulation "long_life_step x key" archive_step "linked x"
  by unfold_locales (rule long_life_linked)

lemma long_life_start:
  assumes "file_ok file" and "\<forall>r \<in> set (create_tables file). r_guid r \<noteq> []" and "json_roundtrip x"
    and "v0 = start_server x file cfg ra rl av"
  shows "linked x (v0, []) (archive_of (registry_of x v0))"
proof (rule linkedI)
  note inv = life_start [OF assms(1-3), of cfg ra rl av, folded assms(4)]
  show "shared_ok (sv_shared v0)" "pm_anchored (pmap (sv_shared v0))"
    using inv pm_synced_anchored by (auto simp: life_inv_def)
  show "row_identity x r \<in> ar_accepted (archive_of (registry_of x v0)) i"
    if "find_row (pm_db (pmap (sv_shared v0))) i = Some r" for i r
    using pm_anchored_row [OF \<open>pm_anchored _\<close> that] that
    by (simp add: archive_of_def registry_of_def known_identity_def row_identity_def peer_of_def assms(4) start_server_pmap)
qed (simp_all add: assms(3) archive_of_def [of "registry_of x v0", THEN arg_cong [where f = ar_known]])

text \<open>What a restarted server knows: the same ids with the same \<open>uuid\<close>s, and keys and addresses that were accepted.\<close>

lemma restart_uuids:
  assumes link: "linked x (v, L) a"
    and v': "v' = start_server x (Some (pm_db (pmap (sv_shared v)))) cfg ra rl av"
  shows "map_option fst (registry_of x v' i) = map_option fst (registry_of x v i)"
proof -
  note old = linkedD [OF link]
  obtain b where b: "b = a \<or> archive_step a b" "linked x (v', []) b" using restarts_linked [OF assms] by blast
  note new = linkedD [OF b(2)]
  have "pm_db (pmap (sv_shared v')) = pm_db (pmap (sv_shared v))"
    by (simp add: v' start_server_pmap pm_new_def create_tables_def)
  then have none: "registry_of x v' i = None \<longleftrightarrow> registry_of x v i = None"
    using anchored_known [OF old(3), of i x] anchored_known [OF new(3), of i x] by (simp add: registry_of_def)
  show ?thesis
  proof (cases "registry_of x v i")
    case (Some k)
    then have "map_option fst (ar_known b i) = Some (fst k)"
      using b(1) archive_step_uuid [OF _ old(5), of b i "fst k"] old(4) by (cases k) auto
    with Some new(4) show ?thesis by simp
  qed (use none in simp)
qed

lemma long_life_again:
  assumes "file_ok file" and "\<forall>r \<in> set (create_tables file). r_guid r \<noteq> []" and "json_roundtrip x"
    and "v0 = start_server x file cfg ra rl av" and "(long_life_step x key)\<^sup>*\<^sup>* (v0, []) (v, L)"
    and "v' = start_server x (Some (pm_db (pmap (sv_shared v)))) cfg' ra' rl' av'"
  shows "(\<forall>i. map_option fst (registry_of x v' i) = map_option fst (registry_of x v i)) \<and>
    (\<exists>a. archive_step\<^sup>*\<^sup>* (archive_of (registry_of x v0)) a \<and> (\<forall>i k. registry_of x v' i = Some k \<longrightarrow> k \<in> ar_accepted a i)) \<and>
    ((life_step x key)\<^sup>*\<^sup>* v0 v \<longrightarrow> registry_of x v' = registry_of x v)"
proof (intro conjI impI)
  note start = long_life_start [OF assms(1-4)]
  obtain a where a: "archive_step\<^sup>*\<^sup>* (archive_of (registry_of x v0)) a" "linked x (v, L) a"
    using long_life.run_rel [OF assms(5) start] by blast
  then obtain b where b: "archive_step\<^sup>*\<^sup>* (archive_of (registry_of x v0)) b" "linked x (v', []) b"
    using restarts_linked [OF a(2) assms(6)] by (auto intro: rtranclp.rtrancl_into_rtrancl)
  show "\<forall>i. map_option fst (registry_of x v' i) = map_option fst (registry_of x v i)"
    using restart_uuids [OF a(2) assms(6)] by blast
  have "\<forall>i k. registry_of x v' i = Some k \<longrightarrow> k \<in> ar_accepted b i"
    using archive_okD(1) [OF linkedD(5) [OF b(2)]] linkedD(4) [OF b(2)] by simp
  with b(1) show "\<exists>a. archive_step\<^sup>*\<^sup>* (archive_of (registry_of x v0)) a \<and>
      (\<forall>i k. registry_of x v' i = Some k \<longrightarrow> k \<in> ar_accepted a i)" by blast
  show "registry_of x v' = registry_of x v" if "(life_step x key)\<^sup>*\<^sup>* v0 v"
  proof -
    have "life_inv x v" by (rule server_life.run_inv [OF that life_start [OF assms(1-3), of cfg ra rl av, folded assms(4)]])
    then show ?thesis by (simp add: fun_eq_iff registry_of_def start_server_pmap life_inv_def restart_identity assms(6))
  qed
qed


text \<open>A task reads a row, the peer registers with a new key, and the task puts the old key into memory.\<close>

lemma overtaken_lookup:
  fixes x :: externals
  defines "x \<equiv> attack_ext sample_rk"
  obtains v0 v1 v2 where "v0 = start_server x (Some [known_row]) (h_inner sample_handle) [] [] []"
    and "(long_life_step x [])\<^sup>*\<^sup>* (v0, []) (v1, [(''123456'', known_row)])"
    and "long_life_step x [] (v1, [(''123456'', known_row)]) (v2, [])"
    and "registry_of x v1 ''123456'' = Some ([1], [2], show_ip (IpV4 1))"
    and "registry_of x v2 ''123456'' = Some ([1], [3], show_ip (IpV4 1))"
proof -
  define v0 where "v0 = start_server x (Some [known_row]) (h_inner sample_handle) [] [] []"
  let ?e = "sample_env sample_now" and ?s = "sv_shared v0"
  define v1 where "v1 = after_datagram x ?e [] [1] (SocketV4 1 2) v0"
  let ?pm2 = "fst (load_insert x sample_now ''123456'' known_row (pmap (sv_shared v1)))"
  define v2 where "v2 = v1\<lparr>sv_shared := (sv_shared v1)\<lparr>pmap := ?pm2\<rparr>\<rparr>"
  have pm: "pmap ?s = pm_new (Some [known_row])" "ip_blocker ?s = (\<lambda>_. None)" "sv_failed v0 = None"
    by (simp_all add: v0_def start_server_def)
  have db: "find_row (pm_db (pmap ?s)) ''123456'' = Some known_row"
    by (simp add: pm(1) find_row_def) (simp add: pm_new_def create_tables_def known_row_def)
  have sync: "pm_synced x (pmap ?s)"
    by (simp add: pm(1) pm_synced_def pm_wf_def db_wf_def peer_of_def known_row_def pm_new_def create_tables_def)
  have info: "x_info_of_json x (r_info known_row) = show_ip (IpV4 1)"
    by (simp add: x_def attack_ext_def sample_ext_def known_row_def)
  have reads: "long_life_step x [] (v0, []) (v0, [(''123456'', known_row)])"
    by (rule long_life_step.Reads) (simp add: get_peer_find db)
  have "healthy v0 ?e" by (simp add: healthy_def pm(1) sample_env_def pm_new_def create_tables_def known_row_def)
  then have step: "server_step x [] (healthy v0) v0 v1"
    unfolding v1_def after_datagram_def
    by (cases "handle_udp x ?e [] [1] (SocketV4 1 2) (sv_handle v0) ?s") (simp add: server_step.Datagram pm(3))
  from long_life_step.Lives [OF step] have lives: "long_life_step x [] (v0, L) (v1, L)" for L .
  have inserts: "long_life_step x [] (v1, [(''123456'', known_row)]) (v2, [])"
    using long_life_step.Inserts [of "[(''123456'', known_row)]" "[]" _ _ "[]" ?pm2 x sample_now v1] by (simp add: v2_def)
  have s1: "sv_shared v1 = fst (handle_register_pk x ?e (SocketV4 1 2) sample_rk ?s)"
    by (simp add: v1_def handle_udp_def x_def attack_ext_def)
  have "registry_of x v1 ''123456'' = Some ([1], [2], show_ip (IpV4 1))"
    using new_key_accepted [of x ?s sample_rk known_row ?e "SocketV4 1 2"] sync db info
    by (simp add: registry_of_def s1 pm) (simp add: pm_new_def known_row_def sample_env_def)
  moreover have "registry_of x v2 ''123456'' = Some ([1], [3], show_ip (IpV4 1))"
  proof -
    from server_step_anchored [OF step pm_synced_anchored [OF sync]] attack_json
    have after: "pm_anchored (pmap (sv_shared v1))" "rows_follow x (pmap ?s) (pmap (sv_shared v1))" by (simp_all add: x_def)
    from rows_followD(2) [OF after(2) db] obtain r where r: "find_row (pm_db (pmap (sv_shared v1))) ''123456'' = Some r"
      "r_guid r = r_guid known_row" "r_uuid r = r_uuid known_row" by blast
    from load_insert_anchored(3) [OF after(1) r, of x sample_now] info show ?thesis
      by (simp add: registry_of_def v2_def row_identity_def) (simp add: known_row_def)
  qed
  ultimately show thesis
    using that [OF v0_def _ inserts] reads lives by (meson r_into_rtranclp rtranclp.rtrancl_into_rtrancl)
qed


end
