(* ===== verification/Wire_Types.thy ===== *)
theory Wire_Types
  imports Server
begin

text \<open>
  The types of the messages the rendezvous server sends: which messages may go out in a datagram and which on a stream, and
  which address fields only the server writes. Every state of every run is well typed.
\<close>

text \<open>The bytes are an address the server saw itself and encoded at some time.\<close>

definition server_address :: "externals \<Rightarrow> bytes \<Rightarrow> bool" where
  "server_address x bs \<longleftrightarrow> (\<exists>t a. bs = x_mangle x t a)"

lemma server_addressI [simp]: "server_address x (x_mangle x t a)"
  by (auto simp: server_address_def)

text \<open>A brokering answer fails, names the address the answer came from, or is marked as a local address.\<close>

definition answer_typed :: "externals \<Rightarrow> punch_hole_response \<Rightarrow> bool" where
  "answer_typed x r \<longleftrightarrow> phr_failure r \<noteq> None \<or> phr_is_local r \<or> server_address x (phr_socket_addr r)"

fun datagram_typed :: "externals \<Rightarrow> rmsg \<Rightarrow> bool" where
  "datagram_typed x (RegisterPeerResponse _) = True"
| "datagram_typed x (RegisterPkResponse r) = (r \<in> {OK, UUID_MISMATCH, TOO_FREQUENT})"
| "datagram_typed x (ConfigureUpdate _) = True"
| "datagram_typed x (SoftwareUpdate _) = True"
| "datagram_typed x (PunchHole p) = server_address x (pu_socket_addr p)"
| "datagram_typed x (FetchLocalAddr f) = server_address x (fl_socket_addr f)"
| "datagram_typed x (RequestRelay rf) = server_address x (rf_socket_addr rf)"
| "datagram_typed x (PunchHoleResponse r) = answer_typed x r"
| "datagram_typed x _ = False"

fun stream_typed :: "externals \<Rightarrow> rmsg \<Rightarrow> bool" where
  "stream_typed x (PunchHoleResponse r) = answer_typed x r"
| "stream_typed x (RelayResponse rr) = (rr_socket_addr rr = [] \<and> rr_id rr = [])"
| "stream_typed x (TestNatResponse _) = True"
| "stream_typed x (RegisterPkResponse r) = (r = NOT_SUPPORT)"
| "stream_typed x _ = False"

text \<open>On the NAT-test port only the port the sender comes from, or who is online: one bit per id, eight to a byte.\<close>

fun reply_typed :: "socket_addr \<Rightarrow> rmsg \<Rightarrow> bool" where
  "reply_typed a (TestNatResponse n) = (tn_port n = sa_port a \<and> tn_cu n = None)"
| "reply_typed a (OnlineResponse states) = True"
| "reply_typed a _ = False"

fun data_typed :: "externals \<Rightarrow> data \<Rightarrow> bool" where
  "data_typed x (Msg m _) = datagram_typed x m"
| "data_typed x _ = True"

definition typed :: "externals \<Rightarrow> shared \<Rightarrow> bool" where
  "typed x s \<longleftrightarrow> (\<forall>(m, a) \<in> set (udp_out s). datagram_typed x m) \<and>
     (\<forall>(k, m) \<in> set (sink_out s). stream_typed x m) \<and> (\<forall>d \<in> set (tx s). data_typed x d)"

lemma typed_same:
  "udp_out s' = udp_out s \<Longrightarrow> sink_out s' = sink_out s \<Longrightarrow> tx s' = tx s \<Longrightarrow> typed x s' = typed x s"
  by (simp add: typed_def)

lemma typed_updates [simp]:
  "typed x (s\<lparr>pmap := pm\<rparr>) = typed x s" "typed x (s\<lparr>ip_blocker := bl\<rparr>) = typed x s"
  "typed x (s\<lparr>ip_changes := ch\<rparr>) = typed x s" "typed x (s\<lparr>punch_reqs := ps\<rparr>) = typed x s"
  "typed x (s\<lparr>rotation := n\<rparr>) = typed x s" "typed x (s\<lparr>tcp_punch := t\<rparr>) = typed x s"
  "typed x (s\<lparr>spawned := ts\<rparr>) = typed x s" "typed x (s\<lparr>always_use_relay := b\<rparr>) = typed x s"
  by (simp_all add: typed_def)

subsection \<open>The three ways out\<close>

lemma udp_send_typed: "typed x s \<Longrightarrow> datagram_typed x m \<Longrightarrow> typed x (fst (udp_send e m a s))"
  by (auto simp: typed_def udp_send_def)

lemma tx_send_typed: "typed x s \<Longrightarrow> data_typed x d \<Longrightarrow> typed x (fst (tx_send e d s))"
  by (auto simp: typed_def tx_send_def)

lemma send_to_sink_typed: "typed x s \<Longrightarrow> stream_typed x m \<Longrightarrow> typed x (send_to_sink x k m s)"
  by (auto simp: typed_def send_to_sink_def split: option.split)

lemma send_to_tcp_typed:
  "typed x s \<Longrightarrow> stream_typed x m \<Longrightarrow> typed x (send_to_tcp x m a s)"
  "typed x s \<Longrightarrow> stream_typed x m \<Longrightarrow> typed x (send_to_tcp_sync x m a s)"
  by (simp_all add: send_to_tcp_def send_to_tcp_sync_def Let_def send_to_sink_typed)

lemmas sends_typed = udp_send_typed tx_send_typed send_to_sink_typed send_to_tcp_typed

subsection \<open>The handlers\<close>

lemma get_pk_typed: "get_pk x e h v i s = (k, s') \<Longrightarrow> typed x s' = typed x s"
  by (auto simp: get_pk_def split: if_splits option.splits prod.splits)

lemma get_relay_server_typed: "get_relay_server h s = (r, s') \<Longrightarrow> typed x s' = typed x s"
  using get_relay_server_shared [of h s] by (auto simp: get_relay_server_def Let_def split: if_splits)

lemma punch_message_typed:
  assumes "punch_message x e h a b n ws s = (m, s')"
  shows "typed x s' = typed x s" and "datagram_typed x m"
  using assms get_relay_server_typed [OF prod.collapse [symmetric], where h = h and s = s]
  by (auto simp: punch_message_def Let_def case_prod_beta split: if_splits)

lemma phr_fail_typed [simp]: "datagram_typed x (phr_fail f)" "stream_typed x (phr_fail f)"
  by (simp_all add: phr_fail_def answer_typed_def)

lemma punch_request_typed:
  assumes "handle_punch_hole_request x e h a ph key ws s = ((m, to), s')" and "typed x s"
  shows "typed x s'" and "datagram_typed x m" and "to = None \<Longrightarrow> stream_typed x m"
  using assms
  by (auto simp: handle_punch_hole_request_def Let_def punch_message_typed split: if_splits option.splits prod.splits)

lemma request_typed:
  assumes "typed x s"
  shows "typed x (fst (handle_udp_punch_hole_request x e h a ph key s))"
    and "typed x (fst (handle_tcp_punch_hole_request x e h a ph key ws s))"
proof -
  show "typed x (fst (handle_udp_punch_hole_request x e h a ph key s))"
    by (auto simp: handle_udp_punch_hole_request_def dest: punch_request_typed(1,2) [OF _ assms]
        intro!: tx_send_typed split: prod.split)
  show "typed x (fst (handle_tcp_punch_hole_request x e h a ph key ws s))"
    by (auto simp: handle_tcp_punch_hole_request_def dest: punch_request_typed [OF _ assms]
        intro!: tx_send_typed send_to_tcp_typed split: prod.split option.split)
qed

lemma answer_typed:
  assumes "typed x s"
  shows "typed x (fst (handle_hole_sent x e h phs a udp s))" and "typed x (fst (handle_local_addr x e h la a udp s))"
proof -
  have answer: "typed x (fst (if udp then udp_send e (PunchHoleResponse r) b s' else (send_to_tcp x (PunchHoleResponse r) b s', Inr ())))"
    if "get_pk x e h v i s = (k, s')" "answer_typed x r" for v i k s' r b
    using that assms get_pk_typed [OF that(1)] by (simp add: sends_typed)
  show "typed x (fst (handle_hole_sent x e h phs a udp s))"
    unfolding handle_hole_sent_def Let_def split_beta
    by (rule answer [OF prod.collapse [symmetric]]) (simp add: answer_typed_def)
  show "typed x (fst (handle_local_addr x e h la a udp s))"
    unfolding handle_local_addr_def Let_def split_beta
    by (rule answer [OF prod.collapse [symmetric]]) (simp add: answer_typed_def)
qed

lemma relay_typed:
  assumes "typed x s"
  shows "typed x (handle_relay_response x e h rr s)" and "typed x (handle_request_relay x e a rf s)"
proof -
  show "typed x (handle_request_relay x e a rf s)"
    using assms by (auto simp: handle_request_relay_def intro!: tx_send_typed split: option.split)
  have pk: "typed x (snd (get_pk x e h v i s)) = typed x s" for v i
    by (rule get_pk_typed [OF prod.collapse [symmetric]])
  have rs: "typed x (snd (get_relay_server h s')) = typed x s'" for s'
    by (rule get_relay_server_typed [OF prod.collapse [symmetric]])
  show "typed x (handle_relay_response x e h rr s)"
    unfolding handle_relay_response_def Let_def split_beta
    by (rule send_to_tcp_typed(2)) (use assms in \<open>simp_all add: pk rs\<close>)
qed

lemma update_addr_typed: "typed x s \<Longrightarrow> typed x (fst (update_addr e i addr s))"
  by (auto simp: update_addr_def Let_def intro!: udp_send_typed split: option.split)

lemma register_pk_typed:
  assumes "typed x s"
  shows "typed x (fst (handle_register_pk x e addr rk s))"
proof (cases "rk_uuid rk = [] \<or> rk_pk rk = []")
  case True
  with assms show ?thesis by (auto simp: handle_register_pk_def)
next
  case False
  then have "rk_uuid rk \<noteq> []" "rk_pk rk \<noteq> []" by auto
  moreover have "typed x (fst (send_rk_res e addr r s1))" if "typed x s1" "r \<in> {OK, UUID_MISMATCH, TOO_FREQUENT}" for r s1
    using that unfolding send_rk_res_def by (intro udp_send_typed) auto
  ultimately show ?thesis
    by (cases rule: handle_register_pk_cases [where x = x and e = e and addr = addr and s = s]) (simp_all add: assms)
qed

lemma register_peer_typed:
  assumes "typed x s"
  shows "typed x (fst (handle_register_peer e h addr rp s))"
  using update_addr_typed [OF assms, of e "rp_id rp" addr]
  by (auto simp: handle_register_peer_def assms intro!: udp_send_typed split: prod.split sum.split)

lemma handle_udp_typed: "typed x s \<Longrightarrow> typed x (fst (snd (handle_udp x e key bs addr h s)))"
  by (simp add: handle_udp_def handle_software_update_def register_peer_typed register_pk_typed request_typed answer_typed
      udp_send_typed split: option.split rmsg.split)

lemma handle_tcp_typed: "typed x s \<Longrightarrow> typed x (snd (snd (handle_tcp x e h key bs sk addr ws s)))"
proof -
  assume "typed x s"
  moreover have "typed x (park_sink x addr sk s) = typed x s"
    by (simp add: park_sink_def put_sink_def split: option.split)
  ultimately show ?thesis
    by (simp add: handle_tcp_def request_typed relay_typed answer_typed send_to_sink_typed test_nat_reply_def
        split: option.split rmsg.split)
qed

lemma close_connection_typed [simp]: "typed x (close_connection y a sk s) = typed x s"
  by (simp add: close_connection_def remove_sink_def)

lemma check_relay_servers_typed: "typed x s \<Longrightarrow> typed x (check_relay_servers e port acc fin s)"
  by (simp add: check_relay_servers_def Let_def tx_send_typed)

lemma check_cmd_tx:
  "\<forall>d \<in> set (tx (snd (server_check_cmd ls e h cmd s))). d \<in> set (tx s) \<or> (\<exists>r. d = RelayServers0 r)"
  by (auto simp: server_check_cmd_def case_prod_beta Let_def relay_servers_cmd_def always_use_relay_cmd_def
      test_geo_cmd_def tx_send_def get_relay_server_def split: option.split)

lemma check_cmd_typed: "typed x s \<Longrightarrow> typed x (snd (server_check_cmd ls e h cmd s))"
  using check_cmd_tx [of ls e h cmd s] by (fastforce simp: typed_def)

subsection \<open>The whole server\<close>

lemma server_step_typed: "server_step x key P v v' \<Longrightarrow> typed x (sv_shared v) \<Longrightarrow> typed x (sv_shared v')"
proof (induction rule: server_step.induct)
  case (Datagram v e bs addr h' s' r)
  with handle_udp_typed [of x "sv_shared v" e key bs addr "sv_handle v"] show ?case by simp
next
  case (Channel v e d ds h' s')
  then have "typed x ((sv_shared v)\<lparr>tx := ds\<rparr>)" "data_typed x d" by (auto simp: typed_def)
  with Channel(4) show ?case by (cases d) (auto intro: udp_send_typed)
next
  case (Task e v ts t us s')
  then show ?case by (cases t) (simp add: request_typed)
next
  case (Frame e v n c bs sk s')
  with handle_tcp_typed [of x "sv_shared v" e "c_handle c" key bs "c_sink c" "c_addr c" "c_ws c"] show ?case by simp
next
  case (Last_Frame e v n c bs sk s')
  with handle_tcp_typed [of x "sv_shared v" e "c_handle c" key bs "c_sink c" "c_addr c" "c_ws c"] show ?case by simp
qed (simp_all add: check_relay_servers_typed check_cmd_typed)

lemma listener2_reply_typed: "listener2_reply x now a bs pm = Some m \<Longrightarrow> reply_typed a m"
  by (auto simp: listener2_reply_def handle_online_request_def split: option.splits rmsg.splits)

lemma server_step_replies:
  assumes "server_step x key P v v'" and "\<forall>(a, m) \<in> set (sv_replies v). reply_typed a m"
  shows "\<forall>(a, m) \<in> set (sv_replies v'). reply_typed a m"
  using assms by (induction rule: server_step.induct) (auto dest!: listener2_reply_typed [OF sym] split: option.splits)

lemma server_reaches_replies:
  "server_reaches x key P v0 v \<Longrightarrow> \<forall>(a, m) \<in> set (sv_replies v0). reply_typed a m \<Longrightarrow>
     \<forall>(a, m) \<in> set (sv_replies v). reply_typed a m"
  by (induction rule: server_reaches.induct) (use server_step_replies in auto)

lemma server_reaches_typed: "server_reaches x key P v0 v \<Longrightarrow> typed x (sv_shared v0) \<Longrightarrow> typed x (sv_shared v)"
  by (induction rule: server_reaches.induct) (auto intro: server_step_typed)

text \<open>
  C10. The server speaks only its own half of the protocol: in every run, whatever clients send and in any order, a datagram it sends is a
  registration reply (never "not supported" or "server error"), a configuration or update notice, or a brokering message whose address field holds an
  address the server saw itself and encoded, or comes from the peer that was asked for its local address; on a stream of the main and the websocket port it sends brokering and
  relay answers whose sender's address and id are cleared, NAT-test answers, and for a registration "not supported" only; and on the NAT-test port,
  to a client elsewhere, nothing but the port that client comes from or the bits of an online query. (An administrator on the machine itself
  is sent text, no messages.)
\<close>

theorem messages_well_typed:
  assumes "server_reaches x key P (start_server x file cfg ra rl av) v"
  shows "(\<forall>(m, a) \<in> set (udp_out (sv_shared v)). datagram_typed x m) \<and>
    (\<forall>(k, m) \<in> set (sink_out (sv_shared v)). stream_typed x m) \<and>
    (\<forall>(a, m) \<in> set (sv_replies v). reply_typed a m)"
proof -
  have "typed x (sv_shared (start_server x file cfg ra rl av))" by (simp add: typed_def start_server_def)
  moreover have "\<forall>(a, m) \<in> set (sv_replies (start_server x file cfg ra rl av)). reply_typed a m" by (simp add: start_server_def)
  ultimately show ?thesis using server_reaches_typed [OF assms] server_reaches_replies [OF assms] by (simp add: typed_def)
qed

text \<open>The reply to a first registration.\<close>

lemma messages_well_typed_witness:
  "\<exists>v :: server. udp_out (sv_shared v) = [(RegisterPkResponse OK, SocketV4 1 2)] \<and>
    (\<forall>(m, a) \<in> set (udp_out (sv_shared v)). datagram_typed (attack_ext sample_rk) m)"
proof -
  let ?x = "attack_ext sample_rk"
  let ?v0 = "start_server ?x None (h_inner sample_handle) [] [] []"
  let ?u = "handle_udp ?x (sample_env 0) [] [1] (SocketV4 1 2) (sv_handle ?v0) (sv_shared ?v0)"
  define v1 where "v1 = ?v0\<lparr>sv_handle := fst ?u, sv_shared := fst (snd ?u), sv_failed := udp_failure (snd (snd ?u))\<rparr>"
  have "server_reaches ?x [] (\<lambda>_. True) ?v0 v1"
    unfolding v1_def by (rule datagram_reaches) (simp_all add: start_server_def)
  from messages_well_typed [OF this]
  have "\<forall>(m, a) \<in> set (udp_out (sv_shared v1)). datagram_typed ?x m" ..
  moreover have "udp_out (sv_shared v1) = [(RegisterPkResponse OK, SocketV4 1 2)]"
    by (simp add: v1_def start_server_def handle_udp_def attack_ext_def)
      (simp add: handle_register_pk_def check_ip_blocker_def pm_get_or_def
        pm_get_def get_peer_def add_peer_def peer_at_def rk_compare_def
        reg_pk_attempt_def peer_default_def set_peer_def pm_update_pk_def insert_peer_def
        peer_of_def send_rk_res_def udp_send_def Let_def)
  ultimately show ?thesis by blast
qed

end
