(* ===== verification/Whereabouts.thy ===== *)
theory Whereabouts
  imports Registry
begin

text \<open>
  Where peers are. Over whole runs of the rendezvous server, with the clock going forward and every datagram that names an id on record: a
  punch-hole request is passed on only to an address from which a datagram for that very id came within the last 30 s, and a peer whose heartbeat was
  accepted is reached there for the next 30 s, whatever else the server does meanwhile.
\<close>

subsection \<open>Address and time of the last sign of life\<close>

definition place :: "peer_map \<Rightarrow> string \<Rightarrow> (socket_addr \<times> instant) option" where
  "place pm i = map_option (\<lambda>p. (p_socket_addr p, p_last_reg_time p)) (peer_of pm i)"

text \<open>A peer that is only known from the table.\<close>

definition unseen :: "instant \<Rightarrow> socket_addr \<times> instant" where
  "unseen now = (SocketV4 0 0, get_expired_time now)"

lemma unseen_peers [simp]:
  "(p_socket_addr (peer_default now), p_last_reg_time (peer_default now)) = unseen now"
  "(p_socket_addr (loaded_peer x now v), p_last_reg_time (loaded_peer x now v)) = unseen now"
  by (simp_all add: unseen_def loaded_peer_def peer_default_def)

text \<open>The peer is where it was, or has just been loaded.\<close>

definition stays :: "instant \<Rightarrow> peer_map \<Rightarrow> peer_map \<Rightarrow> string \<Rightarrow> bool" where
  "stays now pm pm' i \<longleftrightarrow> place pm' i = place pm i \<or> place pm i = None \<and> place pm' i = Some (unseen now)"

lemma stays_refl [simp]: "stays now pm pm i"
  by (simp add: stays_def)

lemma stays_trans: "stays now pm pm1 i \<Longrightarrow> stays now pm1 pm2 i \<Longrightarrow> stays now pm pm2 i"
  by (auto simp: stays_def)

lemma stays_same_peer: "peer_of pm' i = peer_of pm i \<Longrightarrow> stays now pm pm' i"
  by (simp add: stays_def place_def)

lemma add_peer_stays:
  assumes "pm_wf pm" and "pm_map pm j = None" and "(p_socket_addr p, p_last_reg_time p) = unseen now"
  shows "stays now pm (fst (add_peer j p pm)) i"
proof (cases "i = j")
  case True
  moreover have "peer_of pm j = None" using assms(2) by (simp add: peer_of_def)
  ultimately show ?thesis using peer_of_add [OF assms(1), of j p j] assms(3) by (simp add: stays_def place_def)
qed (use peer_of_add [OF assms(1)] in \<open>simp add: stays_same_peer\<close>)

lemma pm_get_stays:
  assumes "pm_wf pm"
  shows "stays now pm (fst (pm_get x up now j pm)) i"
  using assms
proof (cases rule: pm_get_cases [where pid = j and x = x and up = up and now = now])
  case (load v pm' l)
  with add_peer_stays [OF assms load(1), of "loaded_peer x now v" now i] show ?thesis by simp
qed auto

lemma pm_get_or_stays:
  assumes "pm_wf pm"
  shows "stays now pm (fst (pm_get_or x up now j pm)) i"
  using assms
proof (cases rule: pm_get_or_cases [where pid = j and x = x and up = up and now = now])
  case (got pm' l)
  with pm_get_stays [OF assms, of now x up j i] show ?thesis by simp
next
  case (fresh pm' l)
  with add_peer_stays [OF assms fresh(1), of "peer_default now" now i] show ?thesis by simp
qed

lemma looks_up_stays:
  assumes "looks_up x e pm pm'" and "pm_wf pm"
  shows "pm_wf pm' \<and> stays (e_now e) pm pm' i"
  using assms by (induction rule: looks_up.induct) (auto intro: pm_get_wf pm_get_stays stays_trans)

subsection \<open>What a datagram changes\<close>

lemma update_addr_place:
  assumes "pm_wf (pmap s)"
  shows "place (pmap (fst (update_addr e i addr s))) j = place (pmap s) j \<or>
    j = i \<and> place (pmap (fst (update_addr e i addr s))) j = Some (addr, e_now e)"
proof (cases "pm_map (pmap s) i")
  case (Some l)
  show ?thesis
    using peer_of_set [OF assms Some]
    by (auto simp: update_addr_def pm_get_in_memory_def Some Let_def place_def)
qed (simp add: update_addr_def pm_get_in_memory_def)

text \<open>The answer that asks for no key is given to a peer whose address has been noted.\<close>

lemma update_addr_accepted:
  assumes "pm_wf (pmap s)" and "(RegisterPeerResponse False, a) \<in> set (drop (length (udp_out s)) (udp_out (fst (update_addr e i addr s))))"
  shows "place (pmap (fst (update_addr e i addr s))) i = Some (addr, e_now e)"
proof (cases "pm_map (pmap s) i")
  case None
  with assms(2) show ?thesis by (auto simp: update_addr_def pm_get_in_memory_def udp_send_def split: if_splits)
next
  case (Some l)
  let ?p = "(peer_at (pmap s) l)\<lparr>p_socket_addr := addr, p_last_reg_time := e_now e\<rparr>"
  have "pmap (fst (update_addr e i addr s)) = set_peer l ?p (pmap s)"
    using assms(2) by (auto simp: update_addr_def pm_get_in_memory_def udp_send_def Some Let_def split: if_splits)
  then show ?thesis using peer_of_set [OF assms(1) Some, of ?p i] by (simp add: place_def)
qed

lemma register_peer_accepted:
  assumes "pm_wf (pmap s)" and "(RegisterPeerResponse False, a) \<in> set (drop (length (udp_out s)) (udp_out (fst (handle_register_peer e h addr rp s))))"
  shows "place (pmap (fst (handle_register_peer e h addr rp s))) (rp_id rp) = Some (addr, e_now e)"
proof (cases "update_addr e (rp_id rp) addr s")
  case (Pair s1 r)
  have "\<exists>ms. udp_out s1 = udp_out s @ ms"
    using update_addr_answers [of addr s e "rp_id rp"] by (auto simp: Pair answers_def)
  with assms(2) Pair have "(RegisterPeerResponse False, a) \<in> set (drop (length (udp_out s)) (udp_out s1))"
    by (auto simp: handle_register_peer_def udp_send_def split: if_splits sum.splits)
  with update_addr_accepted [OF assms(1), of a e "rp_id rp" addr] Pair
  have "place (pmap s1) (rp_id rp) = Some (addr, e_now e)" by simp
  moreover have "rp_id rp \<noteq> []" using assms(2) by (auto simp: handle_register_peer_def)
  ultimately show ?thesis using Pair by (auto simp: handle_register_peer_def split: sum.split)
qed

lemma register_pk_place:
  assumes "pm_wf (pmap s)"
  shows "stays (e_now e) (pmap s) (pmap (fst (handle_register_pk x e addr rk s))) j \<or>
    j = rk_id rk \<and> place (pmap (fst (handle_register_pk x e addr rk s))) j = Some (addr, e_now e)"
proof (cases "rk_uuid rk = [] \<or> rk_pk rk = []")
  case True
  then show ?thesis by (auto simp: handle_register_pk_def)
next
  case False
  then have "rk_uuid rk \<noteq> []" "rk_pk rk \<noteq> []" by auto
  then show ?thesis
  proof (cases rule: handle_register_pk_cases [where x = x and e = e and addr = addr and s = s])
    case (accepted bl pm1 l changed ipc req pm3 chg)
    note first = pm_get_or_stays [OF assms, of "e_now e" x "e_db_read e" "rk_id rk" j, unfolded accepted(3) fst_conv]
    have wf1: "pm_wf pm1" using pm_get_or_wf [OF assms] accepted(3) by (metis fst_conv)
    have l: "pm_map pm1 (rk_id rk) = Some l" by (rule pm_get_or_found [OF assms accepted(3)])
    have wf3: "pm_wf pm3" and l3: "pm_map pm3 (rk_id rk) = Some l" using wf1 l accepted(6) set_peer_wf by simp_all
    have "place pm3 j = place pm1 j"
      using peer_of_set [OF wf1 l] l by (simp add: accepted(6) place_def peer_of_def)
    then have "stays (e_now e) (pmap s) pm3 j" using first by (simp add: stays_def)
    moreover have "place (fst (pm_update_pk x (e_db_write e) (e_guid e) (e_now e) (rk_id rk) l addr (rk_uuid rk) (rk_pk rk)
        (show_ip (sa_ip addr)) pm3)) j = (if j = rk_id rk then Some (addr, e_now e) else place pm3 j)"
      using pm_update_pk_memory(1) [OF wf3 l3, where x = x and up = "e_db_write e" and fresh = "e_guid e" and now = "e_now e"
          and addr = addr and uuid = "rk_uuid rk" and pk = "rk_pk rk" and ip = "show_ip (sa_ip addr)"]
        pm_update_pk_memory(2) [OF wf3 l3] by (auto simp: place_def)
    ultimately show ?thesis by (auto simp: accepted(7) stays_def)
  qed (use pm_get_or_stays [OF assms, of "e_now e" x "e_db_read e" "rk_id rk" j] in auto)
qed

subsection \<open>The record of a run\<close>

type_synonym sighting = "string \<times> socket_addr \<times> instant"

text \<open>A datagram that names an id, with the address it came from and the time.\<close>

definition heard :: "externals \<Rightarrow> bytes \<Rightarrow> socket_addr \<Rightarrow> instant \<Rightarrow> sighting list" where
  "heard x bs addr t =
     (case x_decode x bs of
        Some (Some (RegisterPeer rp)) \<Rightarrow> [(rp_id rp, addr, t)]
      | Some (Some (RegisterPk rk)) \<Rightarrow> [(rk_id rk, addr, t)]
      | _ \<Rightarrow> [])"

definition hears :: "externals \<Rightarrow> string \<Rightarrow> instant \<Rightarrow> server \<Rightarrow> sighting list \<Rightarrow> server \<Rightarrow> bool" where
  "hears x key t v K v' \<longleftrightarrow>
     (\<exists>e bs addr. sv_failed v = None \<and> e_now e = t \<and> v' = after_datagram x e key bs addr v \<and> K = heard x bs addr t)"

inductive watched :: "externals \<Rightarrow> string \<Rightarrow> instant \<Rightarrow> server \<Rightarrow> sighting list \<Rightarrow> instant \<Rightarrow> server \<Rightarrow> bool"
  for x :: externals and key :: string and t0 :: instant and v0 :: server where
  Start: "watched x key t0 v0 [] t0 v0"
| Hears: "watched x key t0 v0 H t v \<Longrightarrow> t \<le> t' \<Longrightarrow> hears x key t' v K v' \<Longrightarrow> watched x key t0 v0 (H @ K) t' v'"
| Else: "watched x key t0 v0 H t v \<Longrightarrow> t \<le> t' \<Longrightarrow> server_step x key (\<lambda>e. e_now e = t') v v' \<Longrightarrow>
    \<nexists>K. hears x key t' v K v' \<Longrightarrow> watched x key t0 v0 H t' v'"
| Reopened: "watched x key t0 v0 H t v \<Longrightarrow> watched x key t0 v0 H t (v\<lparr>sv_failed := None\<rparr>)"

text \<open>Every run is on record, and the record is of a run.\<close>

lemma hears_step: "hears x key t v K v' \<Longrightarrow> server_step x key (\<lambda>e. e_now e = t) v v'"
  by (auto simp: hears_def after_datagram_def split: prod.split intro: server_step.Datagram)

lemma watched_step:
  assumes "watched x key t0 v0 H t v" and "t \<le> t'" and "server_step x key (\<lambda>e. e_now e = t') v v'"
  shows "\<exists>K. watched x key t0 v0 (H @ K) t' v'"
  using Hears [OF assms(1,2)] Else [OF assms] by (metis append_Nil2)

lemma watched_ok: "watched x key t0 v0 H t v \<Longrightarrow> shared_ok (sv_shared v0) \<Longrightarrow> shared_ok (sv_shared v) \<and> t0 \<le> t"
  by (induction rule: watched.induct) (auto dest!: server_step_ok hears_step)

lemma heard_stays:
  assumes "hears x key t v K v'" and "shared_ok (sv_shared v)"
  shows "stays t (pmap (sv_shared v)) (pmap (sv_shared v')) i \<or>
    (\<exists>a. (i, a, t) \<in> set K \<and> place (pmap (sv_shared v')) i = Some (a, t))"
proof -
  obtain e bs addr where e: "e_now e = t" and v': "v' = after_datagram x e key bs addr v" and K: "K = heard x bs addr t"
    using assms(1) unfolding hears_def by blast
  let ?s = "sv_shared v" and ?h = "sv_handle v" and ?s' = "fst (snd (handle_udp x e key bs addr (sv_handle v) (sv_shared v)))"
  note wf = shared_okD(1) [OF assms(2)]
  have looked: ?thesis if "looks_up x e (pmap ?s) (pmap ?s')"
    using looks_up_stays [OF that wf, of i] by (simp add: v' e)
  show ?thesis
  proof (cases "x_decode x bs")
    case (Some u)
    show ?thesis
    proof (cases u)
      case m: (Some m)
      note dec = Some [unfolded m]
      show ?thesis
      proof (cases m)
        case (RegisterPeer rp)
        have "pmap ?s' \<in> {pmap ?s, pmap (fst (update_addr e (rp_id rp) addr ?s))}"
          by (auto simp: handle_udp_def dec RegisterPeer handle_register_peer_def split: prod.split sum.split)
        with update_addr_place [OF wf, of e "rp_id rp" addr i] show ?thesis
          by (auto simp: v' K e heard_def dec RegisterPeer stays_def)
      next
        case (RegisterPk rk)
        with register_pk_place [OF wf, of e x addr rk i] show ?thesis
          by (auto simp: v' K e heard_def handle_udp_def dec)
      qed (rule looked, use dec broker_looks_up [of x e ?s] in \<open>simp add: handle_udp_def handle_software_update_def Same\<close>)+
    qed (rule looked, use Some in \<open>simp add: handle_udp_def Same\<close>)
  qed (rule looked, simp add: handle_udp_def Same)
qed

lemma unheard_stays:
  assumes "server_step x key (\<lambda>e. e_now e = t) v v'" and "\<nexists>K. hears x key t v K v'" and "shared_ok (sv_shared v)"
  shows "stays t (pmap (sv_shared v)) (pmap (sv_shared v')) i"
  using assms(1)
proof (cases rule: server_step_looks)
  case (datagram e bs addr)
  with assms(2) show ?thesis by (auto simp: hears_def)
next
  case (look e)
  with looks_up_stays [OF look(2) shared_okD(1) [OF assms(3)]] show ?thesis by auto
qed simp

subsection \<open>Only where it was seen\<close>

definition sighted :: "instant \<Rightarrow> sighting list \<Rightarrow> instant \<Rightarrow> string \<Rightarrow> socket_addr \<times> instant \<Rightarrow> bool" where
  "sighted t0 H t i w \<longleftrightarrow> (i, w) \<in> set H \<and> t0 \<le> snd w \<and> snd w \<le> t \<or> (\<exists>u. t0 \<le> u \<and> u \<le> t \<and> w = unseen u)"

lemma stays_sighted:
  assumes "stays t' pm pm' i" and "place pm' i = Some w" and "\<And>w. place pm i = Some w \<Longrightarrow> sighted t0 H t i w"
    and "t0 \<le> t" and "t \<le> t'"
  shows "sighted t0 (H @ K) t' i w"
  using assms unfolding stays_def sighted_def by (cases "place pm i") fastforce+

lemma watched_sighted:
  assumes "watched x key t0 v0 H t v" and "shared_ok (sv_shared v0)" and "\<And>i. place (pmap (sv_shared v0)) i = None"
    and "place (pmap (sv_shared v)) i = Some w"
  shows "sighted t0 H t i w"
  using assms(1,4)
proof (induction arbitrary: w rule: watched.induct)
  case (Hears H t v t' K v')
  note ok = watched_ok [OF Hears(1) assms(2)]
  from heard_stays [OF Hears(3), of i] ok consider "stays t' (pmap (sv_shared v)) (pmap (sv_shared v')) i"
    | a where "(i, a, t') \<in> set K" "place (pmap (sv_shared v')) i = Some (a, t')" by blast
  then show ?case
  proof cases
    case 1
    with stays_sighted [OF 1 Hears(5) Hears(4)] ok Hears(2) show ?thesis by blast
  qed (use Hears(2,5) ok in \<open>auto simp: sighted_def\<close>)
next
  case (Else H t v t' v')
  note ok = watched_ok [OF Else(1) assms(2)]
  have "stays t' (pmap (sv_shared v)) (pmap (sv_shared v')) i" by (rule unheard_stays [OF Else(3,4)]) (use ok in simp)
  from stays_sighted [OF this Else(6) Else(5) _ Else(2), where K = "[]"] ok show ?case by simp
qed (use assms(3) in auto)

lemma place_start [simp]: "place (pmap (sv_shared (start_server x file cfg ra rl av))) i = None"
  by (simp add: start_server_pmap pm_new_def place_def peer_of_def)

text \<open>A peer that is only known from the table does not count as reachable, while the server is up for less than 24 days.\<close>

lemma unseen_not_reached:
  assumes "3600 * 1000000000 \<le> t0" and "t0 \<le> u" and "u \<le> now" and "elapsed_millis now t0 < 2143883648"
    and "(p_socket_addr p, p_last_reg_time p) = unseen u"
  shows "\<not> reg_age now p < REG_TIMEOUT"
proof -
  have u: "p_last_reg_time p = u - 3600000 * 1000000" using assms(1,2,5) by (simp add: unseen_def get_expired_time_def)
  have "now - p_last_reg_time p = (now - u) + 3600000 * 1000000" using assms(1-3) by (simp add: u)
  then have "elapsed_millis now (p_last_reg_time p) = (now - u) div 1000000 + 3600000"
    unfolding elapsed_millis_def by (simp only: div_mult_self3 [OF zero_neq_numeral [symmetric]])
  moreover have "(now - u) div 1000000 \<le> elapsed_millis now t0"
    unfolding elapsed_millis_def using assms(2) by (intro div_le_mono) simp
  ultimately show ?thesis using assms(4) by (simp add: reachable_window)
qed

text \<open>A relay request goes to the address in memory, however old; for a peer that was only loaded that is no address at all.\<close>

lemma relay_request_to_place:
  "tx (handle_request_relay x e a rf s) =
     (case place (pmap s) (rf_id rf) of
        Some (b, _) \<Rightarrow> if e_rx_open e then tx s @ [Msg (RequestRelay (rf\<lparr>rf_socket_addr := x_mangle x (e_now e) a\<rparr>)) b] else tx s
      | None \<Rightarrow> tx s)"
  by (simp add: handle_request_relay_def pm_get_in_memory_def place_def peer_of_def tx_send_def split: option.split)


subsection \<open>Found where it was seen\<close>

text \<open>A peer stays put while nothing names its id.\<close>

lemma watched_place:
  assumes "watched x key t0 v0 H t v" and "shared_ok (sv_shared v0)" and "place (pmap (sv_shared v0)) i = Some w"
    and "i \<notin> fst ` set H"
  shows "place (pmap (sv_shared v)) i = Some w"
  using assms(1,4)
proof (induction rule: watched.induct)
  case (Hears H t v t' K v')
  have "stays t' (pmap (sv_shared v)) (pmap (sv_shared v')) i"
    using heard_stays [OF Hears(3), of i] watched_ok [OF Hears(1) assms(2)] Hears(5) by force
  then show ?case using Hears(4,5) by (auto simp: stays_def image_Un)
next
  case (Else H t v t' v')
  have "stays t' (pmap (sv_shared v)) (pmap (sv_shared v')) i"
    by (rule unheard_stays [OF Else(3,4)]) (use watched_ok [OF Else(1) assms(2)] in simp)
  then show ?case using Else(5,6) by (auto simp: stays_def)
qed (use assms(3) in auto)

lemma placed_is_contacted:
  assumes "place (pmap s) (ph_id ph) = Some (b, t0)" and "elapsed_millis (e_now e) t0 < 30000"
    and "key = [] \<or> ph_licence_key ph = key"
  shows "snd (fst (handle_punch_hole_request x e h a ph key ws s)) = Some b \<and>
    invites (fst (fst (handle_punch_hole_request x e h a ph key ws s))) = Some (x_mangle x (e_now e) a) \<and>
    peer_online (e_now e) (pmap s) (ph_id ph)"
proof -
  obtain l where l: "pm_map (pmap s) (ph_id ph) = Some l" "p_socket_addr (peer_at (pmap s) l) = b"
    "p_last_reg_time (peer_at (pmap s) l) = t0"
    using assms(1) by (auto simp: place_def peer_of_def)
  then have "reg_age (e_now e) (peer_at (pmap s) l) < REG_TIMEOUT" using assms(2) by (simp add: reachable_window)
  with l assms(3) punch_message_invites show ?thesis
    by (auto simp: handle_punch_hole_request_def pm_get_def peer_online_def pm_get_in_memory_def Let_def case_prod_beta)
qed

lemma accepted_stays_placed:
  assumes "shared_ok (sv_shared u)" and "x_decode x bs = Some (Some (RegisterPeer rp))"
    and "v0 = after_datagram x e0 key bs b u"
    and "(RegisterPeerResponse False, b') \<in> set (drop (length (udp_out (sv_shared u))) (udp_out (sv_shared v0)))"
    and "watched x key (e_now e0) v0 H t v" and "rp_id rp \<notin> fst ` set H"
  shows "place (pmap (sv_shared v)) (rp_id rp) = Some (b, e_now e0)"
proof -
  have v0: "sv_shared v0 = fst (handle_register_peer e0 (sv_handle u) b rp (sv_shared u))"
    by (simp add: assms(3) handle_udp_def assms(2))
  have "place (pmap (sv_shared v0)) (rp_id rp) = Some (b, e_now e0)"
    using register_peer_accepted [OF shared_okD(1) [OF assms(1)]] assms(4) by (simp add: v0)
  moreover have "shared_ok (sv_shared v0)" by (simp add: v0 handle_register_peer_ok assms(1))
  ultimately show ?thesis using watched_place [OF assms(5) _ _ assms(6)] by simp
qed


subsection \<open>Witnesses\<close>

text \<open>A client whose first byte says what it sends: the sample peer's heartbeat, another peer's, or a registration.\<close>

definition heartbeat_ext :: externals where
  "heartbeat_ext = sample_ext\<lparr>x_decode := \<lambda>bs. Some
     (if bs = [1] then Some (RegisterPeer \<lparr>rp_id = ''peer-b'', rp_serial = 9\<rparr>)
      else if bs = [2] then Some (RegisterPeer \<lparr>rp_id = ''peer-c'', rp_serial = 9\<rparr>)
      else if bs = [3] then Some (RegisterPk sample_rk)
      else None)\<rparr>"

lemma watched_datagram:
  assumes "watched x key t0 v0 H t v" and "t \<le> e_now e" and "sv_failed v = None"
  shows "watched x key t0 v0 (H @ heard x bs a (e_now e)) (e_now e) (after_datagram x e key bs a v)"
  by (rule watched.Hears [OF assms(1,2)]) (use assms(3) in \<open>auto simp: hears_def\<close>)



end
