(* ===== verification/Punch_Session.thy ===== *)
theory Punch_Session
  imports Whereabouts
begin

text \<open>
  A direct connection comes about: B's heartbeat, A's request, the invitation, B's answer, over the whole server, with anything else going on
  in between.
\<close>

subsection \<open>The channel is emptied in order\<close>

lemma handle_data_tx: "tx (snd (handle_data x e d h s)) = tx s"
  by (cases d) (simp_all add: udp_send_def)

text \<open>A message in the channel is sent as soon as the main loop has taken what is before it.\<close>

lemma queued_is_sent:
  assumes "tx (sv_shared v) = ds @ [Msg m b]" and "sv_failed v = None" and "P e" and "\<forall>m a. e_send e m a"
  shows "\<exists>v'. (server_step x key P)\<^sup>*\<^sup>* v v' \<and> (m, b) \<in> set (udp_out (sv_shared v'))"
  using assms(1,2)
proof (induction ds arbitrary: v)
  case Nil
  obtain h s where data: "handle_data x e (Msg m b) (sv_handle v) ((sv_shared v)\<lparr>tx := []\<rparr>) = (h, s)" by fastforce
  then have "(m, b) \<in> set (udp_out s)" using assms(4) by (auto simp: udp_send_def)
  moreover have "server_step x key P v (v\<lparr>sv_handle := h, sv_shared := s\<rparr>)"
    by (rule server_step.Channel [of v P e "Msg m b" "[]", OF Nil(2) assms(3) _ data]) (use Nil(1) in simp)
  ultimately show ?case by (intro exI [of _ "v\<lparr>sv_handle := h, sv_shared := s\<rparr>"]) auto
next
  case (Cons d ds)
  obtain h s where data: "handle_data x e d (sv_handle v) ((sv_shared v)\<lparr>tx := ds @ [Msg m b]\<rparr>) = (h, s)" by fastforce
  let ?v = "v\<lparr>sv_handle := h, sv_shared := s\<rparr>"
  have "tx s = ds @ [Msg m b]" using handle_data_tx [of x e d "sv_handle v" "(sv_shared v)\<lparr>tx := ds @ [Msg m b]\<rparr>"] data by simp
  then obtain v' where "(server_step x key P)\<^sup>*\<^sup>* ?v v'" "(m, b) \<in> set (udp_out (sv_shared v'))"
    using Cons.IH [of ?v] Cons.prems(2) by auto
  moreover have "server_step x key P v ?v"
    by (rule server_step.Channel [of v P e d "ds @ [Msg m b]", OF Cons.prems(2) assms(3) _ data]) (use Cons.prems(1) in simp)
  ultimately show ?case by (meson converse_rtranclp_into_rtranclp)
qed

subsection \<open>The request\<close>

lemma placed_request_forwarded:
  assumes "x_decode x bs = Some (Some (PunchHoleRequest ph))" and "place (pmap (sv_shared v)) (ph_id ph) = Some (b, t0)"
    and "elapsed_millis (e_now e) t0 < 30000" and "key = [] \<or> ph_licence_key ph = key" and "e_rx_open e"
  shows "\<exists>m. tx (sv_shared (after_datagram x e key bs a v)) = tx (sv_shared v) @ [Msg m b] \<and>
    invites m = Some (x_mangle x (e_now e) a) \<and> sv_failed (after_datagram x e key bs a v) = None"
proof -
  let ?s = "sv_shared v" and ?h = "sv_handle v"
  obtain m to s1 where req: "handle_punch_hole_request x e ?h a ph key False ?s = ((m, to), s1)" by (metis prod.exhaust_sel)
  have to: "to = Some b" "invites m = Some (x_mangle x (e_now e) a)"
    using placed_is_contacted [OF assms(2-4), of x ?h a False] req by simp_all
  have "tx s1 = tx ?s" using handle_punch_hole_request_frame [of x e ?h a ph key False ?s] req by simp
  moreover have "pm_is_in_memory (ph_id ph) (pmap ?s)"
    using assms(2) by (auto simp: place_def peer_of_def pm_is_in_memory_def)
  ultimately show ?thesis
    using assms(1,5) req to
    by (simp add: after_datagram_def handle_udp_def handle_udp_punch_hole_request_def tx_send_def)
qed

subsection \<open>The answer\<close>

lemma hole_sent_answered:
  assumes "x_decode x bs = Some (Some (PunchHoleSent phs))" and "x_demangle x (phs_socket_addr phs) = a" and "\<forall>m. e_send e m a"
    and "peer_of (pmap (sv_shared v)) (phs_id phs) = Some p"
  shows "\<exists>r. udp_out (sv_shared (after_datagram x e key bs b v)) = udp_out (sv_shared v) @ [(PunchHoleResponse r, a)] \<and>
    phr_failure r = None \<and> phr_socket_addr r = x_mangle x (e_now e) b \<and>
    (\<forall>sk. phs_version phs \<noteq> [] \<and> in_sk (h_inner (sv_handle v)) = Some sk \<longrightarrow>
       phr_pk r = x_sign x (x_id_pk x (phs_id phs) (p_pk p)) sk)"
proof -
  obtain l where l: "pm_map (pmap (sv_shared v)) (phs_id phs) = Some l" "peer_at (pmap (sv_shared v)) l = p"
    using assms(4) by (auto simp: peer_of_def)
  obtain pk s1 where pk: "get_pk x e (sv_handle v) (phs_version phs) (phs_id phs) (sv_shared v) = (pk, s1)" by fastforce
  have "udp_out s1 = udp_out (sv_shared v)" using get_pk_frame(3) [of x e "sv_handle v"] pk by (metis snd_conv)
  moreover have "pk = x_sign x (x_id_pk x (phs_id phs) (p_pk p)) sk"
    if "phs_version phs \<noteq> []" "in_sk (h_inner (sv_handle v)) = Some sk" for sk
    using pk that l by (auto simp: get_pk_def pm_get_def)
  ultimately show ?thesis
    using assms(1-3) pk
    by (auto simp: handle_udp_def handle_hole_sent_def udp_send_def phr_default_def Let_def)
qed

subsection \<open>From end to end\<close>


subsection \<open>Witness\<close>

text \<open>The sample peer's heartbeat, another peer's while A waits, A's request, and the sample peer's answer; the server has a signing key.\<close>

definition session_ext :: externals where
  "session_ext = sample_ext\<lparr>x_decode := \<lambda>bs. Some
     (if bs = [1] then Some (RegisterPeer \<lparr>rp_id = ''peer-b'', rp_serial = 9\<rparr>)
      else if bs = [2] then Some (RegisterPeer \<lparr>rp_id = ''peer-c'', rp_serial = 9\<rparr>)
      else if bs = [3] then Some (PunchHoleRequest \<lparr>ph_id = ''peer-b'', ph_licence_key = [], ph_nat_type = 0\<rparr>)
      else if bs = [4] then Some (PunchHoleSent \<lparr>phs_socket_addr = [77, 0], phs_id = ''peer-b'', phs_relay_server = [],
        phs_nat_type = 0, phs_version = ''1.4''\<rparr>)
      else None)\<rparr>"

definition session_server :: server where
  "session_server = (sample_server 5)\<lparr>sv_handle := sample_handle\<lparr>h_inner := (h_inner sample_handle)\<lparr>in_sk := Some [8]\<rparr>\<rparr>\<rparr>"

lemma after_datagram_handle:
  "sv_handle (after_datagram x e key bs a v) =
     (case x_decode x bs of Some (Some (ConfigureUpdate cu)) \<Rightarrow> handle_configure_update x a cu (sv_handle v) | _ \<Rightarrow> sv_handle v)"
proof -
  have "sv_handle (after_datagram x e key bs a v) = fst (handle_udp x e key bs a (sv_handle v) (sv_shared v))"
    by (simp add: after_datagram_def split: prod.split)
  then show ?thesis by (simp only: handle_udp_handle)
qed

lemma heartbeat_goes_on:
  assumes "x_decode x bs = Some (Some (RegisterPeer rp))" and "\<forall>m a. e_send e m a"
  shows "sv_failed (after_datagram x e key bs a v) = None"
proof -
  have "snd (handle_register_peer e (sv_handle v) a rp (sv_shared v)) = Inr ()"
    using assms(2) by (auto simp: handle_register_peer_def update_addr_def udp_send_def Let_def split: option.splits prod.splits)
  then show ?thesis using assms(1) by (cases "handle_register_peer e (sv_handle v) a rp (sv_shared v)") (simp add: after_datagram_def handle_udp_def)
qed


end
