(* ===== verification/Relay_Refresh.thy ===== *)
theory Relay_Refresh
  imports Server
begin

text \<open>
  Changing the relay servers while a round of health checks is under way. The round was started with the old list, and its result
  replaces the list in use without a look at the configuration; with a single server configured no further
  round is started that could put it right.
\<close>

definition with_data :: "externals \<Rightarrow> env \<Rightarrow> data \<Rightarrow> server \<Rightarrow> server" where
  "with_data x e d v =
     (case handle_data x e d (sv_handle v) (sv_shared v) of
        (h', s') \<Rightarrow> v\<lparr>sv_handle := h', sv_shared := s'\<rparr>)"

lemma channel_step:
  "sv_failed v = None \<Longrightarrow> P e \<Longrightarrow> tx (sv_shared v) = [d] \<Longrightarrow>
     server_step x key P v (with_data x e d (v\<lparr>sv_shared := (sv_shared v)\<lparr>tx := []\<rparr>\<rparr>))"
  using server_step.Channel [where P = P and e = e and v = v and d = d and ds = "[]" and x = x and key = key,
      OF _ _ _ prod.collapse [symmetric]]
  by (simp add: with_data_def case_prod_beta)

lemma relay_servers_command:
  assumes "list_all (\<lambda>c. \<not> is_space c) r" and "r \<noteq> []" and "e_rx_open e"
  shows "snd (server_check_cmd ls e h (''rs '' @ r) s) = s\<lparr>tx := tx s @ [RelayServers0 r]\<rparr>"
proof -
  have "split_on CHR '' '' (trim (''rs '' @ r)) = [''rs'', r]"
    using command_words [of "''rs''" r] assms(1,2) by (simp add: is_space_def)
  with assms(3) show ?thesis
    by (simp add: server_check_cmd_def relay_servers_cmd_def arg_def tx_send_def)
qed

text \<open>
  C39. A round of health checks can undo a new relay configuration: from any state with several relay servers, the administrator
  can name one new server while a round runs, and end with the old servers in use and the new one only configured; no
  timer tick starts another round then.
\<close>

theorem stale_check_restores_relays:
  assumes "1 < length (h_relay_servers0 (sv_handle v))" and "tx (sv_shared v) = []" and "sv_checks v = []"
    and "sv_failed v = None"
    and "P e" and "e_rx_open e" and "is_loopback (sa_ip (x_into_v4 x addr))"
    and "admin_input arrived = Some (''rs '' @ r)" and "r \<noteq> []" and "list_all (\<lambda>c. \<not> is_space c \<and> c \<noteq> CHR '','') r" and "test_if_valid_server x r"
  shows "\<exists>v'. server_reaches x key P v v' \<and> h_relay_servers0 (sv_handle v') = [r] \<and>
    h_relay_servers (sv_handle v') = h_relay_servers0 (sv_handle v) \<and> sv_checks v' = [] \<and>
    \<not> 1 < length (h_relay_servers0 (sv_handle v'))"
proof -
  let ?rs0 = "h_relay_servers0 (sv_handle v)"
  define v1 where "v1 = v\<lparr>sv_checks := [?rs0]\<rparr>"
  define v1a where "v1a = v1\<lparr>sv_admins := sv_admins v1 @ [sv_handle v1]\<rparr>"
  define v2 where "v2 = v1a\<lparr>sv_shared := (sv_shared v)\<lparr>tx := [RelayServers0 r]\<rparr>, sv_admins := sv_admins v\<rparr>"
  define v3 where "v3 = with_data x e (RelayServers0 r) (v2\<lparr>sv_shared := (sv_shared v2)\<lparr>tx := []\<rparr>\<rparr>)"
  define v4 where "v4 = v3\<lparr>sv_shared := check_relay_servers e 0 (\<lambda>_. True) ?rs0 (sv_shared v3), sv_checks := []\<rparr>"
  define v5 where "v5 = with_data x e (RelayServers ?rs0) (v4\<lparr>sv_shared := (sv_shared v4)\<lparr>tx := []\<rparr>\<rparr>)"
  have plain: "list_all (\<lambda>c. \<not> is_space c) r" "CHR '','' \<notin> set r"
    using assms(10) by (auto simp: list_all_iff)
  have s1: "server_step x key P v v1"
    using server_step.Relay_Tick [of v x key P] assms(1,3,4) by (simp add: v1_def)
  have s1a: "server_step x key P v1 v1a"
    unfolding v1a_def by (rule server_step.Admin_Accept [OF _ assms(7)]) (simp add: v1_def assms(4))
  have s2: "server_step x key P v1a v2"
    using server_step.Admin_Command [where P = P and e = e and v = v1a and key = key and hs = "sv_admins v"
        and h = "sv_handle v" and gs = "[]", OF assms(5) _ assms(8) refl]
      relay_servers_command [OF plain(1) assms(9,6)] assms(2)
    by (simp add: v1_def v1a_def v2_def)
  have s3: "server_step x key P v2 v3"
    unfolding v3_def by (rule channel_step [where P = P and e = e, OF _ assms(5)]) (simp_all add: v2_def v1a_def v1_def assms(4))
  have v3: "sv_handle v3 = (sv_handle v)\<lparr>h_relay_servers0 := [r], h_relay_servers := [r]\<rparr>"
    "tx (sv_shared v3) = []" "sv_checks v3 = [?rs0]" "sv_failed v3 = None"
    using assms(4,9,11) plain(2) by (simp_all add: v3_def v2_def v1a_def v1_def with_data_def parse_relay_servers_def
        get_servers_def split_on_free Let_def)
  have s4: "server_step x key P v3 v4"
    using server_step.Relay_Checked [where P = P and e = e and v = v3 and cs = "[]" and rs = ?rs0 and ds = "[]"
        and finished = ?rs0 and port = 0 and accepts = "\<lambda>_. True", OF assms(5)] v3(3)
    by (simp add: v4_def)
  have v4: "tx (sv_shared v4) = [RelayServers ?rs0]" "sv_handle v4 = sv_handle v3" "sv_checks v4 = []"
    "sv_failed v4 = None"
    using v3(2,4) assms(1,6) by (auto simp: v4_def check_relay_servers_def tx_send_def Let_def)
  have s5: "server_step x key P v4 v5"
    unfolding v5_def by (rule channel_step [where P = P and e = e, OF v4(4) assms(5) v4(1)])
  have v5: "sv_handle v5 = (sv_handle v)\<lparr>h_relay_servers0 := [r], h_relay_servers := ?rs0\<rparr>" "sv_checks v5 = []"
    by (simp_all add: v5_def with_data_def v4 v3)
  note steps = server_reaches.Step [OF server_reaches.Step [OF server_reaches.Step [OF server_reaches.Step
    [OF server_reaches.Step [OF server_reaches.Step [OF server_reaches.Start s1] s1a] s2] s3] s4] s5]
  with v5 show ?thesis by (intro exI [of _ v5]) simp
qed

lemma stale_check_restores_relays_witness:
  "\<exists>v'. server_reaches sample_ext [] (\<lambda>_. True) (sample_server 0) v' \<and>
    h_relay_servers0 (sv_handle v') = [''r9''] \<and> h_relay_servers (sv_handle v') = [''r1'', ''r2'']"
  using stale_check_restores_relays [of "sample_server 0" "\<lambda>_. True" "sample_env 0" sample_ext "SocketV4 2130706433 1"
      "Some (map char_byte ''rs r9'')" "''r9''" "[]"] admin_input_typed [of "''rs r9''"]
  by (auto simp: sample_server_def test_if_valid_server_def sample_handle_def sample_ext_def is_space_def sample_shared_def ascii_def)

end
