(* ===== verification/Punch_Race.thy ===== *)
theory Punch_Race
  imports Tcp_Server Server_Admin Systems
begin

text \<open>
  Punch-hole requests in parallel. \<open>handle_punch_hole_request\<close> runs in the main loop, in tasks spawned by it and in the task of
  every stream connection, and awaits a lock before each access to what they share: the peer map (twice, with the database in between),
  the peer, the log of requests, the rotation of the relay servers, the switch \<open>ALWAYS_USE_RELAY\<close>, the channel or the parked sink.
  Here each access is a step. Run without interruption the steps are the handler; in every
  interleaving with other requests, registrations, heartbeats, answers and commands each request still posts one answer, the right
  one for what it saw while it was in progress, to the right receiver; the channel and the connections carry these answers and nothing of a request besides; and the log
  stays free of duplicates.
\<close>

datatype punch_caller = Via_Tcp bool | Via_Udp

record punch_call =
  pc_handle :: handle
  pc_addr :: socket_addr
  pc_ph :: punch_hole_request
  pc_from :: punch_caller

definition call_ws :: "punch_call \<Rightarrow> bool" where
  "call_ws c = (case pc_from c of Via_Tcp ws \<Rightarrow> ws | Via_Udp \<Rightarrow> False)"

text \<open>What a request does next, with what it holds.\<close>

datatype punch_stage =
    Lookup
  | Fetching
  | Inserting db_row
  | Got lock_peer
  | Logging socket_addr
  | Choosing socket_addr
  | Forcing socket_addr string
  | Sending rmsg "socket_addr option"
  | Sent

text \<open>The message, from the relay server chosen and the switch.\<close>

definition compose_message ::
  "externals \<Rightarrow> env \<Rightarrow> punch_call \<Rightarrow> socket_addr \<Rightarrow> string \<Rightarrow> bool \<Rightarrow> rmsg" where
  "compose_message x e c peer_addr relay_server always =
     (let h = pc_handle c; addr = pc_addr c;
          peer_is_lan = is_lan h peer_addr; lan = is_lan h addr;
          forced = (always \<or> peer_is_lan \<noteq> lan);
          relay_server' = (if forced \<and> peer_is_lan then in_local_ip (h_inner h) else relay_server);
          nat_type = (if forced then x_nat_symmetric x else ph_nat_type (pc_ph c));
          same_intranet = (\<not> call_ws c \<and> (peer_is_lan \<and> lan \<or> same_ip peer_addr addr));
          socket_addr = x_mangle x (e_now e) addr
      in if same_intranet
         then FetchLocalAddr \<lparr>fl_socket_addr = socket_addr, fl_relay_server = relay_server'\<rparr>
         else PunchHole \<lparr>pu_socket_addr = socket_addr, pu_relay_server = relay_server', pu_nat_type = nat_type\<rparr>)"

fun send_answer :: "externals \<Rightarrow> env \<Rightarrow> punch_call \<Rightarrow> rmsg \<Rightarrow> socket_addr option \<Rightarrow> shared \<Rightarrow> shared" where
  "send_answer x e c m (Some b) s = fst (tx_send e (Msg m b) s)"
| "send_answer x e c m None s =
     (case pc_from c of
        Via_Tcp _ \<Rightarrow> send_to_tcp_sync x m (pc_addr c) s
      | Via_Udp \<Rightarrow> fst (tx_send e (Msg m (pc_addr c)) s))"

fun punch_access ::
  "externals \<Rightarrow> env \<Rightarrow> string \<Rightarrow> punch_call \<Rightarrow> punch_stage \<Rightarrow> shared \<Rightarrow> punch_stage \<times> shared" where
  "punch_access x e key c Lookup s =
     (if key \<noteq> [] \<and> ph_licence_key (pc_ph c) \<noteq> key then (Sending (phr_fail LICENSE_MISMATCH) None, s)
      else (case pm_map (pmap s) (ph_id (pc_ph c)) of Some l \<Rightarrow> (Got l, s) | None \<Rightarrow> (Fetching, s)))"
| "punch_access x e key c Fetching s =
     (case get_peer (e_db_read e) (pm_db (pmap s)) (ph_id (pc_ph c)) of
        Inr (Some v) \<Rightarrow> (Inserting v, s)
      | _ \<Rightarrow> (Sending (phr_fail ID_NOT_EXIST) None, s))"
| "punch_access x e key c (Inserting v) s =
     (let (pm, l) = add_peer (ph_id (pc_ph c)) (loaded_peer x (e_now e) v) (pmap s) in (Got l, s\<lparr>pmap := pm\<rparr>))"
| "punch_access x e key c (Got l) s =
     (let r = peer_at (pmap s) l
      in (if REG_TIMEOUT \<le> reg_age (e_now e) r then Sending (phr_fail OFFLINE) None else Logging (p_socket_addr r), s))"
| "punch_access x e key c (Logging b) s =
     (Choosing b, s\<lparr>punch_reqs := record_punch_req x (e_now e) (pc_addr c) b (ph_id (pc_ph c)) (punch_reqs s)\<rparr>)"
| "punch_access x e key c (Choosing b) s =
     (let (relay_server, s') = get_relay_server (pc_handle c) s in (Forcing b relay_server, s'))"
| "punch_access x e key c (Forcing b relay_server) s =
     (Sending (compose_message x e c b relay_server (always_use_relay s)) (Some b), s)"
| "punch_access x e key c (Sending m to) s = (Sent, send_answer x e c m to s)"
| "punch_access x e key c Sent s = (Sent, s)"

subsection \<open>Without interruption\<close>

lemma compose_is_punch_message:
  "punch_message x e (pc_handle c) (pc_addr c) b (ph_nat_type (pc_ph c)) (call_ws c) s =
     (let (r, s') = get_relay_server (pc_handle c) s in (compose_message x e c b r (always_use_relay s'), s'))"
  by (simp add: punch_message_def compose_message_def Let_def case_prod_beta)

definition punch_handler :: "externals \<Rightarrow> env \<Rightarrow> string \<Rightarrow> punch_call \<Rightarrow> shared \<Rightarrow> shared" where
  "punch_handler x e key c s =
     (case pc_from c of
        Via_Tcp ws \<Rightarrow> fst (handle_tcp_punch_hole_request x e (pc_handle c) (pc_addr c) (pc_ph c) key ws s)
      | Via_Udp \<Rightarrow> fst (handle_udp_punch_hole_request x e (pc_handle c) (pc_addr c) (pc_ph c) key s))"

lemma punch_handler_parts:
  "punch_handler x e key c s =
     (case handle_punch_hole_request x e (pc_handle c) (pc_addr c) (pc_ph c) key (call_ws c) s of
        ((m, to), s') \<Rightarrow> send_answer x e c m to s')"
  by (auto simp: punch_handler_def call_ws_def handle_tcp_punch_hole_request_def handle_udp_punch_hole_request_def
      split: punch_caller.split prod.split option.split)

fun accesses :: "externals \<Rightarrow> env \<Rightarrow> string \<Rightarrow> punch_call \<Rightarrow> nat \<Rightarrow> punch_stage \<Rightarrow> shared \<Rightarrow> punch_stage \<times> shared" where
  "accesses x e key c 0 st s = (st, s)"
| "accesses x e key c (Suc n) st s = (case punch_access x e key c st s of (st', s') \<Rightarrow> accesses x e key c n st' s')"

lemma accesses_sent [simp]: "accesses x e key c n Sent s = (Sent, s)"
  by (induction n) simp_all

lemma accesses_got:
  "accesses x e key c (Suc (Suc (Suc (Suc (Suc n))))) (Got l) s =
     (Sent,
      (let r = peer_at (pmap s) l; b = p_socket_addr r
       in if REG_TIMEOUT \<le> reg_age (e_now e) r then send_answer x e c (phr_fail OFFLINE) None s
          else (case punch_message x e (pc_handle c) (pc_addr c) b (ph_nat_type (pc_ph c)) (call_ws c)
              (s\<lparr>punch_reqs := record_punch_req x (e_now e) (pc_addr c) b (ph_id (pc_ph c)) (punch_reqs s)\<rparr>) of
            (m, s') \<Rightarrow> send_answer x e c m (Some b) s')))"
  by (auto simp: compose_is_punch_message Let_def split: prod.split)

lemma accesses_lookup:
  "accesses x e key c (Suc (Suc (Suc (Suc (Suc (Suc (Suc (Suc n)))))))) Lookup s = (Sent, punch_handler x e key c s)"
proof -
  note simps = punch_handler_parts handle_punch_hole_request_def pm_get_def loaded_peer_def Let_def accesses_got
  note early = accesses.simps(2) [of _ _ _ _ _ Lookup] accesses.simps(2) [of _ _ _ _ _ Fetching]
    accesses.simps(2) [of _ _ _ _ _ "Inserting _"] accesses.simps(2) [of _ _ _ _ _ "Sending _ _"]
  show ?thesis
  proof (cases "key \<noteq> [] \<and> ph_licence_key (pc_ph c) \<noteq> key")
    case True
    then show ?thesis by (simp add: simps)
  next
    case False
    note licensed = False
    show ?thesis
    proof (cases "pm_map (pmap s) (ph_id (pc_ph c))")
      case None
      then show ?thesis
      proof (cases "get_peer (e_db_read e) (pm_db (pmap s)) (ph_id (pc_ph c))")
        case (Inr row)
        with None licensed show ?thesis
          by (cases row) (auto simp: simps simp del: accesses.simps(2) simp: early split: prod.split)
      qed (use licensed in \<open>auto simp: simps\<close>)
    qed (use licensed in \<open>auto simp: simps simp del: accesses.simps(2) simp: early split: prod.split\<close>)
  qed
qed

text \<open>Eight accesses always suffice, and they do what the handler does as one step.\<close>

theorem uninterrupted_is_handler: "accesses x e key c 8 Lookup s = (Sent, punch_handler x e key c s)"
  using accesses_lookup [of x e key c 0 s] by (simp only: eval_nat_numeral BitM.simps)

subsection \<open>Interleaved\<close>

text \<open>
  What else goes on meanwhile: the main loop registers peers and renews addresses, other tasks ask for relays, bring answers and
  end connections, and administrators give orders.
\<close>

inductive elsewhere :: "externals \<Rightarrow> shared \<Rightarrow> shared \<Rightarrow> bool" for x :: externals where
  Registers: "elsewhere x s (fst (handle_register_pk x e addr rk s))"
| Renews: "elsewhere x s (fst (update_addr e i addr s))"
| Relays: "elsewhere x s (handle_request_relay x e addr rf s)"
| Responds: "elsewhere x s (handle_relay_response x e h rr s)"
| Answers: "elsewhere x s (fst (handle_hole_sent x e h phs addr udp s))"
| Answers_Local: "elsewhere x s (fst (handle_local_addr x e h la addr udp s))"
| Commands: "elsewhere x s (snd (server_check_cmd ls e h cmd s))"
| Closes: "elsewhere x s (close_connection x addr sk s)"

text \<open>What a step put on the channel and wrote to connections.\<close>

datatype posting = On_Channel data | On_Stream sink rmsg

definition posted :: "shared \<Rightarrow> shared \<Rightarrow> posting list" where
  "posted s s' = map On_Channel (drop (length (tx s)) (tx s')) @
     map (\<lambda>(k, m). On_Stream k m) (drop (length (sink_out s)) (sink_out s'))"

fun channel_part :: "posting \<Rightarrow> data list" where
  "channel_part (On_Channel d) = [d]"
| "channel_part (On_Stream k m) = []"

fun stream_part :: "posting \<Rightarrow> (sink \<times> rmsg) list" where
  "stream_part (On_Channel d) = []"
| "stream_part (On_Stream k m) = [(k, m)]"

text \<open>
  The requests in progress, by number, and the clock. Two histories of what is seen from outside: what the main loop took from the channel, and
  every posting, with the number of the request whose access made it (\<^const>\<open>None\<close> for everything else).
\<close>

record race =
  ra_shared :: shared
  ra_tasks :: "nat \<rightharpoonup> punch_call \<times> punch_stage"
  ra_next :: nat
  ra_clock :: instant
  ra_taken :: "data list"
  ra_posted :: "(nat option \<times> posting) list"

definition race_start :: "shared \<Rightarrow> instant \<Rightarrow> race" where
  "race_start s t =
     \<lparr>ra_shared = s, ra_tasks = (\<lambda>_. None), ra_next = 0, ra_clock = t, ra_taken = [], ra_posted = []\<rparr>"

text \<open>The state after a step of \<open>who\<close> that leaves the shared state \<open>s'\<close>.\<close>

definition then_shared :: "nat option \<Rightarrow> shared \<Rightarrow> race \<Rightarrow> race" where
  "then_shared who s' r = r\<lparr>ra_shared := s', ra_posted := ra_posted r @ map (Pair who) (posted (ra_shared r) s')\<rparr>"

inductive race_step :: "externals \<Rightarrow> string \<Rightarrow> race \<Rightarrow> race \<Rightarrow> bool" for x :: externals and key :: string where
  Comes: "race_step x key r (r\<lparr>ra_shared := park_sink x (pc_addr c) sk (ra_shared r),
      ra_tasks := (ra_tasks r)(ra_next r \<mapsto> (c, Lookup)), ra_next := Suc (ra_next r)\<rparr>)"
| Accesses: "ra_tasks r n = Some (c, st) \<Longrightarrow> e_db_read e \<Longrightarrow> e_rx_open e \<Longrightarrow> ra_clock r \<le> e_now e \<Longrightarrow>
    punch_access x e key c st (ra_shared r) = (st', s') \<Longrightarrow>
    race_step x key r ((then_shared (Some n) s' r)\<lparr>ra_tasks := (ra_tasks r)(n \<mapsto> (c, st')), ra_clock := e_now e\<rparr>)"
| Takes: "tx (ra_shared r) = d # ds \<Longrightarrow>
    race_step x key r (r\<lparr>ra_shared := (ra_shared r)\<lparr>tx := ds\<rparr>, ra_taken := ra_taken r @ [d]\<rparr>)"
| Elsewhere: "elsewhere x (ra_shared r) s' \<Longrightarrow> race_step x key r (then_shared None s' r)"

abbreviation leads :: "externals \<Rightarrow> string \<Rightarrow> race \<Rightarrow> race \<Rightarrow> bool" where
  "leads x key \<equiv> (race_step x key)\<^sup>*\<^sup>*"

lemma then_shared_fields [simp]:
  "ra_shared (then_shared who s' r) = s'" "ra_tasks (then_shared who s' r) = ra_tasks r"
  "ra_next (then_shared who s' r) = ra_next r" "ra_clock (then_shared who s' r) = ra_clock r"
  "ra_taken (then_shared who s' r) = ra_taken r"
  "ra_posted (then_shared who s' r) = ra_posted r @ map (Pair who) (posted (ra_shared r) s')"
  by (simp_all add: then_shared_def)

subsection \<open>Nothing is posted in vain\<close>

text \<open>The channel and the connections only grow, by what is posted.\<close>

definition grows :: "shared \<Rightarrow> shared \<Rightarrow> bool" where
  "grows s s' \<longleftrightarrow> (\<exists>ds ks. tx s' = tx s @ ds \<and> sink_out s' = sink_out s @ ks)"

lemma growsI: "tx s' = tx s @ ds \<Longrightarrow> sink_out s' = sink_out s @ ks \<Longrightarrow> grows s s'"
  by (auto simp: grows_def)

lemma grows_refl [simp]: "tx s' = tx s \<Longrightarrow> sink_out s' = sink_out s \<Longrightarrow> grows s s'"
  by (simp add: grows_def)

lemma posted_same: "tx s' = tx s \<Longrightarrow> sink_out s' = sink_out s \<Longrightarrow> posted s s' = []"
  by (simp add: posted_def)

lemma posting_parts:
  "concat (map channel_part (map On_Channel ds)) = ds" "concat (map stream_part (map On_Channel ds)) = []"
  "concat (map channel_part (map (\<lambda>(k, m). On_Stream k m) ks)) = []"
  "concat (map stream_part (map (\<lambda>(k, m). On_Stream k m) ks)) = ks"
  by (induction ds; simp; fail)+ (induction ks; auto)+

lemma grows_posted:
  assumes "grows s s'"
  shows "tx s' = tx s @ concat (map channel_part (posted s s'))" "sink_out s' = sink_out s @ concat (map stream_part (posted s s'))"
proof -
  obtain ds ks where ext: "tx s' = tx s @ ds" "sink_out s' = sink_out s @ ks" using assms by (auto simp: grows_def)
  then have "posted s s' = map On_Channel ds @ map (\<lambda>(k, m). On_Stream k m) ks" by (simp add: posted_def)
  then show "tx s' = tx s @ concat (map channel_part (posted s s'))" "sink_out s' = sink_out s @ concat (map stream_part (posted s s'))"
    using ext by (simp_all only: map_append concat_append posting_parts append_Nil append_Nil2)
qed

lemma send_to_sink_grows: "tx s' = tx s \<Longrightarrow> sink_out s' = sink_out s \<Longrightarrow> grows s (send_to_sink x k m s')"
  by (auto simp: grows_def send_to_sink_def split: option.split)

lemma send_to_tcp_grows:
  assumes "tx s' = tx s" and "sink_out s' = sink_out s"
  shows "grows s (send_to_tcp x m a s')" "grows s (send_to_tcp_sync x m a s')"
  using assms by (simp_all add: send_to_tcp_def send_to_tcp_sync_def Let_def send_to_sink_grows)

lemma register_pk_posts: "tx (fst (handle_register_pk x e addr rk s)) = tx s"
  "sink_out (fst (handle_register_pk x e addr rk s)) = sink_out s" "punch_reqs (fst (handle_register_pk x e addr rk s)) = punch_reqs s"
  by (simp_all add: handle_register_pk_def send_rk_res_def udp_send_def Let_def split: option.split prod.split)

lemma update_addr_posts: "tx (fst (update_addr e i addr s)) = tx s" "sink_out (fst (update_addr e i addr s)) = sink_out s"
  "punch_reqs (fst (update_addr e i addr s)) = punch_reqs s"
  by (simp_all add: update_addr_def udp_send_def Let_def split: option.split)

lemma request_relay_posts: "grows s (handle_request_relay x e addr rf s)" "punch_reqs (handle_request_relay x e addr rf s) = punch_reqs s"
  by (auto simp: grows_def handle_request_relay_def tx_send_def split: option.split)

lemma send_to_tcp_log: "punch_reqs (send_to_tcp x m a s) = punch_reqs s" "punch_reqs (send_to_tcp_sync x m a s) = punch_reqs s"
  by (simp_all add: send_to_tcp_def send_to_tcp_sync_def send_to_sink_def Let_def split: option.split)

lemma get_pk_log [simp]: "punch_reqs (snd (get_pk x e h v i s)) = punch_reqs s"
  by (auto simp: get_pk_def split: option.split prod.split)

lemma relay_response_posts: "grows s (handle_relay_response x e h rr s)" "punch_reqs (handle_relay_response x e h rr s) = punch_reqs s"
  by (auto simp: handle_relay_response_def Let_def split_beta send_to_tcp_log intro!: send_to_tcp_grows)

lemma answer_posts:
  "grows s (fst (handle_hole_sent x e h phs addr udp s))" "punch_reqs (fst (handle_hole_sent x e h phs addr udp s)) = punch_reqs s"
  "grows s (fst (handle_local_addr x e h la addr udp s))" "punch_reqs (fst (handle_local_addr x e h la addr udp s)) = punch_reqs s"
  by (auto simp: handle_hole_sent_def handle_local_addr_def Let_def split_beta send_to_tcp_log udp_send_def intro!: send_to_tcp_grows)

lemma check_cmd_posts: "grows s (snd (server_check_cmd ls e h cmd s))"
  "punch_reqs (snd (server_check_cmd ls e h cmd s)) \<in> {punch_reqs s, []}"
proof -
  have "\<exists>ds. tx (snd (server_check_cmd ls e h cmd s)) = tx s @ ds"
    by (auto simp: server_check_cmd_def case_prod_beta Let_def relay_servers_cmd_def always_use_relay_cmd_def
      test_geo_cmd_def tx_send_def get_relay_server_def split: option.split)
  then show "grows s (snd (server_check_cmd ls e h cmd s))" by (auto simp: grows_def)
  show "punch_reqs (snd (server_check_cmd ls e h cmd s)) \<in> {punch_reqs s, []}"
    by (auto simp: server_check_cmd_def case_prod_beta Let_def relay_servers_cmd_def always_use_relay_cmd_def punch_requests_cmd_def
      test_geo_cmd_def tx_send_def get_relay_server_def split: option.split)
qed

lemma elsewhere_posts: "elsewhere x s s' \<Longrightarrow> grows s s' \<and> punch_reqs s' \<in> {punch_reqs s, []}"
  by (erule elsewhere.cases)
    (use register_pk_posts update_addr_posts request_relay_posts relay_response_posts answer_posts check_cmd_posts
      in \<open>auto simp: close_connection_def remove_sink_def\<close>)

text \<open>What an access posts: only the last one anything, and that the answer.\<close>

definition receipt :: "externals \<Rightarrow> punch_call \<Rightarrow> shared \<Rightarrow> rmsg \<Rightarrow> socket_addr option \<Rightarrow> posting list" where
  "receipt x c s m to =
     (case to of
        Some b \<Rightarrow> [On_Channel (Msg m b)]
      | None \<Rightarrow>
          (case pc_from c of
             Via_Udp \<Rightarrow> [On_Channel (Msg m (pc_addr c))]
           | Via_Tcp _ \<Rightarrow> (case tcp_punch s (x_into_v4 x (pc_addr c)) of None \<Rightarrow> [] | Some k \<Rightarrow> [On_Stream k m])))"

lemma send_answer_posts:
  assumes "e_rx_open e" and "x_encode x m \<noteq> None"
  shows "posted s (send_answer x e c m to s) = receipt x c s m to" and "grows s (send_answer x e c m to s)"
    and "punch_reqs (send_answer x e c m to s) = punch_reqs s"
  using assms
  by (cases to; auto simp: receipt_def posted_def grows_def tx_send_def send_to_tcp_sync_def send_to_sink_def Let_def
      split: punch_caller.split option.split)+

lemma punch_access_posts:
  assumes "punch_access x e key c st s = (st', s')" and "e_rx_open e" and "\<forall>m. x_encode x m \<noteq> None"
  shows "posted s s' = (case st of Sending m to \<Rightarrow> receipt x c s m to | _ \<Rightarrow> [])" and "grows s s'"
    and "punch_reqs s' = (case st of
      Logging b \<Rightarrow> record_punch_req x (e_now e) (pc_addr c) b (ph_id (pc_ph c)) (punch_reqs s) | _ \<Rightarrow> punch_reqs s)"
proof -
  have same: "tx s' = tx s \<and> sink_out s' = sink_out s" if "\<nexists>m to. st = Sending m to"
    using assms(1) that
    by (cases st) (auto simp: get_relay_server_def Let_def split: if_splits option.splits sum.splits prod.splits)
  have "posted s s' = (case st of Sending m to \<Rightarrow> receipt x c s m to | _ \<Rightarrow> []) \<and> grows s s'"
  proof (cases "\<exists>m to. st = Sending m to")
    case True
    then obtain m to where st: "st = Sending m to" by blast
    then have "s' = send_answer x e c m to s" using assms(1) by simp
    then show ?thesis using send_answer_posts(1,2) [OF assms(2), where x = x and m = m and c = c and to = to and s = s] assms(3) by (simp add: st)
  next
    case False
    then have "(case st of Sending m to \<Rightarrow> receipt x c s m to | _ \<Rightarrow> []) = []" by (simp split: punch_stage.split)
    with same [OF False] show ?thesis by (simp only: posted_same grows_refl)
  qed
  then show "posted s s' = (case st of Sending m to \<Rightarrow> receipt x c s m to | _ \<Rightarrow> [])" "grows s s'" by simp_all
  show "punch_reqs s' = (case st of
      Logging b \<Rightarrow> record_punch_req x (e_now e) (pc_addr c) b (ph_id (pc_ph c)) (punch_reqs s) | _ \<Rightarrow> punch_reqs s)"
    using assms
    by (cases st) (auto simp: send_answer_posts get_relay_server_def Let_def split: if_splits option.splits sum.splits prod.splits)
qed

subsection \<open>The answer fits what was seen meanwhile\<close>

text \<open>A state \<open>r1\<close> of the run to \<open>r\<close> in which request \<open>n\<close> is in progress.\<close>

definition moment :: "externals \<Rightarrow> string \<Rightarrow> race \<Rightarrow> nat \<Rightarrow> punch_call \<Rightarrow> race \<Rightarrow> race \<Rightarrow> bool" where
  "moment x key r0 n c r1 r \<longleftrightarrow>
     leads x key r0 r1 \<and> leads x key r1 r \<and> (\<exists>st. ra_tasks r1 n = Some (c, st) \<and> st \<noteq> Sent)"

text \<open>
  At a moment the map had an entry for the target; at a later one the peer behind it was \<open>p\<close>, and the clock stood at \<open>t\<close> after the
  next step; or at a moment the map had none, and at a later one the table had none.
\<close>

definition found :: "externals \<Rightarrow> string \<Rightarrow> race \<Rightarrow> nat \<Rightarrow> punch_call \<Rightarrow> race \<Rightarrow> lock_peer \<Rightarrow> bool" where
  "found x key r0 n c r l \<longleftrightarrow>
     (\<exists>r1. moment x key r0 n c r1 r \<and> pm_map (pmap (ra_shared r1)) (ph_id (pc_ph c)) = Some l)"

definition saw :: "externals \<Rightarrow> string \<Rightarrow> race \<Rightarrow> nat \<Rightarrow> punch_call \<Rightarrow> race \<Rightarrow> instant \<Rightarrow> peer \<Rightarrow> bool" where
  "saw x key r0 n c r t p \<longleftrightarrow>
     (\<exists>r1 r2 l. found x key r0 n c r1 l \<and> moment x key r0 n c r1 r \<and> race_step x key r1 r2 \<and> leads x key r2 r \<and>
        t = ra_clock r2 \<and> p = peer_at (pmap (ra_shared r1)) l)"

definition missed :: "externals \<Rightarrow> string \<Rightarrow> race \<Rightarrow> nat \<Rightarrow> punch_call \<Rightarrow> race \<Rightarrow> bool" where
  "missed x key r0 n c r \<longleftrightarrow>
     (\<exists>r1 r2. moment x key r0 n c r1 r2 \<and> moment x key r0 n c r2 r \<and>
        pm_map (pmap (ra_shared r1)) (ph_id (pc_ph c)) = None \<and> find_row (pm_db (pmap (ra_shared r2))) (ph_id (pc_ph c)) = None)"

fun observed :: "externals \<Rightarrow> string \<Rightarrow> race \<Rightarrow> nat \<Rightarrow> punch_call \<Rightarrow> race \<Rightarrow> instant \<Rightarrow> peer option \<Rightarrow> bool" where
  "observed x key r0 n c r t (Some p) = saw x key r0 n c r t p"
| "observed x key r0 n c r t None = missed x key r0 n c r"

definition licensed :: "string \<Rightarrow> punch_call \<Rightarrow> bool" where
  "licensed key c \<longleftrightarrow> key = [] \<or> ph_licence_key (pc_ph c) = key"

text \<open>
  The verdict of the specification, on the peer that was seen, at the time it was seen; an invitation names the
  requester, encoded at some time since then.
\<close>

definition fits :: "externals \<Rightarrow> string \<Rightarrow> race \<Rightarrow> nat \<Rightarrow> punch_call \<Rightarrow> race \<Rightarrow> rmsg \<Rightarrow> socket_addr option \<Rightarrow> bool" where
  "fits x key r0 n c r m to \<longleftrightarrow>
     (\<exists>t known. (licensed key c \<longrightarrow> observed x key r0 n c r t known) \<and>
        (case broker_verdict key (ph_licence_key (pc_ph c)) t known of
           Deny f \<Rightarrow> m = phr_fail f \<and> to = None
         | Contact b \<Rightarrow> to = Some b \<and>
             (\<exists>t'. t \<le> t' \<and> t' \<le> ra_clock r \<and> invites m = Some (x_mangle x t' (pc_addr c)))))"

text \<open>What request \<open>n\<close> has posted, and that this is the answer, handed over at a moment.\<close>

definition postings :: "nat \<Rightarrow> race \<Rightarrow> posting list" where
  "postings n r = map snd (filter (\<lambda>(who, _). who = Some n) (ra_posted r))"

definition handed ::
  "externals \<Rightarrow> string \<Rightarrow> race \<Rightarrow> nat \<Rightarrow> punch_call \<Rightarrow> race \<Rightarrow> rmsg \<Rightarrow> socket_addr option \<Rightarrow> posting list \<Rightarrow> bool" where
  "handed x key r0 n c r m to ps \<longleftrightarrow> (\<exists>r1. moment x key r0 n c r1 r \<and> ps = receipt x c (ra_shared r1) m to)"

lemma moment_later: "race_step x key r r' \<Longrightarrow> moment x key r0 n c r1 r \<Longrightarrow> moment x key r0 n c r1 r'"
  unfolding moment_def by (meson rtranclp.rtrancl_into_rtrancl)

lemma race_step_clock: "race_step x key r r' \<Longrightarrow> ra_clock r \<le> ra_clock r'"
  by (erule race_step.cases) auto

lemma sees_later:
  assumes "race_step x key r r'"
  shows "found x key r0 n c r l \<Longrightarrow> found x key r0 n c r' l" "saw x key r0 n c r t p \<Longrightarrow> saw x key r0 n c r' t p"
    "missed x key r0 n c r \<Longrightarrow> missed x key r0 n c r'" "handed x key r0 n c r m to ps \<Longrightarrow> handed x key r0 n c r' m to ps"
  using moment_later [OF assms] rtranclp.rtrancl_into_rtrancl [of "race_step x key", OF _ assms]
  unfolding found_def saw_def missed_def handed_def by metis+

lemma observed_later: "race_step x key r r' \<Longrightarrow> observed x key r0 n c r t k \<Longrightarrow> observed x key r0 n c r' t k"
  by (cases k) (simp_all add: sees_later)

lemma fits_later:
  assumes "race_step x key r r'" and "fits x key r0 n c r m to"
  shows "fits x key r0 n c r' m to"
proof -
  obtain t k where k: "licensed key c \<longrightarrow> observed x key r0 n c r t k" "case broker_verdict key (ph_licence_key (pc_ph c)) t k of
      Deny f \<Rightarrow> m = phr_fail f \<and> to = None
    | Contact b \<Rightarrow> to = Some b \<and> (\<exists>t'. t \<le> t' \<and> t' \<le> ra_clock r \<and> invites m = Some (x_mangle x t' (pc_addr c)))"
    using assms(2) unfolding fits_def by blast
  then have "licensed key c \<longrightarrow> observed x key r0 n c r' t k" using observed_later [OF assms(1)] by blast
  moreover have "case broker_verdict key (ph_licence_key (pc_ph c)) t k of
      Deny f \<Rightarrow> m = phr_fail f \<and> to = None
    | Contact b \<Rightarrow> to = Some b \<and> (\<exists>t'. t \<le> t' \<and> t' \<le> ra_clock r' \<and> invites m = Some (x_mangle x t' (pc_addr c)))"
    using k(2) race_step_clock [OF assms(1)] by (auto split: verdict.splits)
  ultimately show ?thesis unfolding fits_def by blast
qed

text \<open>What a request knows at each stage.\<close>

definition live_at :: "externals \<Rightarrow> string \<Rightarrow> race \<Rightarrow> nat \<Rightarrow> punch_call \<Rightarrow> race \<Rightarrow> socket_addr \<Rightarrow> bool" where
  "live_at x key r0 n c r b \<longleftrightarrow> licensed key c \<and>
     (\<exists>t p. saw x key r0 n c r t p \<and> t \<le> ra_clock r \<and> reg_age t p < REG_TIMEOUT \<and> b = p_socket_addr p)"

fun stage_ok :: "externals \<Rightarrow> string \<Rightarrow> race \<Rightarrow> nat \<Rightarrow> punch_call \<Rightarrow> race \<Rightarrow> punch_stage \<Rightarrow> bool" where
  "stage_ok x key r0 n c r Lookup = True"
| "stage_ok x key r0 n c r Fetching =
     (licensed key c \<and> (\<exists>r1. moment x key r0 n c r1 r \<and> pm_map (pmap (ra_shared r1)) (ph_id (pc_ph c)) = None))"
| "stage_ok x key r0 n c r (Inserting v) = licensed key c"
| "stage_ok x key r0 n c r (Got l) = (licensed key c \<and> found x key r0 n c r l)"
| "stage_ok x key r0 n c r (Logging b) = live_at x key r0 n c r b"
| "stage_ok x key r0 n c r (Choosing b) = live_at x key r0 n c r b"
| "stage_ok x key r0 n c r (Forcing b _) = live_at x key r0 n c r b"
| "stage_ok x key r0 n c r (Sending m to) = fits x key r0 n c r m to"
| "stage_ok x key r0 n c r Sent = True"

lemma live_atI:
  "licensed key c \<Longrightarrow> saw x key r0 n c r t p \<Longrightarrow> t \<le> ra_clock r \<Longrightarrow> reg_age t p < REG_TIMEOUT \<Longrightarrow>
     live_at x key r0 n c r (p_socket_addr p)"
  unfolding live_at_def by blast

lemma live_later:
  assumes "race_step x key r r'" and "live_at x key r0 n c r b"
  shows "live_at x key r0 n c r' b"
proof -
  obtain t p where p: "licensed key c" "saw x key r0 n c r t p" "t \<le> ra_clock r" "reg_age t p < REG_TIMEOUT" "b = p_socket_addr p"
    using assms(2) by (auto simp: live_at_def)
  show ?thesis
    unfolding p(5) by (rule live_atI [OF p(1) sees_later(2) [OF assms(1) p(2)] _ p(4)]) (use p(3) race_step_clock [OF assms(1)] in simp)
qed

lemma stage_ok_later: "race_step x key r r' \<Longrightarrow> stage_ok x key r0 n c r st \<Longrightarrow> stage_ok x key r0 n c r' st"
  by (cases st) (auto simp: live_later sees_later intro: fits_later moment_later)

lemma compose_invites: "invites (compose_message x e c b r always) = Some (x_mangle x (e_now e) (pc_addr c))"
  by (simp add: compose_message_def Let_def)

lemma fitsI:
  assumes "licensed key c \<Longrightarrow> observed x key r0 n c r t known"
    and "case broker_verdict key (ph_licence_key (pc_ph c)) t known of
      Deny f \<Rightarrow> m = phr_fail f \<and> to = None
    | Contact b \<Rightarrow> to = Some b \<and> (\<exists>t'. t \<le> t' \<and> t' \<le> ra_clock r \<and> invites m = Some (x_mangle x t' (pc_addr c)))"
  shows "fits x key r0 n c r m to"
  using assms unfolding fits_def by blast

lemma fits_denied:
  "\<not> licensed key c \<Longrightarrow> fits x key r0 n c r (phr_fail LICENSE_MISMATCH) None"
  "licensed key c \<Longrightarrow> missed x key r0 n c r \<Longrightarrow> fits x key r0 n c r (phr_fail ID_NOT_EXIST) None"
  "licensed key c \<Longrightarrow> saw x key r0 n c r t p \<Longrightarrow> REG_TIMEOUT \<le> reg_age t p \<Longrightarrow> fits x key r0 n c r (phr_fail OFFLINE) None"
  by (rule fitsI [where known = None], simp, simp add: broker_verdict_def licensed_def)
    (rule fitsI [where known = None], simp, auto simp: broker_verdict_def licensed_def,
     (rule fitsI [where known = "Some p" and t = t], simp, auto simp: broker_verdict_def licensed_def)+)

lemma fits_contact:
  assumes "live_at x key r0 n c r b" and "invites m = Some (x_mangle x (ra_clock r) (pc_addr c))"
  shows "fits x key r0 n c r m (Some b)"
proof -
  obtain t p where "licensed key c" "saw x key r0 n c r t p" "t \<le> ra_clock r" "reg_age t p < REG_TIMEOUT" "b = p_socket_addr p"
    using assms(1) by (auto simp: live_at_def)
  with assms(2) show ?thesis
    by (intro fitsI [where known = "Some p" and t = t]) (auto simp: broker_verdict_def licensed_def)
qed

lemma access_ok:
  assumes now: "moment x key r0 n c r r" and "ra_tasks r n = Some (c, st)" and "stage_ok x key r0 n c r st" and "e_db_read e"
    and "punch_access x e key c st (ra_shared r) = (st', s')" and step: "race_step x key r r'" and "ra_shared r' = s'"
    and "ra_tasks r' n = Some (c, st')" and clock: "ra_clock r' = e_now e"
  shows "stage_ok x key r0 n c r' st'"
proof (cases st)
  case Lookup
  show ?thesis
  proof (cases "licensed key c")
    case True
    moreover have "found x key r0 n c r l" if "pm_map (pmap (ra_shared r)) (ph_id (pc_ph c)) = Some l" for l
      unfolding found_def using now that by blast
    ultimately show ?thesis
      using assms(5) moment_later [OF step now] sees_later(1) [OF step]
      by (auto simp: Lookup licensed_def split: option.splits)
  qed (use assms(5) fits_denied(1) [of key c x r0 n r'] in \<open>auto simp: Lookup licensed_def\<close>)
next
  case Fetching
  then obtain r1 where r1: "licensed key c" "moment x key r0 n c r1 r" "pm_map (pmap (ra_shared r1)) (ph_id (pc_ph c)) = None"
    using assms(3) by auto
  show ?thesis
  proof (cases "find_row (pm_db (pmap (ra_shared r))) (ph_id (pc_ph c))")
    case None
    with r1 now have "missed x key r0 n c r" unfolding missed_def by blast
    then have "fits x key r0 n c r' (phr_fail ID_NOT_EXIST) None" using r1(1) fits_denied(2) fits_later [OF step] by blast
    with None assms(4,5) show ?thesis by (auto simp: Fetching get_peer_find)
  qed (use assms(4,5) r1(1) in \<open>auto simp: Fetching get_peer_find\<close>)
next
  case (Inserting v)
  obtain l where l: "st' = Got l" "pm_map (pmap s') (ph_id (pc_ph c)) = Some l"
    using assms(5) by (auto simp: Inserting add_peer_def Let_def)
  have "moment x key r0 n c r' r'"
    using now assms(8) l(1) step unfolding moment_def by (auto intro: rtranclp.rtrancl_into_rtrancl)
  with l assms(3,7) show ?thesis unfolding l(1) by (auto simp: Inserting found_def)
next
  case (Got l)
  let ?p = "peer_at (pmap (ra_shared r)) l"
  have "found x key r0 n c r l" and lic: "licensed key c" using assms(3) by (auto simp: Got)
  then have "saw x key r0 n c r' (e_now e) ?p"
    unfolding saw_def using moment_later [OF step now] step clock
    by (intro exI [of _ r] exI [of _ r'] exI [of _ l]) simp
  then show ?thesis
    using assms(5) clock fits_denied(3) [OF lic, of x r0 n r' "e_now e" ?p] live_atI [OF lic, of x r0 n r' "e_now e" ?p]
    by (auto simp: Got Let_def not_le split: if_splits)
next
  case (Forcing b relay)
  then show ?thesis
    using assms(3,5) fits_contact [OF live_later [OF step]] compose_invites [of x e c b relay] by (auto simp: clock)
next
  case (Sending m to)
  then have "fits x key r0 n c r' m to" using fits_later [OF step] assms(3) by simp
  with assms(5) show ?thesis by (auto simp: Sending)
qed (use assms(3,5) live_later [OF step] fits_later [OF step] in \<open>auto split: prod.splits\<close>)

subsection \<open>The log, the channel and the connections\<close>

definition log_ok :: "race \<Rightarrow> bool" where
  "log_ok r \<longleftrightarrow> punch_log_ok (punch_reqs (ra_shared r)) \<and> (\<forall>e \<in> set (punch_reqs (ra_shared r)). pe_tm e \<le> ra_clock r)"

lemma race_step_log:
  assumes "race_step x key r r'" and "log_ok r" and "\<forall>m. x_encode x m \<noteq> None"
  shows "log_ok r'"
  using assms(1)
proof (cases rule: race_step.cases)
  case (Accesses n c st e st' s')
  have later: "\<forall>f \<in> set (punch_reqs (ra_shared r)). pe_tm f \<le> e_now e"
    using assms(2) Accesses(5) by (auto simp: log_ok_def)
  note log = punch_access_posts(3) [OF Accesses(6,4) assms(3)]
  show ?thesis
  proof (cases "\<exists>b. st = Logging b")
    case True
    with later assms(2) log record_punch_req_ok record_punch_req_times show ?thesis
      by (fastforce simp: log_ok_def Accesses(1))
  next
    case False
    then have "punch_reqs s' = punch_reqs (ra_shared r)" using log by (auto split: punch_stage.splits)
    with later assms(2) show ?thesis by (simp add: log_ok_def Accesses(1))
  qed
next
  case (Elsewhere s')
  with elsewhere_posts [OF Elsewhere(2)] assms(2) show ?thesis by (auto simp: log_ok_def punch_log_ok_def)
qed (use assms(2) in \<open>simp add: log_ok_def park_sink_def put_sink_def split: option.split\<close>)+

text \<open>What was taken from the channel and what is still in it, and what was written to connections, is what was posted.\<close>

definition accounts :: "race \<Rightarrow> race \<Rightarrow> bool" where
  "accounts r0 r \<longleftrightarrow>
     ra_taken r @ tx (ra_shared r) = tx (ra_shared r0) @ concat (map (channel_part \<circ> snd) (ra_posted r)) \<and>
     sink_out (ra_shared r) = sink_out (ra_shared r0) @ concat (map (stream_part \<circ> snd) (ra_posted r))"

lemma accounts_grows:
  assumes "accounts r0 r" and "grows (ra_shared r) s'"
  shows "accounts r0 ((then_shared who s' r)\<lparr>ra_tasks := ts, ra_clock := t\<rparr>)" "accounts r0 (then_shared who s' r)"
proof -
  let ?ps = "posted (ra_shared r) s'"
  have parts: "map (channel_part \<circ> snd) (map (Pair who) ?ps) = map channel_part ?ps"
    "map (stream_part \<circ> snd) (map (Pair who) ?ps) = map stream_part ?ps" by (simp_all add: comp_def)
  have "ra_taken r @ tx s' = (ra_taken r @ tx (ra_shared r)) @ concat (map channel_part ?ps)"
    by (simp only: grows_posted(1) [OF assms(2)] append_assoc)
  also have "\<dots> = tx (ra_shared r0) @ concat (map (channel_part \<circ> snd) (ra_posted r @ map (Pair who) ?ps))"
    using assms(1) unfolding map_append concat_append parts by (simp add: accounts_def)
  finally have channel: "ra_taken r @ tx s' = \<dots>" .
  have "sink_out s' = sink_out (ra_shared r) @ concat (map stream_part ?ps)" by (rule grows_posted(2) [OF assms(2)])
  also have "\<dots> = sink_out (ra_shared r0) @ concat (map (stream_part \<circ> snd) (ra_posted r @ map (Pair who) ?ps))"
    using assms(1) unfolding map_append concat_append parts by (simp add: accounts_def)
  finally have streams: "sink_out s' = \<dots>" .
  from channel streams
  show "accounts r0 ((then_shared who s' r)\<lparr>ra_tasks := ts, ra_clock := t\<rparr>)" "accounts r0 (then_shared who s' r)"
    by (simp_all add: accounts_def)
qed

lemma race_step_accounts:
  assumes "race_step x key r r'" and "accounts r0 r" and "\<forall>m. x_encode x m \<noteq> None"
  shows "accounts r0 r'"
  using assms(1)
proof (cases rule: race_step.cases)
  case (Accesses n c st e st' s')
  from accounts_grows(1) [OF assms(2) punch_access_posts(2) [OF Accesses(6,4) assms(3)]] show ?thesis by (simp add: Accesses(1))
next
  case (Elsewhere s')
  with accounts_grows(2) [OF assms(2)] elsewhere_posts show ?thesis by simp
qed (use assms(2) in \<open>simp add: accounts_def park_sink_def put_sink_def split: option.split\<close>)+

subsection \<open>Every request, every interleaving\<close>

definition task_ok :: "externals \<Rightarrow> string \<Rightarrow> race \<Rightarrow> race \<Rightarrow> nat \<Rightarrow> punch_call \<Rightarrow> punch_stage \<Rightarrow> bool" where
  "task_ok x key r0 r n c st \<longleftrightarrow> n < ra_next r \<and> stage_ok x key r0 n c r st \<and>
     (if st = Sent then \<exists>m to. fits x key r0 n c r m to \<and> handed x key r0 n c r m to (postings n r) else postings n r = [])"

definition race_inv :: "externals \<Rightarrow> string \<Rightarrow> race \<Rightarrow> race \<Rightarrow> bool" where
  "race_inv x key r0 r \<longleftrightarrow> (\<forall>m. x_encode x m \<noteq> None) \<and> leads x key r0 r \<and> log_ok r \<and> accounts r0 r \<and>
     (\<forall>n c st. ra_tasks r n = Some (c, st) \<longrightarrow> task_ok x key r0 r n c st) \<and>
     (\<forall>n p. (Some n, p) \<in> set (ra_posted r) \<longrightarrow> n < ra_next r)"

lemma postings_new: "\<forall>p. (Some n, p) \<notin> set (ra_posted r) \<Longrightarrow> postings n r = []"
  by (auto simp: postings_def filter_empty_conv)

lemma postings_then:
  "postings n ((then_shared who s' r)\<lparr>ra_tasks := ts, ra_clock := t\<rparr>) =
     postings n r @ (if who = Some n then posted (ra_shared r) s' else [])"
  "postings n (then_shared who s' r) = postings n r @ (if who = Some n then posted (ra_shared r) s' else [])"
proof -
  have "map snd (filter (\<lambda>(w, _). w = Some n) (map (Pair who) ps)) = (if who = Some n then ps else [])" for ps :: "posting list"
    by (induction ps) auto
  then show "postings n ((then_shared who s' r)\<lparr>ra_tasks := ts, ra_clock := t\<rparr>) =
     postings n r @ (if who = Some n then posted (ra_shared r) s' else [])"
    "postings n (then_shared who s' r) = postings n r @ (if who = Some n then posted (ra_shared r) s' else [])"
    by (simp_all add: postings_def)
qed

lemma task_ok_later:
  assumes "race_step x key r r'" and "task_ok x key r0 r n c st" and "ra_next r \<le> ra_next r'" and "postings n r' = postings n r"
  shows "task_ok x key r0 r' n c st"
  using assms(2-4) stage_ok_later [OF assms(1)] fits_later [OF assms(1)] sees_later(4) [OF assms(1)]
  unfolding task_ok_def by (auto split: if_splits) (meson less_le_trans)+

text \<open>The request that makes an access.\<close>

lemma accessed_task_ok:
  assumes "race_inv x key r0 r" and step: "race_step x key r r'" and "ra_tasks r n = Some (c, st)" and "e_db_read e" and "e_rx_open e"
    and "punch_access x e key c st (ra_shared r) = (st', s')"
    and r': "r' = (then_shared (Some n) s' r)\<lparr>ra_tasks := (ra_tasks r)(n \<mapsto> (c, st')), ra_clock := e_now e\<rparr>"
  shows "task_ok x key r0 r' n c st'"
proof (cases "st = Sent")
  case True
  have ok: "task_ok x key r0 r n c st" using assms(1,3) unfolding race_inv_def by blast
  moreover have "st' = Sent" "s' = ra_shared r" using assms(6) True by simp_all
  ultimately show ?thesis using task_ok_later [OF step] True by (simp add: r' postings_then posted_same)
next
  case False
  note inv = assms(1) [unfolded race_inv_def]
  have ok: "n < ra_next r" "stage_ok x key r0 n c r st" "postings n r = []"
    using inv assms(3) False unfolding task_ok_def by fastforce+
  have now: "moment x key r0 n c r r" using inv assms(3) False unfolding moment_def by blast
  have stage: "stage_ok x key r0 n c r' st'"
    by (rule access_ok [OF now assms(3) ok(2) assms(4,6) step]) (simp_all add: r')
  have posts: "postings n r' = (case st of Sending m to \<Rightarrow> receipt x c (ra_shared r) m to | _ \<Rightarrow> [])"
    using punch_access_posts(1) [OF assms(6,5)] inv ok(3) by (simp add: r' postings_then)
  show ?thesis
  proof (cases "\<exists>m to. st = Sending m to")
    case True
    then obtain m to where st: "st = Sending m to" by blast
    then have "fits x key r0 n c r' m to" using ok(2) fits_later [OF step] by simp
    moreover have "handed x key r0 n c r' m to (postings n r')"
      unfolding handed_def posts st using moment_later [OF step now] by auto
    moreover have "st' = Sent" using assms(6) st by simp
    ultimately show ?thesis using stage ok(1) unfolding task_ok_def by (auto simp: r')
  next
    case other: False
    then have "postings n r' = []" unfolding posts by (simp split: punch_stage.split)
    moreover have "st' \<noteq> Sent"
      using assms(6) other False by (cases st) (auto simp: Let_def split: if_splits option.splits sum.splits prod.splits)
    ultimately show ?thesis using stage ok(1) by (simp add: task_ok_def r')
  qed
qed

lemma race_inv_step:
  assumes "race_inv x key r0 r" and step: "race_step x key r r'"
  shows "race_inv x key r0 r'"
proof -
  note inv = assms(1) [unfolded race_inv_def]
  have frame: "leads x key r0 r'" "log_ok r'" "accounts r0 r'"
    using inv step race_step_log [OF step] race_step_accounts [OF step] by (auto intro: rtranclp.rtrancl_into_rtrancl)
  have "(\<forall>n c st. ra_tasks r' n = Some (c, st) \<longrightarrow> task_ok x key r0 r' n c st) \<and>
     (\<forall>n p. (Some n, p) \<in> set (ra_posted r') \<longrightarrow> n < ra_next r')"
    using step
  proof (cases rule: race_step.cases)
    case (Comes c sk)
    have r': "ra_tasks r' = (ra_tasks r)(ra_next r \<mapsto> (c, Lookup))" "ra_next r' = Suc (ra_next r)" "ra_posted r' = ra_posted r"
      by (simp_all add: Comes)
    have "postings (ra_next r) r = []" by (rule postings_new) (use inv in fastforce)
    then have "task_ok x key r0 r' (ra_next r) c Lookup" by (simp add: task_ok_def r' postings_def)
    moreover have "task_ok x key r0 r' n d st" if "ra_tasks r n = Some (d, st)" for n d st
      by (rule task_ok_later [OF step]) (use inv that in \<open>simp_all add: r' postings_def\<close>)
    ultimately show ?thesis using inv by (auto simp: r' less_SucI)
  next
    case (Accesses n c st e st' s')
    have own: "task_ok x key r0 r' n c st'" by (rule accessed_task_ok [OF assms Accesses(2-4,6,1)])
    have "task_ok x key r0 r' k d su" if "ra_tasks r k = Some (d, su)" "k \<noteq> n" for k d su
      by (rule task_ok_later [OF step]) (use inv that in \<open>simp_all add: Accesses(1) postings_then\<close>)
    moreover have "n < ra_next r" using own by (simp add: task_ok_def Accesses(1))
    ultimately show ?thesis using own inv by (auto simp: Accesses(1))
  next
    case (Takes d ds)
    have "task_ok x key r0 r' n c st" if "ra_tasks r n = Some (c, st)" for n c st
      by (rule task_ok_later [OF step]) (use inv that in \<open>simp_all add: Takes postings_def\<close>)
    with inv show ?thesis by (simp add: Takes)
  next
    case (Elsewhere s')
    have "task_ok x key r0 r' n c st" if "ra_tasks r n = Some (c, st)" for n c st
      by (rule task_ok_later [OF step]) (use inv that in \<open>simp_all add: Elsewhere postings_then\<close>)
    with inv show ?thesis by (auto simp: Elsewhere)
  qed
  with inv frame show ?thesis unfolding race_inv_def by blast
qed

lemma race_inv_start:
  assumes "punch_log_ok (punch_reqs s)" and "\<forall>e \<in> set (punch_reqs s). pe_tm e \<le> t" and "\<forall>m. x_encode x m \<noteq> None"
  shows "race_inv x key (race_start s t) (race_start s t)"
  using assms by (simp add: race_inv_def log_ok_def accounts_def race_start_def)

interpretation punch_race: invariant_system "race_step x key" "race_inv x key r0"
  by unfold_locales (rule race_inv_step)

text \<open>
  C12. However the accesses of parallel requests interleave with each other and with registrations, heartbeats, relay requests, answers, commands and
  ends of connections, what the main loop takes from the channel and what is written to connections is what was posted, and a request posts
  nothing while it is in progress and, when it is through, its one answer: in the channel, for the peer or for a requester on UDP, or written to the
  connection that waited under the requester's address when it was handed over (to none, if none did). The answer is the verdict of the specification on
  what was seen while the request was in progress: refused for a wrong key, as unknown when neither map nor table had the
  id, as offline when the peer seen under the id had been silent for 30 s at that time, and otherwise sent to the address that peer had, with the requester's
  address. The log of requests never holds a recent duplicate. (The database answers, the main loop holds its end of the channel, and
  messages can be encoded.)
\<close>

theorem punch_interleaved:
  assumes "punch_log_ok (punch_reqs s)" and "\<forall>e \<in> set (punch_reqs s). pe_tm e \<le> t" and "\<forall>m. x_encode x m \<noteq> None"
    and "r0 = race_start s t" and "(race_step x key)\<^sup>*\<^sup>* r0 r"
  shows "(ra_taken r @ tx (ra_shared r) = tx s @ concat (map (channel_part \<circ> snd) (ra_posted r)) \<and>
      sink_out (ra_shared r) = sink_out s @ concat (map (stream_part \<circ> snd) (ra_posted r))) \<and>
    (\<forall>n c st. ra_tasks r n = Some (c, st) \<longrightarrow>
      (if st \<noteq> Sent then postings n r = []
       else \<exists>m to. fits x key r0 n c r m to \<and> (\<exists>r1. moment x key r0 n c r1 r \<and> postings n r = receipt x c (ra_shared r1) m to))) \<and>
    punch_log_ok (punch_reqs (ra_shared r))"
proof -
  have "race_inv x key r0 r0" unfolding assms(4) by (rule race_inv_start [OF assms(1-3)])
  with punch_race.run_inv [OF assms(5)] have inv: "race_inv x key r0 r" by blast
  moreover have "ra_shared r0 = s" by (simp add: assms(4) race_start_def)
  ultimately show ?thesis unfolding race_inv_def accounts_def log_ok_def task_ok_def handed_def by auto
qed

text \<open>A request can always go on to its end.\<close>

lemma race_finishes:
  assumes "ra_tasks r n = Some (c, st)" and "e_db_read e" and "e_rx_open e" and "ra_clock r \<le> e_now e"
    and "accesses x e key c k st (ra_shared r) = (st', s')"
  shows "\<exists>r'. leads x key r r' \<and> ra_tasks r' n = Some (c, st') \<and> ra_shared r' = s' \<and> ra_clock r' \<le> max (ra_clock r) (e_now e) \<and>
    (\<forall>j. j \<noteq> n \<longrightarrow> ra_tasks r' j = ra_tasks r j) \<and> ra_next r' = ra_next r"
  using assms
proof (induction k arbitrary: r st)
  case (Suc k)
  obtain st1 s1 where one: "punch_access x e key c st (ra_shared r) = (st1, s1)" by fastforce
  let ?r = "(then_shared (Some n) s1 r)\<lparr>ra_tasks := (ra_tasks r)(n \<mapsto> (c, st1)), ra_clock := e_now e\<rparr>"
  have step: "race_step x key r ?r" by (rule race_step.Accesses [OF Suc.prems(1-4) one])
  from Suc.IH [of ?r st1] Suc.prems(2,3,5) one obtain r' where "leads x key ?r r'" "ra_tasks r' n = Some (c, st')" "ra_shared r' = s'"
    "ra_clock r' \<le> e_now e" "\<forall>j. j \<noteq> n \<longrightarrow> ra_tasks r' j = ra_tasks r j" "ra_next r' = ra_next r" by auto
  with step show ?case by (intro exI [of _ r']) (auto intro: converse_rtranclp_into_rtranclp)
qed auto

text \<open>The target sends a heartbeat from another port between the request and its answer.\<close>

lemma punch_interleaved_witness:
  "\<exists>r m to (r1 :: race) c. postings 0 r = receipt sample_ext c (ra_shared r1) m to \<and> ra_tasks r 0 = Some (c, Sent) \<and>
    fits sample_ext [] (race_start (sample_shared sample_now) sample_now) 0 c r m to"
proof -
  let ?r0 = "race_start (sample_shared sample_now) sample_now" and ?e = "sample_env sample_now"
  define c where "c = \<lparr>pc_handle = sample_handle, pc_addr = SocketV4 1 7,
    pc_ph = \<lparr>ph_id = ''peer-b'', ph_licence_key = [], ph_nat_type = 0\<rparr>, pc_from = Via_Udp\<rparr>"
  let ?r1 = "?r0\<lparr>ra_shared := park_sink sample_ext (pc_addr c) None (ra_shared ?r0),
      ra_tasks := (ra_tasks ?r0)(ra_next ?r0 \<mapsto> (c, Lookup)), ra_next := Suc (ra_next ?r0)\<rparr>"
  let ?r2 = "then_shared None (fst (update_addr ?e ''peer-b'' (SocketV4 167772162 5001) (ra_shared ?r1))) ?r1"
  have 1: "race_step sample_ext [] ?r0 ?r1" by (rule race_step.Comes)
  have 2: "race_step sample_ext [] ?r1 ?r2" by (rule race_step.Elsewhere [OF elsewhere.Renews])
  have "ra_tasks ?r2 0 = Some (c, Lookup)" "ra_clock ?r2 \<le> e_now ?e" by (simp_all add: race_start_def)
  from race_finishes [OF this(1) _ _ this(2) uninterrupted_is_handler [of sample_ext ?e "[]" c "ra_shared ?r2"]]
  obtain r where r: "leads sample_ext [] ?r2 r" "ra_tasks r 0 = Some (c, Sent)" by auto
  have run: "leads sample_ext [] ?r0 r" using 1 2 r(1) by (meson converse_rtranclp_into_rtranclp)
  have "punch_log_ok (punch_reqs (sample_shared sample_now))" "\<forall>e \<in> set (punch_reqs (sample_shared sample_now)). pe_tm e \<le> sample_now"
    "\<forall>m. x_encode sample_ext m \<noteq> None"
    by (simp_all add: sample_shared_def punch_log_ok_def sample_ext_def)
  note conjunct1 [OF conjunct2 [OF punch_interleaved [OF this refl run]], rule_format, OF r(2)]
  then obtain m to and r3 :: race where "fits sample_ext [] ?r0 0 c r m to" "postings 0 r = receipt sample_ext c (ra_shared r3) m to" by auto
  with r(2) show ?thesis by blast
qed

end
