(* ===== verification/Nat_Port.thy ===== *)
theory Nat_Port
  imports Server
begin

text \<open>
  The port below the main one (\<open>handle_listener2\<close> of \<open>src/rendezvous_server.rs\<close>): a connection from the machine itself is an
  administrator's session of one command, any other a NAT test or an online query.
\<close>

datatype port2_answer = Silent | Text string | Reply rmsg

text \<open>
  \<open>raw\<close> is what one read of at most a second yields, \<open>frame\<close> the frame that comes within 30 s; the handler waits for one of them.
\<close>

definition handle_listener2 ::
  "externals \<Rightarrow> listing \<Rightarrow> env \<Rightarrow> handle \<Rightarrow> socket_addr \<Rightarrow> bytes option \<Rightarrow> bytes option \<Rightarrow> shared \<Rightarrow>
     port2_answer \<times> shared" where
  "handle_listener2 x ls e h addr raw frame s =
     (if is_loopback (sa_ip (x_into_v4 x addr)) then
        (case admin_input raw of
           Some data \<Rightarrow> (let (res, s') = server_check_cmd ls e h data s in (Text res, s'))
         | None \<Rightarrow> (Silent, s))
      else
        (case frame of
           Some bs \<Rightarrow> (case listener2_reply x (e_now e) addr bs (pmap s) of Some m \<Rightarrow> (Reply m, s) | None \<Rightarrow> (Silent, s))
         | None \<Rightarrow> (Silent, s)))"

text \<open>The steps of the server in which somebody comes to this port and is answered are this handler.\<close>

lemma handle_listener2_steps:
  assumes "sv_failed v = None" and "P e" and "handle_listener2 x ls e (sv_handle v) addr raw frame (sv_shared v) = (r, s')"
  shows "(server_step x key P)\<^sup>*\<^sup>* v (v\<lparr>sv_shared := s', sv_replies := sv_replies v @ (case r of Reply m \<Rightarrow> [(addr, m)] | _ \<Rightarrow> [])\<rparr>)"
    (is "(server_step x key P)\<^sup>*\<^sup>* v ?w")
proof (cases "is_loopback (sa_ip (x_into_v4 x addr))")
  case True
  let ?v = "v\<lparr>sv_admins := sv_admins v @ [sv_handle v]\<rparr>"
  have come: "server_step x key P v ?v" by (rule server_step.Admin_Accept [OF assms(1) True])
  have "server_step x key P ?v ?w"
  proof (cases "admin_input raw")
    case None
    then show ?thesis
      using server_step.Admin_Gone [of ?v "sv_admins v" "sv_handle v" "[]" raw x key P] True assms(3)
      by (auto simp: handle_listener2_def)
  next
    case (Some cmd)
    then show ?thesis
      using server_step.Admin_Command [of P e ?v "sv_admins v" "sv_handle v" "[]" raw cmd _ ls x key] True assms(2,3)
      by (auto simp: handle_listener2_def case_prod_beta)
  qed
  with come show ?thesis by (meson converse_rtranclp_into_rtranclp r_into_rtranclp)
next
  case False
  let ?v = "v\<lparr>sv_nat := sv_nat v @ [addr]\<rparr>"
  have come: "server_step x key P v ?v" by (rule server_step.Nat_Accept [OF assms(1) False])
  have "server_step x key P ?v ?w"
  proof (cases frame)
    case None
    then show ?thesis
      using server_step.Nat_Gone [of ?v "sv_nat v" addr "[]" x key P] False assms(3) by (auto simp: handle_listener2_def)
  next
    case (Some bs)
    then show ?thesis
      using server_step.Nat_Frame [of P e ?v "sv_nat v" addr "[]" _ x bs key, OF assms(2) _ refl] False assms(3)
      by (auto simp: handle_listener2_def split: option.splits)
  qed
  with come show ?thesis by (meson converse_rtranclp_into_rtranclp r_into_rtranclp)
qed

text \<open>
  From elsewhere nobody gives orders on this port: whatever is sent, no state changes, and the answer, if any, is the sender's own port
  or who of the ids it names is online.
\<close>

theorem orders_from_machine_only:
  assumes "\<not> is_loopback (sa_ip (x_into_v4 x addr))" and "handle_listener2 x ls e h addr raw frame s = (r, s')"
  shows "s' = s \<and> (r = Silent \<or> (\<exists>n. r = Reply (TestNatResponse n) \<and> tn_port n = sa_port addr) \<or>
    (\<exists>peers. r = Reply (handle_online_request (e_now e) (pmap s) peers)))"
proof -
  have "(\<exists>n. m = TestNatResponse n \<and> tn_port n = sa_port addr) \<or> (\<exists>peers. m = handle_online_request (e_now e) (pmap s) peers)"
    if "listener2_reply x (e_now e) addr bs (pmap s) = Some m" for bs m
    using that by (auto simp: listener2_reply_def split: option.splits rmsg.splits)
  note replies = this
  show ?thesis
  proof (cases "Option.bind frame (\<lambda>bs. listener2_reply x (e_now e) addr bs (pmap s))")
    case None
    with assms have "s' = s \<and> r = Silent" by (auto simp: handle_listener2_def split: option.splits)
    then show ?thesis by simp
  next
    case (Some m)
    with assms have "s' = s \<and> r = Reply m" by (auto simp: handle_listener2_def split: option.splits)
    moreover from Some have "(\<exists>n. m = TestNatResponse n \<and> tn_port n = sa_port addr) \<or>
        (\<exists>peers. m = handle_online_request (e_now e) (pmap s) peers)" by (auto simp: bind_eq_Some_conv dest: replies)
    ultimately show ?thesis by blast
  qed
qed

lemma orders_from_machine_only_witness:
  "snd (handle_listener2 sample_ext ls (sample_env 0) h (SocketV4 134744072 5) (Some (map char_byte ''pr -'')) None s) = s"
proof -
  have "\<not> is_loopback (sa_ip (x_into_v4 sample_ext (SocketV4 134744072 5)))" by (simp add: sample_ext_def)
  from orders_from_machine_only [OF this prod.collapse [symmetric]] show ?thesis by blast
qed

text \<open>On the machine itself the command that was typed is carried out.\<close>

theorem machine_gives_orders:
  assumes "is_loopback (sa_ip (x_into_v4 x addr))" and "ascii cmd" and "length cmd \<le> 1024"
  shows "handle_listener2 x ls e h addr (Some (map char_byte cmd)) frame s
    = (Text (fst (server_check_cmd ls e h cmd s)), snd (server_check_cmd ls e h cmd s))"
  using admin_input_typed [OF assms(2,3)] assms(1) by (simp add: handle_listener2_def case_prod_beta)

lemma machine_gives_orders_witness:
  "punch_reqs (snd (handle_listener2 sample_ext ls (sample_env 0) h (SocketV4 2130706433 5) (Some (map char_byte ''pr -'')) None s)) = []"
proof -
  have pre: "is_loopback (sa_ip (x_into_v4 sample_ext (SocketV4 2130706433 5)))" "ascii ''pr -''"
    by (simp_all add: sample_ext_def ascii_def)
  have "split_on CHR '' '' (trim ''pr -'') = [''pr'', ''-'']" by code_simp
  then show ?thesis
    using machine_gives_orders [OF pre, of ls "sample_env 0" h None s]
    by (simp add: server_check_cmd_def punch_requests_cmd_def arg_def Let_def)
qed

end
