(* ===== verification/Handshake.thy ===== *)
theory Handshake
  imports Net_Parse Tcp_Server
begin

text \<open>
  The websocket handshake, the same callback in \<open>src/rendezvous_server.rs\<close> and \<open>src/relay_server.rs\<close>: behind a reverse proxy the
  client's address is taken from a header, with port 0. \<open>hdr\<close> is what the request's header map returns for a name: nothing, or
  a value that is text or not.
\<close>

definition real_ip :: "(string \<Rightarrow> string option option) \<Rightarrow> string option" where
  "real_ip hdr =
     Option.bind (case hdr ''X-Real-IP'' of Some v \<Rightarrow> Some v | None \<Rightarrow> hdr ''X-Forwarded-For'') (\<lambda>v. v)"

definition ws_addr :: "(string \<Rightarrow> string option option) \<Rightarrow> socket_addr \<Rightarrow> socket_addr" where
  "ws_addr hdr addr =
     (case real_ip hdr of
        Some ip \<Rightarrow>
          (case parse_socket (if CHR ''.'' \<in> set ip then ip @ '':0'' else CHR ''['' # ip @ '']:0'') of
             Some a \<Rightarrow> a
           | None \<Rightarrow> addr)
      | None \<Rightarrow> addr)"

lemma ws_addr_v4: "real_ip hdr = Some (show_v4 a) \<Longrightarrow> ws_addr hdr addr = SocketV4 a 0"
proof -
  assume hdr: "real_ip hdr = Some (show_v4 a)"
  have "length (chunks 8 4 a) = 4" by simp
  then obtain p q ps where "chunks 8 4 a = p # q # ps" by (auto simp: chunks_def upt_rec)
  then have "CHR ''.'' \<in> set (show_v4 a)" by (simp add: show_v4_def)
  with hdr show ?thesis by (simp add: ws_addr_def parse_socket_v4)
qed

text \<open>
  A websocket client is known by the address its header names: the printed form of any IPv4 address in \<open>X-Real-IP\<close> makes it that
  address with port 0, whatever address the connection comes from, so two such clients are one to
  the server; a header that is missing or not text leaves the address of the connection.
\<close>

theorem header_names_client:
  "(hdr ''X-Real-IP'' = Some (Some (show_v4 a)) \<longrightarrow> ws_addr hdr addr = SocketV4 a 0) \<and>
   (hdr ''X-Real-IP'' = None \<and> hdr ''X-Forwarded-For'' = None \<longrightarrow> ws_addr hdr addr = addr) \<and>
   (hdr ''X-Real-IP'' = Some None \<longrightarrow> ws_addr hdr addr = addr)"
proof (intro conjI impI)
  assume "hdr ''X-Real-IP'' = Some (Some (show_v4 a))"
  then show "ws_addr hdr addr = SocketV4 a 0" by (intro ws_addr_v4) (simp add: real_ip_def)
qed (auto simp: ws_addr_def real_ip_def)

lemma header_names_client_witness:
  "ws_addr (\<lambda>n. if n = ''X-Real-IP'' then Some (Some (show_v4 167772161)) else None) (SocketV4 2130706433 40000)
    = SocketV4 167772161 0"
  using header_names_client [of "\<lambda>n. if n = ''X-Real-IP'' then Some (Some (show_v4 167772161)) else None" 167772161
      "SocketV4 2130706433 40000"] by simp

subsection \<open>Clients that share an address\<close>

lemma request_relay_parks:
  assumes "x_decode x bs = Some (Some (RequestRelay rf))"
    and "handle_tcp x e h key bs (Some k) addr ws s = (go_on, sk, s')"
  shows "sk = None \<and> tcp_punch s' = (tcp_punch s)(x_into_v4 x addr \<mapsto> k) \<and> sink_out s' = sink_out s"
  using assms by (auto simp: handle_tcp_def handle_request_relay_def park_sink_def put_sink_def tx_send_def
      split: option.split)

text \<open>
  C37. Two websocket clients behind one public address get each other's answers: when the second asks for a relay while the first
  waits, the first client's stream is dropped from the table, the next answer for that address goes to the second client, and the first
  is in nobody's hands any more.
\<close>

theorem shared_address_steals_answer:
  assumes "ws_addr hdr1 a1 = addr" and "ws_addr hdr2 a2 = addr" and "k1 \<noteq> k2"
    and "x_decode x bs1 = Some (Some (RequestRelay rf1))" and "x_decode x bs2 = Some (Some (RequestRelay rf2))"
    and "handle_tcp x e1 h key bs1 (Some k1) (ws_addr hdr1 a1) True s = (go1, sk1, s1)"
    and "handle_tcp x e2 h key bs2 (Some k2) (ws_addr hdr2 a2) True s1 = (go2, sk2, s2)"
    and "k1 \<notin> ran (tcp_punch s)" and "x_encode x m \<noteq> None"
  shows "sink_out (send_to_tcp_sync x m addr s2) = sink_out s @ [(k2, m)] \<and>
    sk1 = None \<and> k1 \<notin> ran (tcp_punch s2)"
proof -
  have 1: "sk1 = None" "tcp_punch s1 = (tcp_punch s)(x_into_v4 x addr \<mapsto> k1)" "sink_out s1 = sink_out s"
    using request_relay_parks [OF assms(4,6)] assms(1) by auto
  have 2: "tcp_punch s2 = (tcp_punch s1)(x_into_v4 x addr \<mapsto> k2)" "sink_out s2 = sink_out s1"
    using request_relay_parks [OF assms(5,7)] assms(2) by auto
  have "k1 \<notin> ran (tcp_punch s2)" using 1 2 assms(3,8) by (auto simp: ran_def split: if_splits)
  moreover have "sink_out (send_to_tcp_sync x m addr s2) = sink_out s @ [(k2, m)]"
    using 1 2 assms(9) by (simp add: send_to_tcp_sinks)
  ultimately show ?thesis using 1 by blast
qed

definition proxied_ext :: externals where
  "proxied_ext = sample_ext\<lparr>x_decode := \<lambda>_. Some (Some (RequestRelay
     \<lparr>rf_id = [], rf_uuid = [], rf_socket_addr = [], rf_licence_key = [], rf_rest = []\<rparr>))\<rparr>"

lemma shared_address_steals_answer_witness:
  "\<exists>s2 :: shared. sink_out (send_to_tcp_sync proxied_ext (OtherMsg []) (SocketV4 167772161 0) s2)
    = [(WsSink 1, OtherMsg [])]"
proof -
  let ?hdr = "\<lambda>n. if n = ''X-Real-IP'' then Some (Some (show_v4 167772161)) else None"
  have addr: "ws_addr ?hdr a = SocketV4 167772161 0" for a by (rule ws_addr_v4) (simp add: real_ip_def)
  have dec: "x_decode proxied_ext [] = Some (Some (RequestRelay
     \<lparr>rf_id = [], rf_uuid = [], rf_socket_addr = [], rf_licence_key = [], rf_rest = []\<rparr>))"
    by (simp add: proxied_ext_def)
  have enc: "x_encode proxied_ext (OtherMsg []) \<noteq> None" by (simp add: proxied_ext_def sample_ext_def)
  obtain go1 sk1 s1 where 1: "handle_tcp proxied_ext (sample_env 0) sample_handle [] [] (Some (WsSink 0))
      (ws_addr ?hdr (SocketV4 2130706433 40000)) True fresh_shared = (go1, sk1, s1)" by (metis prod.collapse)
  obtain go2 sk2 s2 where 2: "handle_tcp proxied_ext (sample_env 0) sample_handle [] [] (Some (WsSink 1))
      (ws_addr ?hdr (SocketV4 2130706433 40001)) True s1 = (go2, sk2, s2)" by (metis prod.collapse)
  from shared_address_steals_answer [OF addr addr _ dec dec 1 2 _ enc] show ?thesis
    by (intro exI [of _ s2]) (simp add: ran_def)
qed


text \<open>
  The end of one such client takes the other with it: when the first's stream ends, or stays silent for 30 s, the code removes whatever
  waits under the address, which is the second's stream by then, and the next answer reaches nobody.
\<close>

theorem closing_drops_other_client:
  assumes "ws_addr hdr1 a1 = addr" and "ws_addr hdr2 a2 = addr"
    and "x_decode x bs1 = Some (Some (RequestRelay rf1))" and "x_decode x bs2 = Some (Some (RequestRelay rf2))"
    and "handle_tcp x e1 h key bs1 (Some k1) (ws_addr hdr1 a1) True s = (go1, sk1, s1)"
    and "handle_tcp x e2 h key bs2 (Some k2) (ws_addr hdr2 a2) True s1 = (go2, sk2, s2)"
    and "s3 = close_connection x (ws_addr hdr1 a1) sk1 s2"
  shows "tcp_punch s2 (x_into_v4 x addr) = Some k2 \<and> tcp_punch s3 (x_into_v4 x addr) = None \<and>
    sink_out (send_to_tcp_sync x m addr s3) = sink_out s"
proof -
  have "sk1 = None" "sink_out s1 = sink_out s" using request_relay_parks [OF assms(3,5)] by auto
  moreover have "tcp_punch s2 (x_into_v4 x addr) = Some k2" "sink_out s2 = sink_out s1"
    using request_relay_parks [OF assms(4,6)] assms(2) by auto
  ultimately show ?thesis
    by (simp add: assms(1,7) close_connection_def remove_sink_def send_to_tcp_sinks)
qed

end
