(* ===== verification/Listener.thy ===== *)
theory Listener
  imports Server Handshake
begin

text \<open>
  One connection of the main or the websocket port from its accept to its end (\<open>handle_listener_inner\<close> of
  \<open>src/rendezvous_server.rs\<close>), as the steps the server takes for it when nothing comes in between.
\<close>

text \<open>
  \<open>upgraded\<close> says whether the websocket handshake succeeds, \<open>hdr\<close> is the header map the callback sees, \<open>n\<close> the number of the
  connection, \<open>fs\<close> the frames that arrive in time. The first component is \<open>Ok\<close> or \<open>Err\<close>.
\<close>

definition handle_listener_inner ::
  "externals \<Rightarrow> handle \<Rightarrow> string \<Rightarrow> bool \<Rightarrow> (string \<Rightarrow> string option option) \<Rightarrow> socket_addr \<Rightarrow> bool \<Rightarrow> nat \<Rightarrow>
     (env \<times> frame) list \<Rightarrow> shared \<Rightarrow> bool \<times> shared" where
  "handle_listener_inner x h key upgraded hdr addr ws n fs s =
     (if ws \<and> \<not> upgraded then (False, s)
      else let a = (if ws then ws_addr hdr addr else addr)
           in case tcp_loop x h key a ws fs (Some (sink_of ws n)) s of
                (sk, s') \<Rightarrow> (True, close_connection x a sk s'))"

lemma tcp_loop_steps:
  assumes "sv_conns v n = Some c" and "\<forall>(e, f) \<in> set fs. P e"
    and "tcp_loop x (c_handle c) key (c_addr c) (c_ws c) fs (c_sink c) (sv_shared v) = (sk, s')"
  shows "(server_step x key P)\<^sup>*\<^sup>* v
    (v\<lparr>sv_shared := close_connection x (c_addr c) sk s', sv_conns := (sv_conns v)(n := None)\<rparr>)"
  using assms
proof (induction fs arbitrary: v c)
  case Nil
  then have "sk = c_sink c" "s' = sv_shared v" by simp_all
  with server_step.Eof [OF Nil(1), of x key P] show ?case by (simp only: r_into_rtranclp)
next
  case (Cons ef fs)
  obtain e f where ef: "ef = (e, f)" by fastforce
  show ?case
  proof (cases f)
    case NonBinary
    with Cons ef show ?thesis by auto
  next
    case (Binary bs)
    obtain go_on sk1 s1 where tcp:
      "handle_tcp x e (c_handle c) key bs (c_sink c) (c_addr c) (c_ws c) (sv_shared v) = (go_on, sk1, s1)"
      by (metis prod_cases3)
    have "P e" using Cons.prems(2) ef by simp
    show ?thesis
    proof (cases go_on)
      case False
      with tcp Cons.prems(3) ef Binary have "sk = sk1" "s' = s1" by simp_all
      moreover have "server_step x key P v
          (v\<lparr>sv_shared := close_connection x (c_addr c) sk1 s1, sv_conns := (sv_conns v)(n := None)\<rparr>)"
        by (rule server_step.Last_Frame [of P e, OF \<open>P e\<close> Cons.prems(1)]) (use tcp False in simp)
      ultimately show ?thesis by (simp only: r_into_rtranclp)
    next
      case True
      let ?v = "v\<lparr>sv_shared := s1, sv_conns := (sv_conns v)(n \<mapsto> c\<lparr>c_sink := sk1\<rparr>)\<rparr>"
      have "server_step x key P v ?v"
        by (rule server_step.Frame [of P e, OF \<open>P e\<close> Cons.prems(1)]) (use tcp True in simp)
      moreover have "(server_step x key P)\<^sup>*\<^sup>* ?v
          (v\<lparr>sv_shared := close_connection x (c_addr c) sk s', sv_conns := (sv_conns v)(n := None)\<rparr>)"
        using Cons.IH [of ?v "c\<lparr>c_sink := sk1\<rparr>"] Cons.prems(2,3) tcp True ef Binary by (simp add: fun_upd_def cong: if_cong)
      ultimately show ?thesis by (rule converse_rtranclp_into_rtranclp)
    qed
  qed
qed

text \<open>The whole connection is a run of the server.\<close>

theorem connection_is_run:
  assumes "sv_failed v = None" and "ws \<longrightarrow> upgraded" and "\<forall>(e, f) \<in> set fs. P e"
    and "handle_listener_inner x (sv_handle v) key upgraded hdr addr ws (sv_next v) fs (sv_shared v) = (ok, s')"
  shows "ok \<and> (server_step x key P)\<^sup>*\<^sup>* v
    (v\<lparr>sv_shared := s', sv_next := Suc (sv_next v), sv_conns := (sv_conns v)(sv_next v := None)\<rparr>)"
proof -
  let ?n = "sv_next v" and ?a = "if ws then ws_addr hdr addr else addr"
  let ?c = "\<lparr>c_handle = sv_handle v, c_addr = ?a, c_ws = ws, c_sink = Some (sink_of ws ?n)\<rparr>"
  let ?v = "v\<lparr>sv_conns := (sv_conns v)(?n \<mapsto> ?c), sv_next := Suc ?n\<rparr>"
  have accept: "server_step x key P v ?v" by (rule server_step.Accept [OF assms(1) refl refl])
  obtain sk s1 where loop: "tcp_loop x (sv_handle v) key ?a ws fs (Some (sink_of ws ?n)) (sv_shared v) = (sk, s1)"
    by fastforce
  have s': "ok" "s' = close_connection x ?a sk s1"
    using assms(2,4) loop by (auto simp: handle_listener_inner_def Let_def)
  have "(server_step x key P)\<^sup>*\<^sup>* ?v (?v\<lparr>sv_shared := s', sv_conns := (sv_conns ?v)(?n := None)\<rparr>)"
    using tcp_loop_steps [of ?v ?n ?c fs P x key sk s1] assms(3) loop s'(2) by (simp add: fun_upd_def cong: if_cong)
  moreover have "?v\<lparr>sv_shared := s', sv_conns := (sv_conns ?v)(?n := None)\<rparr>
      = v\<lparr>sv_shared := s', sv_next := Suc ?n, sv_conns := (sv_conns v)(?n := None)\<rparr>" by (cases v) simp
  ultimately show ?thesis using accept s'(1) by (metis converse_rtranclp_into_rtranclp)
qed

text \<open>
  So the connection as a whole is given at most one message, and what it leaves is a peer map as good as it found it; no id that was bound to a
  \<open>uuid\<close> is bound to another.
\<close>

corollary connection_safe:
  assumes "shared_ok (sv_shared v)" and "server_sinks v" and "sv_failed v = None" and "ws \<longrightarrow> upgraded"
    and "\<forall>(e, f) \<in> set fs. e_db_read e" and "bound_uuid x (pmap (sv_shared v)) q = Some u"
  shows "(case handle_listener_inner x (sv_handle v) key upgraded hdr addr ws (sv_next v) fs (sv_shared v) of (ok, s') \<Rightarrow>
     shared_ok s' \<and> written k (sink_out s') \<le> 1 \<and> bound_uuid x (pmap s') q = Some u)"
proof -
  obtain ok s' where run: "handle_listener_inner x (sv_handle v) key upgraded hdr addr ws (sv_next v) fs (sv_shared v) = (ok, s')"
    by fastforce
  let ?v = "v\<lparr>sv_shared := s', sv_next := Suc (sv_next v), sv_conns := (sv_conns v)(sv_next v := None)\<rparr>"
  have "(server_step x key e_db_read)\<^sup>*\<^sup>* v ?v" using connection_is_run [OF assms(3-5) run] by blast
  then have "server_reaches x key e_db_read v ?v"
    by (induction rule: rtranclp_induct) (auto intro: server_reaches.Start server_reaches.Step)
  with server_reaches_ok [OF this assms(1)] server_reaches_bound [OF this assms(1,6)] server_sinksD(1) [OF server_reaches_sinks [OF this assms(2)]]
  show ?thesis by (simp add: run)
qed

end
