(* ===== verification/Relay_Lists.thy ===== *)
theory Relay_Lists
  imports Messages Text_Parsing
begin

text \<open>
  The address lists of \<open>src/relay_server.rs\<close>: \<open>BLACKLIST\<close> (throttled addresses) and
  \<open>BLOCKLIST\<close> (refused ones), how \<open>start\<close> loads them from files, the commands of \<open>check_cmd\<close>
  that change and query them, and the admission test of \<open>handle_connection\<close>. A \<open>HashSet\<close> has no order of
  its own: listing one takes the order as a parameter.
\<close>

record ip_lists =
  blacklist :: "string set"
  blocklist :: "string set"

subsection \<open>The files\<close>

definition load_list :: "string \<Rightarrow> string set \<Rightarrow> string set" where
  "load_list contents l =
     fold (\<lambda>x l. insert (hd (split_on CHR '' '' (trim x))) l) (split_on (CHR 10) contents) l"

text \<open>A file that cannot be read is skipped.\<close>

definition load_lists :: "string option \<Rightarrow> string option \<Rightarrow> ip_lists" where
  "load_lists black block =
     \<lparr>blacklist = (case black of Some c \<Rightarrow> load_list c {} | None \<Rightarrow> {}),
      blocklist = (case block of Some c \<Rightarrow> load_list c {} | None \<Rightarrow> {})\<rparr>"

subsection \<open>The commands\<close>

definition add_ips :: "string \<Rightarrow> string set \<Rightarrow> string set" where
  "add_ips arg l = fold insert (split_on CHR ''|'' arg) l"

definition remove_ips :: "string \<Rightarrow> string set \<Rightarrow> string set" where
  "remove_ips arg l =
     (if arg = ''all'' then {} else fold (\<lambda>ip l. l - {ip}) (split_on CHR ''|'' arg) l)"

definition query_ips :: "(string set \<Rightarrow> string list) \<Rightarrow> string list \<Rightarrow> string set \<Rightarrow> string" where
  "query_ips order args l =
     (case args of
        ip # _ \<Rightarrow> show_bool (ip \<in> l) @ newline
      | [] \<Rightarrow> concat (map (\<lambda>ip. ip @ newline) (order l)))"

definition on_arg :: "(string \<Rightarrow> string set \<Rightarrow> string set) \<Rightarrow> string list \<Rightarrow> string set \<Rightarrow> string set" where
  "on_arg f args l = (case args of ip # _ \<Rightarrow> f ip l | [] \<Rightarrow> l)"

text \<open>The six list commands; \<^const>\<open>None\<close> when the name is none of theirs.\<close>

definition list_cmd ::
  "(string set \<Rightarrow> string list) \<Rightarrow> string \<Rightarrow> string list \<Rightarrow> ip_lists \<Rightarrow> (string \<times> ip_lists) option" where
  "list_cmd order name args l =
     (if name = ''blacklist-add'' \<or> name = ''ba'' then
        Some ([], l\<lparr>blacklist := on_arg add_ips args (blacklist l)\<rparr>)
      else if name = ''blacklist-remove'' \<or> name = ''br'' then
        Some ([], l\<lparr>blacklist := on_arg remove_ips args (blacklist l)\<rparr>)
      else if name = ''blacklist'' \<or> name = ''b'' then
        Some (query_ips order args (blacklist l), l)
      else if name = ''blocklist-add'' \<or> name = ''Ba'' then
        Some ([], l\<lparr>blocklist := on_arg add_ips args (blocklist l)\<rparr>)
      else if name = ''blocklist-remove'' \<or> name = ''Br'' then
        Some ([], l\<lparr>blocklist := on_arg remove_ips args (blocklist l)\<rparr>)
      else if name = ''blocklist'' \<or> name = ''B'' then
        Some (query_ips order args (blocklist l), l)
      else None)"

text \<open>
  What becomes of a new connection: an administrator on the machine itself (plain TCP only),
  a refused address, or a client to pair.
\<close>

datatype admission = Admin | Refused | Client

definition admit :: "externals \<Rightarrow> ip_lists \<Rightarrow> socket_addr \<Rightarrow> bool \<Rightarrow> admission" where
  "admit x l addr ws =
     (let ip = sa_ip (x_into_v4 x addr)
      in if \<not> ws \<and> is_loopback ip then Admin
         else if show_ip ip \<in> blocklist l then Refused
         else Client)"

subsection \<open>A list under commands\<close>

text \<open>
  The contract of a set of names edited by \<open>|\<close>-separated arguments, proved once and used
  for both lists: the last edit that names an address decides.
\<close>

datatype list_edit = Add string | Remove string

definition mentions :: "string \<Rightarrow> list_edit \<Rightarrow> bool" where
  "mentions ip ed =
     (case ed of
        Add arg \<Rightarrow> ip \<in> set (split_on CHR ''|'' arg)
      | Remove arg \<Rightarrow> arg = ''all'' \<or> ip \<in> set (split_on CHR ''|'' arg))"

locale edited_list =
  fixes member :: "'st \<Rightarrow> string \<Rightarrow> bool"
    and edit :: "list_edit \<Rightarrow> 'st \<Rightarrow> 'st"
  assumes edit_other: "\<not> mentions ip ed \<Longrightarrow> member (edit ed st) ip = member st ip"
    and edit_add: "mentions ip (Add arg) \<Longrightarrow> member (edit (Add arg) st) ip"
    and edit_remove: "mentions ip (Remove arg) \<Longrightarrow> \<not> member (edit (Remove arg) st) ip"
begin

lemma last_edit_decides:
  "member (fold edit eds st) ip =
     (case find (mentions ip) (rev eds) of
        None \<Rightarrow> member st ip
      | Some (Add _) \<Rightarrow> True
      | Some (Remove _) \<Rightarrow> False)"
proof (induction eds rule: rev_induct)
  case (snoc ed eds)
  then show ?case
    using edit_add edit_remove edit_other by (cases ed) (auto split: option.split)
qed simp

end

definition edit_set :: "list_edit \<Rightarrow> string set \<Rightarrow> string set" where
  "edit_set ed l = (case ed of Add arg \<Rightarrow> add_ips arg l | Remove arg \<Rightarrow> remove_ips arg l)"

lemma fold_insert_set: "fold insert xs l = l \<union> set xs"
  by (induction xs arbitrary: l) auto

lemma fold_remove_set: "fold (\<lambda>y l. l - {y}) xs l = l - set xs"
  by (induction xs arbitrary: l) auto

lemma add_ips_set: "add_ips arg l = l \<union> set (split_on CHR ''|'' arg)"
  by (simp add: add_ips_def fold_insert_set)

lemma remove_ips_set:
  "remove_ips arg l = (if arg = ''all'' then {} else l - set (split_on CHR ''|'' arg))"
  by (simp add: remove_ips_def fold_remove_set)

definition edit_black :: "list_edit \<Rightarrow> ip_lists \<Rightarrow> ip_lists" where
  "edit_black ed l = l\<lparr>blacklist := edit_set ed (blacklist l)\<rparr>"

definition edit_block :: "list_edit \<Rightarrow> ip_lists \<Rightarrow> ip_lists" where
  "edit_block ed l = l\<lparr>blocklist := edit_set ed (blocklist l)\<rparr>"

interpretation black_edits: edited_list "\<lambda>l ip. ip \<in> blacklist l" edit_black
  by unfold_locales
    (auto simp: edit_black_def edit_set_def add_ips_set remove_ips_set mentions_def
      split: list_edit.splits if_splits)

interpretation block_edits: edited_list "\<lambda>l ip. ip \<in> blocklist l" edit_block
  by unfold_locales
    (auto simp: edit_block_def edit_set_def add_ips_set remove_ips_set mentions_def
      split: list_edit.splits if_splits)

subsection \<open>Addresses as text\<close>

text \<open>The characters an address is printed with: digits, lower-case letters, dots and colons.\<close>

definition address_chars :: "char set" where
  "address_chars = insert CHR ''.'' (insert CHR '':'' (digit_char ` {..<36}))"

lemma show_base_address: "2 \<le> b \<Longrightarrow> b \<le> 36 \<Longrightarrow> set (show_base b n) \<subseteq> address_chars"
proof (induction b n rule: show_base.induct)
  case (1 b n)
  have "n mod b < 36" by (rule less_le_trans [OF mod_less_divisor]) (use 1(2,3) in auto)
  with 1 show ?case
    by (subst show_base.simps) (auto simp: address_chars_def)
qed

lemma join_address:
  "c \<in> address_chars \<Longrightarrow> \<forall>p \<in> set ps. set p \<subseteq> address_chars \<Longrightarrow> set (join_on c ps) \<subseteq> address_chars"
  using set_join_on [of c ps] by blast

lemma address_marks [simp]: "CHR ''.'' \<in> address_chars" "CHR '':'' \<in> address_chars"
  by (simp_all add: address_chars_def)

lemma show_v4_address: "set (show_v4 a) \<subseteq> address_chars"
  unfolding show_v4_def by (rule join_address) (use show_base_address [of 10] in auto)

lemma show_v6_address: "set (show_v6 a) \<subseteq> address_chars"
proof (cases "to_ipv4_mapped a")
  case (Some v)
  have "(of_char (digit_char 15) :: nat) = of_char CHR ''f''" by (simp add: digit_char_def)
  then have "digit_char 15 = CHR ''f''" by (simp only: of_char_eq_iff)
  moreover have "digit_char 15 \<in> address_chars" by (simp add: address_chars_def)
  ultimately have "CHR ''f'' \<in> address_chars" by simp
  then show ?thesis using Some show_v4_address [of v] by (auto simp: show_v6_def)
next
  case None
  have "set (join_on CHR '':'' (map show_hex xs)) \<subseteq> address_chars" for xs
    by (rule join_address) (use show_base_address [of 16] in auto)
  then have "c \<in> set (join_on CHR '':'' (map show_hex xs)) \<Longrightarrow> c \<in> address_chars" for c xs by blast
  then show ?thesis using None by (auto simp: show_v6_def Let_def split: prod.splits if_splits)
qed

lemma show_ip_address: "set (show_ip a) \<subseteq> address_chars"
  using show_v4_address show_v6_address by (cases a) auto

lemma show_ip_not_Nil [simp]: "show_ip a \<noteq> []"
proof (cases a)
  case (IpV4 b)
  then show ?thesis using show_v4_dot [of b] by auto
next
  case (IpV6 b)
  then show ?thesis using show_v6_colon [of b] by auto
qed

lemma address_chars_plain: "c \<in> address_chars \<Longrightarrow> \<not> is_space c \<and> c \<noteq> CHR ''|''"
proof -
  have "\<not> is_space (digit_char n) \<and> digit_char n \<noteq> CHR ''|''" if "n < 36" for n
  proof -
    have code: "(of_char (digit_char n) :: nat) = (if n < 10 then 48 + n else 87 + n)"
      using that by (simp add: digit_char_def)
    then have "(of_char (digit_char n) :: nat) \<noteq> of_char CHR '' ''"
      "(of_char (digit_char n) :: nat) \<noteq> of_char CHR ''|''" using that by (auto split: if_splits)
    then have "digit_char n \<noteq> CHR '' ''" "digit_char n \<noteq> CHR ''|''" by metis+
    with code that show ?thesis by (simp add: is_space_def)
  qed
  moreover assume "c \<in> address_chars"
  ultimately show ?thesis by (auto simp: address_chars_def is_space_def)
qed

lemma trim_plain: "\<forall>c \<in> set s. \<not> is_space c \<Longrightarrow> trim s = s"
  by (simp add: trim_def dropWhile_eq_self_iff)
    (metis dropWhile_eq_self_iff hd_in_set last_in_set list.set_sel(1) rev.simps(1) rev_rev_ident set_rev)

lemma show_ip_trim [simp]: "trim (show_ip a) = show_ip a"
  using show_ip_address [of a] address_chars_plain by (intro trim_plain) blast

lemma show_ip_pieces: "is_space c \<or> c = CHR ''|'' \<Longrightarrow> c \<notin> set (show_ip a)"
  using show_ip_address [of a] address_chars_plain by blast

lemma show_ip_split [simp]:
  "split_on CHR '' '' (show_ip a) = [show_ip a]" "split_on CHR ''|'' (show_ip a) = [show_ip a]"
  using show_ip_pieces by (simp_all add: split_on_free is_space_def)

lemma fold_insert_image: "fold (\<lambda>x l. insert (f x) l) xs l = l \<union> f ` set xs"
  by (induction xs arbitrary: l) auto

lemma load_list_set:
  "load_list contents l = l \<union> (\<lambda>x. hd (split_on CHR '' '' (trim x))) ` set (split_on (CHR 10) contents)"
  by (simp add: load_list_def fold_insert_image)

text \<open>
  A list file with one address per line is loaded exactly: the entries are the printed
  addresses, and a connection from \<open>a\<close> is refused if and only if \<open>a\<close> is one of those written to the
  block file, except an administrator's from the machine itself.
\<close>

theorem block_file_roundtrip:
  assumes "ips \<noteq> []"
    and "l = load_lists black (Some (join_on (CHR 10) (map show_ip ips)))"
  shows "blocklist l = show_ip ` set ips \<and>
    (admit x l addr ws = Refused \<longleftrightarrow>
      sa_ip (x_into_v4 x addr) \<in> set ips \<and> (ws \<or> \<not> is_loopback (sa_ip (x_into_v4 x addr))))"
proof -
  have "CHR 10 \<notin> set (show_ip a)" for a by (rule show_ip_pieces) (simp add: is_space_def)
  then have "split_on (CHR 10) (join_on (CHR 10) (map show_ip ips)) = map show_ip ips"
    using assms(1) by (intro split_join) auto
  then have "blocklist l = show_ip ` set ips"
    by (auto simp: assms(2) load_lists_def load_list_set image_image)
  then show ?thesis by (auto simp: admit_def Let_def show_ip_inj)
qed

lemma block_file_roundtrip_witness:
  "\<exists>l. l = load_lists None (Some (join_on (CHR 10) (map show_ip [IpV4 1, IpV6 9]))) \<and>
    blocklist l = {show_ip (IpV4 1), show_ip (IpV6 9)}"
proof -
  define l where "l = load_lists None (Some (join_on (CHR 10) (map show_ip [IpV4 1, IpV6 9])))"
  have "blocklist l = show_ip ` set [IpV4 1, IpV6 9]"
    by (rule block_file_roundtrip [OF _ l_def, THEN conjunct1]) simp
  then have "blocklist l = {show_ip (IpV4 1), show_ip (IpV6 9)}" by simp
  with l_def show ?thesis by blast
qed

end
