(* ===== verification/Relay_Admin.thy ===== *)
theory Relay_Admin
  imports Relay_Lists "HOL-Library.Multiset"
begin

text \<open>
  The settings of \<open>src/relay_server.rs\<close>: the five numbers \<open>check_params\<close> reads from the
  environment, and \<open>check_cmd\<close>, the text commands that edit the lists and the settings and
  print the usage table. Four settings go through floating point, whose parsing, scaling and printing are parameters;
  the order of a hash table is one as well.
\<close>

record relay_settings =
  st_threshold_100 :: usize
  st_start_check :: usize
  st_limit_speed :: usize
  st_total_bandwidth :: usize
  st_single_bandwidth :: usize
  st_limiter :: usize

type_synonym usage = "usize \<times> usize \<times> usize \<times> usize"

record relay_admin =
  ra_lists :: ip_lists
  ra_settings :: relay_settings

definition default_settings :: relay_settings where
  "default_settings =
     \<lparr>st_threshold_100 = 66, st_start_check = 1800000, st_limit_speed = 32 * 1024 * 1024,
      st_total_bandwidth = 1024 * 1024 * 1024, st_single_bandwidth = 128 * 1024 * 1024, st_limiter = 0\<rparr>"

text \<open>
  Floating point: a text that parses to a positive number \<open>v\<close> gives \<open>v * 100\<close> or \<open>v * 1024 * 1024\<close> cast to
  \<open>usize\<close>, any other nothing; and the texts printed for a setting or a total.
\<close>

record float_ops =
  fo_percent :: "string \<Rightarrow> usize option"
  fo_mega :: "string \<Rightarrow> usize option"
  fo_show_percent :: "usize \<Rightarrow> string"
  fo_show_mega :: "usize \<Rightarrow> string"
  fo_show_mb :: "usize \<Rightarrow> string"

subsection \<open>Unsigned numbers as text\<close>

text \<open>\<open>parse::<usize>\<close>, a positive value only.\<close>

definition positive_usize :: "string \<Rightarrow> usize option" where
  "positive_usize s =
     (case parse_usize s of Some v \<Rightarrow> if 0 < v then Some v else None | None \<Rightarrow> None)"

subsection \<open>The environment\<close>

definition store_some :: "'a option \<Rightarrow> ('a \<Rightarrow> 's \<Rightarrow> 's) \<Rightarrow> 's \<Rightarrow> 's" where
  "store_some v f s = (case v of Some n \<Rightarrow> f n s | None \<Rightarrow> s)"

definition check_params ::
  "float_ops \<Rightarrow> (string \<Rightarrow> string option) \<Rightarrow> relay_settings \<Rightarrow> relay_settings" where
  "check_params fo var st =
     store_some (Option.bind (var ''SINGLE_BANDWIDTH'') (fo_mega fo)) (\<lambda>n. st_single_bandwidth_update (\<lambda>_. n))
     (store_some (Option.bind (var ''TOTAL_BANDWIDTH'') (fo_mega fo)) (\<lambda>n. st_total_bandwidth_update (\<lambda>_. n))
     (store_some (Option.bind (var ''LIMIT_SPEED'') (fo_mega fo)) (\<lambda>n. st_limit_speed_update (\<lambda>_. n))
     (store_some (Option.bind (var ''DOWNGRADE_START_CHECK'') positive_usize)
        (\<lambda>n. st_start_check_update (\<lambda>_. n * 1000))
     (store_some (Option.bind (var ''DOWNGRADE_THRESHOLD'') (fo_percent fo))
        (\<lambda>n. st_threshold_100_update (\<lambda>_. n)) st))))"

text \<open>\<open>io_loop\<close>: the parameters, then the shared limiter at the total bandwidth.\<close>

definition start_settings :: "float_ops \<Rightarrow> (string \<Rightarrow> string option) \<Rightarrow> relay_settings \<Rightarrow> relay_settings" where
  "start_settings fo var st =
     (let st' = check_params fo var st in st'\<lparr>st_limiter := st_total_bandwidth st'\<rparr>)"

subsection \<open>The usage report\<close>

text \<open>Stable, by descending total; entries of a relay that has not been measured yet are skipped.\<close>

definition usage_entries :: "(string \<times> usage) list \<Rightarrow> (string \<times> usage) list" where
  "usage_entries us =
     filter (\<lambda>u. fst (snd u) \<noteq> 0) (sort_key (\<lambda>u. - uint (fst (snd (snd u)))) us)"

definition usage_line :: "float_ops \<Rightarrow> string \<times> usage \<Rightarrow> string" where
  "usage_line fo u =
     (case u of (ip, elapsed, tot, highest, speed) \<Rightarrow>
        ip @ '': '' @ show_usize (elapsed div 1000) @ ''s '' @ fo_show_mb fo tot @ ''MB '' @
        show_usize highest @ ''kb/s '' @ show_usize (tot div elapsed) @ ''kb/s '' @
        show_usize speed @ ''kb/s'' @ newline)"

subsection \<open>The commands\<close>

definition help_lines :: "string list" where
  "help_lines =
     [''blacklist-add(ba) <ip>'', ''blacklist-remove(br) <ip>'', ''blacklist(b) <ip>'',
      ''blocklist-add(Ba) <ip>'', ''blocklist-remove(Br) <ip>'', ''blocklist(B) <ip>'',
      ''downgrade-threshold(dt) [value]'', ''downgrade-start-check(t) [value(second)]'',
      ''limit-speed(ls) [value(Mb/s)]'', ''total-bandwidth(tb) [value(Mb/s)]'',
      ''single-bandwidth(sb) [value(Mb/s)]'', ''usage(u)'']"

text \<open>A setting: with an argument it is stored when the argument is good, without one it is printed.\<close>

definition setting_cmd ::
  "(string \<Rightarrow> 'n option) \<Rightarrow> ('n \<Rightarrow> relay_settings \<Rightarrow> relay_settings) \<Rightarrow> (relay_settings \<Rightarrow> string) \<Rightarrow>
     string list \<Rightarrow> relay_settings \<Rightarrow> string \<times> relay_settings" where
  "setting_cmd parse store display args st =
     (case args of
        v # _ \<Rightarrow> ([], store_some (parse v) store st)
      | [] \<Rightarrow> (display st @ newline, st))"

definition settings_cmd ::
  "float_ops \<Rightarrow> string \<Rightarrow> string list \<Rightarrow> relay_settings \<Rightarrow> (string \<times> relay_settings) option" where
  "settings_cmd fo name args st =
     (if name = ''downgrade-threshold'' \<or> name = ''dt'' then
        Some (setting_cmd (fo_percent fo) (\<lambda>n. st_threshold_100_update (\<lambda>_. n))
          (\<lambda>st. fo_show_percent fo (st_threshold_100 st)) args st)
      else if name = ''downgrade-start-check'' \<or> name = ''t'' then
        Some (setting_cmd positive_usize (\<lambda>n. st_start_check_update (\<lambda>_. n * 1000))
          (\<lambda>st. show_usize (st_start_check st div 1000) @ ''s'') args st)
      else if name = ''limit-speed'' \<or> name = ''ls'' then
        Some (setting_cmd (fo_mega fo) (\<lambda>n. st_limit_speed_update (\<lambda>_. n))
          (\<lambda>st. fo_show_mega fo (st_limit_speed st) @ ''Mb/s'') args st)
      else if name = ''total-bandwidth'' \<or> name = ''tb'' then
        Some (setting_cmd (fo_mega fo) (\<lambda>n st. st\<lparr>st_total_bandwidth := n, st_limiter := n\<rparr>)
          (\<lambda>st. fo_show_mega fo (st_total_bandwidth st) @ ''Mb/s'') args st)
      else if name = ''single-bandwidth'' \<or> name = ''sb'' then
        Some (setting_cmd (fo_mega fo) (\<lambda>n. st_single_bandwidth_update (\<lambda>_. n))
          (\<lambda>st. fo_show_mega fo (st_single_bandwidth st) @ ''Mb/s'') args st)
      else None)"

definition relay_check_cmd ::
  "float_ops \<Rightarrow> (string set \<Rightarrow> string list) \<Rightarrow> (string \<times> usage) list \<Rightarrow> string \<Rightarrow> relay_admin \<Rightarrow>
     string \<times> relay_admin" where
  "relay_check_cmd fo order us cmd a =
     (let fds = split_on CHR '' '' (trim cmd); name = hd fds; args = tl fds
      in if name = ''h'' then (concat (map (\<lambda>l. l @ newline) help_lines), a)
         else case list_cmd order name args (ra_lists a) of
           Some (res, l) \<Rightarrow> (res, a\<lparr>ra_lists := l\<rparr>)
         | None \<Rightarrow>
             (case settings_cmd fo name args (ra_settings a) of
                Some (res, st) \<Rightarrow> (res, a\<lparr>ra_settings := st\<rparr>)
              | None \<Rightarrow>
                  (if name = ''usage'' \<or> name = ''u''
                   then (concat (map (usage_line fo) (usage_entries us)), a) else ([], a))))"

subsection \<open>Commands decide admission\<close>

definition edit_of :: "string \<Rightarrow> string \<Rightarrow> string \<Rightarrow> string \<Rightarrow> string \<Rightarrow> list_edit option" where
  "edit_of add_long add_short remove_long remove_short cmd =
     (case split_on CHR '' '' (trim cmd) of
        name # arg # _ \<Rightarrow>
          (if name = add_long \<or> name = add_short then Some (Add arg)
           else if name = remove_long \<or> name = remove_short then Some (Remove arg) else None)
      | _ \<Rightarrow> None)"

abbreviation block_edit :: "string \<Rightarrow> list_edit option" where
  "block_edit \<equiv> edit_of ''blocklist-add'' ''Ba'' ''blocklist-remove'' ''Br''"

definition run_cmds ::
  "float_ops \<Rightarrow> (string set \<Rightarrow> string list) \<Rightarrow> (string \<times> usage) list \<Rightarrow> string list \<Rightarrow> relay_admin \<Rightarrow>
     relay_admin" where
  "run_cmds fo order us cmds a = fold (\<lambda>cmd a. snd (relay_check_cmd fo order us cmd a)) cmds a"

lemma list_cmd_block:
  assumes "split_on CHR '' '' (trim cmd) = name # args"
  shows "(case list_cmd order name args l of None \<Rightarrow> blocklist l | Some (res, l') \<Rightarrow> blocklist l') =
     (case block_edit cmd of None \<Rightarrow> blocklist l | Some ed \<Rightarrow> blocklist (edit_block ed l))"
proof -
  consider (add) "name = ''blocklist-add'' \<or> name = ''Ba''"
    | (remove) "name = ''blocklist-remove'' \<or> name = ''Br''"
    | (other) "\<not> (name = ''blocklist-add'' \<or> name = ''Ba'')"
        "\<not> (name = ''blocklist-remove'' \<or> name = ''Br'')" by blast
  then show ?thesis
  proof cases
    case add
    then show ?thesis using assms
      by (elim disjE; cases args)
        (simp_all add: list_cmd_def edit_of_def on_arg_def edit_block_def edit_set_def)
  next
    case remove
    then show ?thesis using assms
      by (elim disjE; cases args)
        (simp_all add: list_cmd_def edit_of_def on_arg_def edit_block_def edit_set_def)
  next
    case other
    have "edit_of ''blocklist-add'' ''Ba'' ''blocklist-remove'' ''Br'' cmd = None"
      unfolding edit_of_def assms using other by (simp only: if_False list.case split: list.split) simp
    moreover have "(case list_cmd order name args l of None \<Rightarrow> blocklist l | Some (res, l') \<Rightarrow> blocklist l')
        = blocklist l"
      unfolding list_cmd_def if_not_P [OF other(1)] if_not_P [OF other(2)]
      by (simp only: split: if_split) simp
    ultimately show ?thesis by simp
  qed
qed

lemma relay_check_cmd_lists:
  assumes "split_on CHR '' '' (trim cmd) = name # args"
  shows "ra_lists (snd (relay_check_cmd fo order us cmd a)) =
    (case list_cmd order name args (ra_lists a) of None \<Rightarrow> ra_lists a | Some (res, l') \<Rightarrow> l')"
proof (cases "name = ''h''")
  case True
  then have "list_cmd order name args (ra_lists a) = None" by (simp add: list_cmd_def)
  with True assms show ?thesis by (simp add: relay_check_cmd_def)
next
  case False
  show ?thesis
  proof (cases "list_cmd order name args (ra_lists a)")
    case None
    with False assms show ?thesis
      by (cases "settings_cmd fo name args (ra_settings a)") (auto simp: relay_check_cmd_def)
  qed (use False assms in \<open>auto simp: relay_check_cmd_def\<close>)
qed

lemma relay_check_cmd_block:
  "blocklist (ra_lists (snd (relay_check_cmd fo order us cmd a))) =
     (case block_edit cmd of None \<Rightarrow> blocklist (ra_lists a)
      | Some ed \<Rightarrow> blocklist (edit_block ed (ra_lists a)))"
proof (cases "split_on CHR '' '' (trim cmd)")
  case (Cons name args)
  show ?thesis
    unfolding relay_check_cmd_lists [OF Cons] list_cmd_block [OF Cons, symmetric, of "ra_lists a" order]
    by (cases "list_cmd order name args (ra_lists a)") auto
qed simp

lemma edit_block_cong: "blocklist l = blocklist l' \<Longrightarrow> blocklist (edit_block ed l) = blocklist (edit_block ed l')"
  by (simp add: edit_block_def)

lemma run_cmds_block:
  "blocklist (ra_lists (run_cmds fo order us cmds a))
     = blocklist (fold edit_block (List.map_filter block_edit cmds) (ra_lists a))"
proof (induction cmds rule: rev_induct)
  case (snoc cmd cmds)
  let ?a = "run_cmds fo order us cmds a"
  have run: "run_cmds fo order us (cmds @ [cmd]) a = snd (relay_check_cmd fo order us cmd ?a)"
    by (simp add: run_cmds_def)
  show ?case
  proof (cases "block_edit cmd")
    case None
    then have "List.map_filter block_edit (cmds @ [cmd]) = List.map_filter block_edit cmds"
      by (simp only: List.map_filter_def filter_append map_append) simp
    with run None snoc relay_check_cmd_block [of fo order us cmd ?a] show ?thesis
      by (simp only: option.case)
  next
    case (Some ed)
    then have "List.map_filter block_edit (cmds @ [cmd]) = List.map_filter block_edit cmds @ [ed]"
      by (simp only: List.map_filter_def filter_append map_append) simp
    moreover have "blocklist (ra_lists (snd (relay_check_cmd fo order us cmd ?a)))
        = blocklist (edit_block ed (ra_lists ?a))"
      using relay_check_cmd_block [of fo order us cmd ?a] Some by (simp only: option.case)
    ultimately show ?thesis using run edit_block_cong [OF snoc, of ed] by simp
  qed
qed (simp add: run_cmds_def List.map_filter_def)

text \<open>
  The last command that names an address decides whether it is admitted: after any sequence of
  commands a websocket client is refused exactly when the last \<open>blocklist-add\<close> or
  \<open>blocklist-remove\<close> that names its address (or all) was an addition, or, when none does, the list
  held it before.
\<close>

theorem last_command_decides:
  "admit x (ra_lists (run_cmds fo order us cmds a)) addr True = Refused \<longleftrightarrow>
     (case find (mentions (show_ip (sa_ip (x_into_v4 x addr)))) (rev (List.map_filter block_edit cmds)) of
        None \<Rightarrow> show_ip (sa_ip (x_into_v4 x addr)) \<in> blocklist (ra_lists a)
      | Some (Add _) \<Rightarrow> True
      | Some (Remove _) \<Rightarrow> False)"
proof -
  have "admit x (ra_lists (run_cmds fo order us cmds a)) addr True = Refused \<longleftrightarrow>
      show_ip (sa_ip (x_into_v4 x addr)) \<in> blocklist (ra_lists (run_cmds fo order us cmds a))"
    by (simp add: admit_def Let_def)
  then show ?thesis unfolding run_cmds_block block_edits.last_edit_decides .
qed

subsection \<open>Numbers typed in come back\<close>

lemma start_check_cmd:
  assumes "split_on CHR '' '' (trim cmd) = ''t'' # args"
  shows "relay_check_cmd fo order us cmd a =
    (let (res, st) = setting_cmd positive_usize (\<lambda>n. st_start_check_update (\<lambda>_. n * 1000))
       (\<lambda>st. show_usize (st_start_check st div 1000) @ ''s'') args (ra_settings a)
     in (res, a\<lparr>ra_settings := st\<rparr>))"
  by (simp add: relay_check_cmd_def assms list_cmd_def settings_cmd_def)

text \<open>
  A typed setting is what is shown: after \<open>downgrade-start-check n\<close> the same command without an argument prints
  \<open>n\<close> seconds, for every positive \<open>n\<close> whose milliseconds fit the machine word.
\<close>

theorem start_check_roundtrip:
  assumes "0 < n" and "n * 1000 < 2 ^ 64"
    and "a' = snd (relay_check_cmd fo order us (''t '' @ show_nat n) a)"
  shows "fst (relay_check_cmd fo order us ''t'' a') = show_nat n @ ''s'' @ newline \<and>
    ra_lists a' = ra_lists a"
proof -
  have plain: "\<not> is_space c" if "c \<in> set (show_nat n)" for c
    using that show_nat_digits [of n] digit_plain [of c] by (auto simp: list_all_iff)
  have "last (''t '' @ show_nat n) \<in> set (show_nat n)" by (simp add: last_in_set del: list.set)
  then have "\<not> is_space (last (''t '' @ show_nat n))" by (rule plain)
  then have trim: "trim (''t '' @ show_nat n) = ''t'' @ CHR '' '' # show_nat n"
    by (subst trim_ends) (simp_all add: is_space_def)
  have "CHR '' '' \<notin> set (show_nat n)" using plain [of "CHR '' ''"] by (auto simp: is_space_def)
  then have split: "split_on CHR '' '' (trim (''t '' @ show_nat n)) = [''t'', show_nat n]"
    unfolding trim by (subst split_on_append) (simp_all add: split_on_free)
  have t: "split_on CHR '' '' (trim ''t'') = [''t'']" by (simp add: trim_def is_space_def)
  have n: "n < 2 ^ 64" using assms(1,2) by simp
  have pos: "positive_usize (show_nat n) = Some (word_of_nat n)"
    using assms(1) n by (simp add: positive_usize_def parse_show_nat word_gt_0 word_of_nat_eq_0_iff)
      (auto dest: dvd_imp_le)
  have u: "unat (word_of_nat n :: usize) = n" using n by (simp add: unat_of_nat take_bit_nat_eq_self)
  have "unat (word_of_nat n * 1000 :: usize) = n * 1000"
    using assms(2) u by (simp add: unat_word_ariths)
  then have "unat (word_of_nat n * 1000 div 1000 :: usize) = n" by (simp add: unat_div)
  then have show_n: "show_usize (word_of_nat n * 1000 div 1000) = show_nat n" by (simp add: show_usize_def)
  have "a' = a\<lparr>ra_settings := (ra_settings a)\<lparr>st_start_check := word_of_nat n * 1000\<rparr>\<rparr>"
    unfolding assms(3) start_check_cmd [OF split]
    using pos by (simp add: setting_cmd_def store_some_def)
  then show ?thesis
    using show_n by (simp add: start_check_cmd [OF t] setting_cmd_def)
qed

definition sample_floats :: float_ops where
  "sample_floats = \<lparr>fo_percent = \<lambda>_. None, fo_mega = \<lambda>_. None, fo_show_percent = show_usize,
     fo_show_mega = show_usize, fo_show_mb = show_usize\<rparr>"

lemma start_check_roundtrip_witness:
  "fst (relay_check_cmd sample_floats (\<lambda>_. []) [] ''t''
      (snd (relay_check_cmd sample_floats (\<lambda>_. []) [] (''t '' @ show_nat 90)
        \<lparr>ra_lists = \<lparr>blacklist = {}, blocklist = {}\<rparr>, ra_settings = default_settings\<rparr>)))
    = show_nat 90 @ ''s'' @ newline"
  by (rule start_check_roundtrip [of 90 _ sample_floats "\<lambda>_. []" "[]"
        "\<lparr>ra_lists = \<lparr>blacklist = {}, blocklist = {}\<rparr>, ra_settings = default_settings\<rparr>",
        OF _ _ refl, THEN conjunct1]) simp_all

text \<open>
  The usage report names exactly the relays that have been measured, each once and with its figures
  unchanged, the largest total first, and equal totals in the order the table was read.
\<close>

theorem usage_report_sorted:
  "mset (usage_entries us) = filter_mset (\<lambda>u. fst (snd u) \<noteq> 0) (mset us) \<and>
   sorted_wrt (\<lambda>u v. fst (snd (snd v)) \<le> fst (snd (snd u))) (usage_entries us) \<and>
   (\<forall>t. filter (\<lambda>u. fst (snd (snd u)) = t) (usage_entries us) =
      filter (\<lambda>u. fst (snd u) \<noteq> 0 \<and> fst (snd (snd u)) = t) us)"
proof (intro conjI allI)
  show "mset (usage_entries us) = filter_mset (\<lambda>u. fst (snd u) \<noteq> 0) (mset us)"
    by (simp add: usage_entries_def mset_filter)
  have "sorted_wrt (\<lambda>u v. - uint (fst (snd (snd u))) \<le> - uint (fst (snd (snd v))))
      (sort_key (\<lambda>u. - uint (fst (snd (snd u)))) us)"
    using sorted_sort_key [of "\<lambda>u. - uint (fst (snd (snd u)))" us] by (simp add: sorted_wrt_map)
  then have "sorted_wrt (\<lambda>u v. fst (snd (snd v)) \<le> fst (snd (snd u)))
      (sort_key (\<lambda>u. - uint (fst (snd (snd u)))) us)"
    by (rule sorted_wrt_mono_rel [rotated]) (simp add: word_le_def)
  then show "sorted_wrt (\<lambda>u v. fst (snd (snd v)) \<le> fst (snd (snd u))) (usage_entries us)"
    unfolding usage_entries_def by (rule sorted_wrt_filter)
  fix t :: usize
  have "filter (\<lambda>u. - uint (fst (snd (snd u))) = - uint t) (sort_key (\<lambda>u. - uint (fst (snd (snd u)))) us)
      = filter (\<lambda>u. - uint (fst (snd (snd u))) = - uint t) us"
    by (rule sort_key_stable)
  then have "filter (\<lambda>u. fst (snd (snd u)) = t) (sort_key (\<lambda>u. - uint (fst (snd (snd u)))) us)
      = filter (\<lambda>u. fst (snd (snd u)) = t) us"
    by (simp add: word_uint_eq_iff)
  then have "filter (\<lambda>u. fst (snd u) \<noteq> 0) (filter (\<lambda>u. fst (snd (snd u)) = t)
       (sort_key (\<lambda>u. - uint (fst (snd (snd u)))) us))
      = filter (\<lambda>u. fst (snd u) \<noteq> 0) (filter (\<lambda>u. fst (snd (snd u)) = t) us)"
    by simp
  then show "filter (\<lambda>u. fst (snd (snd u)) = t) (usage_entries us) =
      filter (\<lambda>u. fst (snd u) \<noteq> 0 \<and> fst (snd (snd u)) = t) us"
    by (simp add: usage_entries_def conj_commute)
qed

end
