(* ===== verification/Relay_Pairing.thy ===== *)
theory Relay_Pairing
  imports Systems Relay_Admin Slots Handshake
begin

text \<open>
  Pairing in \<open>src/relay_server.rs\<close>. Every accepted connection runs \<open>make_pair_\<close> as its own task:
  it reads one \<open>RequestRelay\<close>, looks for a stream waiting under the same \<open>uuid\<close> in \<open>PEERS\<close>, and either relays with it or
  waits there itself for 30 s. The lock is taken anew for each access, so the removal, the
  insertion and the removal at the end of the wait are separate steps, and the tasks interleave between them.
\<close>

record relay_stream =
  rs_task :: nat
  rs_is_ws :: bool
  rs_raw :: bool

text \<open>
  Where a task is: before its first message, after a lookup that found nothing, asleep after it has put its stream into
  \<open>PEERS\<close>, relaying with a partner, or finished. The \<open>uuid\<close> is the one of its request.
\<close>

datatype phase =
    Reading socket_addr relay_stream
  | Missed string relay_stream
  | Sleeping string
  | Relaying string string relay_stream relay_stream
  | Finished

text \<open>
  Two history variables: \<open>rl_heard\<close>, the first frame each task read from its stream, recorded before anything is made of it, and
  \<open>rl_asked\<close>, the \<open>uuid\<close> it looked up.
\<close>

record relay_state =
  rl_peers :: "string \<rightharpoonup> relay_stream"
  rl_heard :: "nat \<rightharpoonup> bytes"
  rl_asked :: "nat \<rightharpoonup> string"
  rl_usage :: "string \<rightharpoonup> usage"
  rl_tasks :: "nat \<rightharpoonup> phase"
  rl_next :: nat

definition put_peer :: "string \<Rightarrow> relay_stream \<Rightarrow> relay_state \<Rightarrow> relay_state" where
  "put_peer uuid st s = s\<lparr>rl_peers := (rl_peers s)(uuid \<mapsto> st)\<rparr>"

definition remove_peer :: "string \<Rightarrow> relay_state \<Rightarrow> relay_stream option \<times> relay_state" where
  "remove_peer uuid s = (rl_peers s uuid, s\<lparr>rl_peers := (rl_peers s)(uuid := None)\<rparr>)"

interpretation peers_table: one_shot put_peer remove_peer rl_peers
  by unfold_locales (auto simp: put_peer_def remove_peer_def)

definition set_task :: "nat \<Rightarrow> phase \<Rightarrow> relay_state \<Rightarrow> relay_state" where
  "set_task n ph s = s\<lparr>rl_tasks := (rl_tasks s)(n \<mapsto> ph)\<rparr>"

text \<open>The key of a pair in \<open>USAGE\<close>: \<open>ip:port\<close> of the second stream.\<close>

definition usage_id :: "socket_addr \<Rightarrow> string" where
  "usage_id addr = show_ip (sa_ip addr) @ CHR '':'' # show_nat (unat (sa_port addr))"

text \<open>\<open>set_raw\<close> on both when neither is a websocket.\<close>

definition raw_pair :: "relay_stream \<Rightarrow> relay_stream \<Rightarrow> relay_stream \<times> relay_stream" where
  "raw_pair stream peer =
     (if \<not> rs_is_ws stream \<and> \<not> rs_is_ws peer
      then (stream\<lparr>rs_raw := True\<rparr>, peer\<lparr>rs_raw := True\<rparr>) else (stream, peer))"

text \<open>The first message of a task; \<open>None\<close> is a timeout, an error or the end of the stream.\<close>

definition first_message ::
  "externals \<Rightarrow> string \<Rightarrow> nat \<Rightarrow> socket_addr \<Rightarrow> relay_stream \<Rightarrow> bytes option \<Rightarrow> relay_state \<Rightarrow> relay_state" where
  "first_message x key n addr stream frame s =
     (case frame of
        None \<Rightarrow> set_task n Finished s
      | Some bs \<Rightarrow>
          (case x_decode x bs of
             Some (Some (RequestRelay rf)) \<Rightarrow>
               (if key \<noteq> [] \<and> rf_licence_key rf \<noteq> key then set_task n Finished s
                else if rf_uuid rf = [] then set_task n Finished s
                else (case remove_peer (rf_uuid rf) (s\<lparr>rl_asked := (rl_asked s)(n \<mapsto> rf_uuid rf)\<rparr>) of
                        (Some peer, s1) \<Rightarrow>
                          (let (stream', peer') = raw_pair stream peer; uid = usage_id addr
                           in set_task n (Relaying (rf_uuid rf) uid stream' peer')
                                (s1\<lparr>rl_usage := (rl_usage s1)(uid \<mapsto> (0, 0, 0, 0))\<rparr>))
                      | (None, s1) \<Rightarrow> set_task n (Missed (rf_uuid rf) stream) s1))
           | _ \<Rightarrow> set_task n Finished s))"

text \<open>
  The address a stream goes by (\<open>make_pair\<close>): for a websocket the one its upgrade request's header names, once the
  upgrade has succeeded; a failed upgrade starts no task.
\<close>

definition pair_addr :: "(string \<Rightarrow> string option option) \<Rightarrow> bool \<Rightarrow> socket_addr \<Rightarrow> socket_addr" where
  "pair_addr hdr ws addr = (if ws then ws_addr hdr addr else addr)"

lemma pair_addr_no_header: "pair_addr (\<lambda>_. None) ws addr = addr"
  by (simp add: pair_addr_def ws_addr_def real_ip_def)

inductive relay_step :: "externals \<Rightarrow> string \<Rightarrow> relay_state \<Rightarrow> relay_state \<Rightarrow> bool"
  for x :: externals and key :: string where
  Arrive: "n = rl_next s \<Longrightarrow> admit x l addr ws = Client \<Longrightarrow>
    relay_step x key s (set_task n (Reading (pair_addr hdr ws addr) \<lparr>rs_task = n, rs_is_ws = ws, rs_raw = False\<rparr>)
      (s\<lparr>rl_next := Suc n\<rparr>))"
| First: "rl_tasks s n = Some (Reading addr st) \<Longrightarrow>
    relay_step x key s (first_message x key n addr st frame (s\<lparr>rl_heard := (rl_heard s)(n := frame)\<rparr>))"
| Park: "rl_tasks s n = Some (Missed uuid st) \<Longrightarrow>
    relay_step x key s (set_task n (Sleeping uuid) (put_peer uuid st s))"
| Wake: "rl_tasks s n = Some (Sleeping uuid) \<Longrightarrow>
    relay_step x key s (set_task n Finished (snd (remove_peer uuid s)))"
| Report: "rl_tasks s n = Some (Relaying uuid uid st peer) \<Longrightarrow>
    relay_step x key s (s\<lparr>rl_usage := (rl_usage s)(uid \<mapsto> u)\<rparr>)"
| Close: "rl_tasks s n = Some (Relaying uuid uid st peer) \<Longrightarrow>
    relay_step x key s (set_task n Finished (s\<lparr>rl_usage := (rl_usage s)(uid := None)\<rparr>))"

definition relay_init :: relay_state where
  "relay_init =
     \<lparr>rl_peers = (\<lambda>_. None), rl_heard = (\<lambda>_. None), rl_asked = (\<lambda>_. None), rl_usage = (\<lambda>_. None), rl_tasks = (\<lambda>_. None),
      rl_next = 0\<rparr>"

inductive relay_reaches :: "externals \<Rightarrow> string \<Rightarrow> relay_state \<Rightarrow> bool"
  for x :: externals and key :: string where
  Start: "relay_reaches x key relay_init"
| Step: "relay_reaches x key s \<Longrightarrow> relay_step x key s s' \<Longrightarrow> relay_reaches x key s'"

text \<open>What a first frame must be: a request for the \<open>uuid\<close> that shows the relay's key, if it has one.\<close>

definition asks_for :: "externals \<Rightarrow> string \<Rightarrow> string \<Rightarrow> bytes \<Rightarrow> bool" where
  "asks_for x key uuid bs \<longleftrightarrow> uuid \<noteq> [] \<and>
     (\<exists>rf. x_decode x bs = Some (Some (RequestRelay rf)) \<and> rf_uuid rf = uuid \<and> (key = [] \<or> rf_licence_key rf = key))"

lemma first_message_asked:
  "rl_asked (first_message x key n addr st frame s) = rl_asked s \<or>
     (\<exists>bs u. frame = Some bs \<and> asks_for x key u bs \<and> rl_asked (first_message x key n addr st frame s) = (rl_asked s)(n \<mapsto> u))"
  by (auto simp: first_message_def asks_for_def remove_peer_def set_task_def Let_def split: option.split rmsg.split prod.split)

lemma first_message_heard [simp]: "rl_heard (first_message x key n addr st frame s) = rl_heard s"
  by (simp add: first_message_def remove_peer_def set_task_def Let_def split: option.split rmsg.split prod.split)

text \<open>The outcomes of a first message: dropped, unmatched, or paired.\<close>

lemma first_message_dropped:
  assumes "\<nexists>bs rf. frame = Some bs \<and> x_decode x bs = Some (Some (RequestRelay rf)) \<and>
    (key = [] \<or> rf_licence_key rf = key) \<and> rf_uuid rf \<noteq> []"
  shows "first_message x key n addr st frame s = set_task n Finished s"
proof (cases "\<exists>bs m. frame = Some bs \<and> x_decode x bs = Some (Some m)")
  case True
  then obtain bs m where "frame = Some bs" "x_decode x bs = Some (Some m)" by blast
  with assms show ?thesis by (cases m) (auto simp: first_message_def)
qed (auto simp: first_message_def split: option.split)

lemma first_message_cases:
  obtains (dropped) "first_message x key n addr st frame s = set_task n Finished s"
  | (missed) uuid s1 where "s1 = s\<lparr>rl_asked := (rl_asked s)(n \<mapsto> uuid)\<rparr>" "rl_peers s uuid = None"
      "first_message x key n addr st frame s
         = set_task n (Missed uuid st) (s1\<lparr>rl_peers := (rl_peers s1)(uuid := None)\<rparr>)"
  | (paired) uuid peer st' peer' s1 where "s1 = s\<lparr>rl_asked := (rl_asked s)(n \<mapsto> uuid)\<rparr>"
      "rl_peers s uuid = Some peer" "raw_pair st peer = (st', peer')"
      "first_message x key n addr st frame s
         = set_task n (Relaying uuid (usage_id addr) st' peer')
             (s1\<lparr>rl_peers := (rl_peers s1)(uuid := None),
                 rl_usage := (rl_usage s1)(usage_id addr \<mapsto> (0, 0, 0, 0))\<rparr>)"
proof (cases "\<exists>bs rf. frame = Some bs \<and> x_decode x bs = Some (Some (RequestRelay rf)) \<and>
    (key = [] \<or> rf_licence_key rf = key) \<and> rf_uuid rf \<noteq> []")
  case True
  then obtain bs rf where rf: "frame = Some bs" "x_decode x bs = Some (Some (RequestRelay rf))"
    "\<not> (key \<noteq> [] \<and> rf_licence_key rf \<noteq> key)" "rf_uuid rf \<noteq> []" by blast
  note fm = first_message_def [of x key n addr st frame s, unfolded rf(1) option.case rf(2) rmsg.case
      if_not_P [OF rf(3)] if_not_P [OF rf(4)]]
  show ?thesis
  proof (cases "rl_peers s (rf_uuid rf)")
    case None
    with rf(1) missed [OF refl, of "rf_uuid rf"] show ?thesis by (simp add: fm remove_peer_def)
  next
    case (Some peer)
    obtain st' peer' where "raw_pair st peer = (st', peer')" by fastforce
    with rf(1) Some paired [OF refl Some this] show ?thesis
      by (simp add: fm remove_peer_def Let_def)
  qed
qed (intro dropped first_message_dropped)

subsection \<open>Who relays with whom\<close>

text \<open>
  Every waiting stream belongs to a sleeping task under the \<open>uuid\<close> it asked for; the two
  ends of a relay asked for the same \<open>uuid\<close>, the first one's task is asleep or
  finished, and no stream is the partner of two tasks.
\<close>

definition pair_ok :: "relay_state \<Rightarrow> nat \<Rightarrow> string \<Rightarrow> relay_stream \<Rightarrow> relay_stream \<Rightarrow> bool" where
  "pair_ok s n u st peer \<longleftrightarrow>
     rs_task st = n \<and> rl_asked s n = Some u \<and> rl_asked s (rs_task peer) = Some u \<and>
     rl_tasks s (rs_task peer) \<in> {Some (Sleeping u), Some Finished} \<and>
     rs_raw st = (\<not> rs_is_ws st \<and> \<not> rs_is_ws peer) \<and> rs_raw peer = rs_raw st"

definition phase_ok :: "relay_state \<Rightarrow> nat \<Rightarrow> phase \<Rightarrow> bool" where
  "phase_ok s n ph \<longleftrightarrow> n < rl_next s \<and>
     (case ph of
        Reading _ st \<Rightarrow> rs_task st = n \<and> rl_asked s n = None \<and> \<not> rs_raw st
      | Missed u st \<Rightarrow> rs_task st = n \<and> rl_asked s n = Some u \<and> \<not> rs_raw st
      | Sleeping u \<Rightarrow> rl_asked s n = Some u
      | Relaying u uid st peer \<Rightarrow> pair_ok s n u st peer
      | Finished \<Rightarrow> True)"

definition waiting_ok :: "relay_state \<Rightarrow> bool" where
  "waiting_ok s \<longleftrightarrow>
     (\<forall>u st. rl_peers s u = Some st \<longrightarrow>
        rl_tasks s (rs_task st) = Some (Sleeping u) \<and> rl_asked s (rs_task st) = Some u \<and> \<not> rs_raw st \<and>
        (\<forall>n v uid st' peer. rl_tasks s n = Some (Relaying v uid st' peer) \<longrightarrow> rs_task peer \<noteq> rs_task st))"

definition exclusive :: "relay_state \<Rightarrow> bool" where
  "exclusive s \<longleftrightarrow>
     (\<forall>n m u v uid vid st st' p p'. rl_tasks s n = Some (Relaying u uid st p) \<longrightarrow>
        rl_tasks s m = Some (Relaying v vid st' p') \<longrightarrow> rs_task p = rs_task p' \<longrightarrow> n = m)"

definition relay_inv :: "relay_state \<Rightarrow> bool" where
  "relay_inv s \<longleftrightarrow> (\<forall>n ph. rl_tasks s n = Some ph \<longrightarrow> phase_ok s n ph) \<and> waiting_ok s \<and> exclusive s \<and>
     (\<forall>n. rl_next s \<le> n \<longrightarrow> rl_asked s n = None)"

lemma relay_inv_heard [simp]: "relay_inv (s\<lparr>rl_heard := h\<rparr>) = relay_inv s"
  by (simp add: relay_inv_def waiting_ok_def exclusive_def phase_ok_def pair_ok_def cong: phase.case_cong)

lemma relay_inv_task: "relay_inv s \<Longrightarrow> rl_tasks s n = Some ph \<Longrightarrow> phase_ok s n ph"
  by (simp add: relay_inv_def)

lemma relay_inv_waiting:
  "relay_inv s \<Longrightarrow> rl_peers s u = Some st \<Longrightarrow>
     rl_tasks s (rs_task st) = Some (Sleeping u) \<and> rl_asked s (rs_task st) = Some u \<and> \<not> rs_raw st"
  "relay_inv s \<Longrightarrow> rl_peers s u = Some st \<Longrightarrow> rl_tasks s n = Some (Relaying v uid st' peer) \<Longrightarrow>
     rs_task peer \<noteq> rs_task st"
  by (auto simp: relay_inv_def waiting_ok_def)

lemma relay_inv_exclusive:
  "relay_inv s \<Longrightarrow> rl_tasks s n = Some (Relaying u uid st p) \<Longrightarrow>
     rl_tasks s m = Some (Relaying v vid st' p') \<Longrightarrow> rs_task p = rs_task p' \<Longrightarrow> n = m"
  unfolding relay_inv_def exclusive_def by blast

text \<open>
  One lemma carries all steps: a step changes the phase of one task and may take entries out of \<open>PEERS\<close>,
  note what the task asked for, or do what its new phase accounts for.
\<close>

lemma phase_ok_keep:
  assumes "phase_ok s m ph" and "m \<noteq> n" and "rl_next s \<le> rl_next s'"
    and "rl_asked s' = rl_asked s \<or> (rl_asked s n = None \<and> (\<exists>u. rl_asked s' = (rl_asked s)(n \<mapsto> u)))"
    and "\<And>q. q \<noteq> n \<Longrightarrow> rl_tasks s' q = rl_tasks s q"
    and "\<And>u. rl_tasks s n = Some (Sleeping u) \<or> rl_tasks s n = Some Finished \<Longrightarrow>
      rl_tasks s' n \<in> {Some (Sleeping u), Some Finished}"
  shows "phase_ok s' m ph"
proof -
  have asked: "rl_asked s q = Some u \<Longrightarrow> rl_asked s' q = Some u" for q u using assms(4) by auto
  have same: "rl_asked s' m = rl_asked s m" using assms(2,4) by auto
  have partner: "rl_tasks s q \<in> {Some (Sleeping u), Some Finished} \<Longrightarrow>
      rl_tasks s' q \<in> {Some (Sleeping u), Some Finished}" for q u
    using assms(5,6) by (cases "q = n") auto
  show ?thesis
    using assms(1,3) asked same partner
    by (cases ph) (auto simp: phase_ok_def pair_ok_def)
qed

lemma exclusive_keep:
  assumes "exclusive s" and "\<And>q. q \<noteq> n \<Longrightarrow> rl_tasks s' q = rl_tasks s q"
    and "\<And>u uid st p. rl_tasks s' n \<noteq> Some (Relaying u uid st p)"
  shows "exclusive s'"
  unfolding exclusive_def
proof (intro allI impI)
  fix q m u v uid vid st st' p p'
  assume q: "rl_tasks s' q = Some (Relaying u uid st p)" and m: "rl_tasks s' m = Some (Relaying v vid st' p')"
    and eq: "rs_task p = rs_task p'"
  have "q \<noteq> n" "m \<noteq> n" using q m assms(3) by auto
  then have "rl_tasks s q = Some (Relaying u uid st p)" "rl_tasks s m = Some (Relaying v vid st' p')"
    using q m assms(2) by auto
  then show "q = m" using assms(1) eq unfolding exclusive_def by blast
qed

lemma waiting_keep:
  assumes inv: "relay_inv s" and tasks: "\<And>q. q \<noteq> n \<Longrightarrow> rl_tasks s' q = rl_tasks s q"
    and asked: "\<And>q u. rl_asked s q = Some u \<Longrightarrow> rl_asked s' q = Some u"
    and peers: "\<And>u st. rl_peers s' u = Some st \<Longrightarrow> rl_peers s u = Some st \<and> rs_task st \<noteq> n \<or>
      rs_task st = n \<and> rl_tasks s' n = Some (Sleeping u) \<and> rl_asked s' n = Some u \<and> \<not> rs_raw st \<and>
      (\<exists>v r. rl_tasks s n = Some (Missed v r))"
    and new: "\<And>v uid st' p u st. rl_tasks s' n = Some (Relaying v uid st' p) \<Longrightarrow> rl_peers s' u = Some st \<Longrightarrow>
      rs_task p \<noteq> rs_task st"
  shows "waiting_ok s'"
  unfolding waiting_ok_def
proof (intro allI impI)
  fix u st assume at: "rl_peers s' u = Some st"
  have others: "rs_task p \<noteq> rs_task st" if r: "rl_tasks s' m = Some (Relaying v uid st' p)" for m v uid st' p
  proof (cases "m = n")
    case True
    then show ?thesis using new [of v uid st' p u st] r at by simp
  next
    case False
    then have "rl_tasks s m = Some (Relaying v uid st' p)" using tasks r by simp
    with relay_inv_waiting(2) [OF inv] relay_inv_task [OF inv] peers [OF at]
    show ?thesis by (fastforce simp: phase_ok_def pair_ok_def)
  qed
  from peers [OF at] show "rl_tasks s' (rs_task st) = Some (Sleeping u) \<and>
      rl_asked s' (rs_task st) = Some u \<and> \<not> rs_raw st \<and>
      (\<forall>m v uid st' p. rl_tasks s' m = Some (Relaying v uid st' p) \<longrightarrow> rs_task p \<noteq> rs_task st)"
    using relay_inv_waiting(1) [OF inv] tasks asked others by auto
qed

lemma relay_invI:
  assumes inv: "relay_inv s" and tasks: "\<And>q. q \<noteq> n \<Longrightarrow> rl_tasks s' q = rl_tasks s q"
    and grow: "rl_next s \<le> rl_next s'"
    and asked: "rl_asked s' = rl_asked s \<or>
      (rl_asked s n = None \<and> n < rl_next s \<and> (\<exists>u. rl_asked s' = (rl_asked s)(n \<mapsto> u)))"
    and move: "\<And>u. rl_tasks s n = Some (Sleeping u) \<or> rl_tasks s n = Some Finished \<Longrightarrow>
      rl_tasks s' n \<in> {Some (Sleeping u), Some Finished}"
    and new: "\<And>ph. rl_tasks s' n = Some ph \<Longrightarrow> phase_ok s' n ph"
    and "waiting_ok s'" and "exclusive s'"
  shows "relay_inv s'"
proof -
  have "phase_ok s' q ph" if "rl_tasks s' q = Some ph" for q ph
  proof (cases "q = n")
    case False
    then have "phase_ok s q ph" using relay_inv_task [OF inv] tasks that by simp
    from phase_ok_keep [OF this False grow _ tasks move] asked show ?thesis by blast
  qed (use new that in simp)
  moreover have "rl_next s' \<le> q \<Longrightarrow> rl_asked s' q = None" for q
    using asked inv grow by (auto simp: relay_inv_def)
  ultimately show ?thesis using assms(7,8) by (simp add: relay_inv_def)
qed

lemma set_task_fields [simp]:
  "rl_tasks (set_task n ph s) = (rl_tasks s)(n \<mapsto> ph)" "rl_peers (set_task n ph s) = rl_peers s"
  "rl_asked (set_task n ph s) = rl_asked s" "rl_next (set_task n ph s) = rl_next s"
  "rl_usage (set_task n ph s) = rl_usage s"
  by (simp_all add: set_task_def)

lemma raw_pair_fields:
  "raw_pair st p = (st', p') \<Longrightarrow> \<not> rs_raw st \<Longrightarrow> \<not> rs_raw p \<Longrightarrow>
     rs_task st' = rs_task st \<and> rs_task p' = rs_task p \<and>
     rs_raw st' = (\<not> rs_is_ws st' \<and> \<not> rs_is_ws p') \<and> rs_raw p' = rs_raw st'"
  by (auto simp: raw_pair_def split: if_splits)

text \<open>A step that ends its task.\<close>

lemma relay_inv_finish:
  assumes inv: "relay_inv s" and n: "rl_tasks s n \<noteq> None"
    and s': "rl_tasks s' = (rl_tasks s)(n \<mapsto> Finished)" "rl_next s' = rl_next s" "rl_asked s' = rl_asked s"
    and peers: "\<And>u st. rl_peers s' u = Some st \<Longrightarrow> rl_peers s u = Some st \<and> rs_task st \<noteq> n"
  shows "relay_inv s'"
proof (rule relay_invI [OF inv, where n = n])
  have "n < rl_next s" using relay_inv_task [OF inv] n by (auto simp: phase_ok_def)
  then show "\<And>ph. rl_tasks s' n = Some ph \<Longrightarrow> phase_ok s' n ph"
    using s' by (simp add: phase_ok_def)
  show "waiting_ok s'"
    by (rule waiting_keep [OF inv, where n = n]) (use s' peers in auto)
  show "exclusive s'"
    by (rule exclusive_keep [where n = n and s = s]) (use inv s' in \<open>auto simp: relay_inv_def\<close>)
qed (use s' in auto)

lemma relay_inv_paired:
  assumes inv: "relay_inv s" and n: "rl_tasks s n = Some (Reading addr st)" and peer: "rl_peers s uuid = Some peer"
    and raw: "raw_pair st peer = (st', peer')"
    and s': "rl_tasks s' = (rl_tasks s)(n \<mapsto> Relaying uuid uid st' peer')" "rl_asked s' = (rl_asked s)(n \<mapsto> uuid)"
      "rl_next s' = rl_next s" "rl_peers s' = (rl_peers s)(uuid := None)"
  shows "relay_inv s'"
proof (rule relay_invI [OF inv, where n = n])
  have rd: "n < rl_next s" "rs_task st = n" "\<not> rs_raw st" "rl_asked s n = None"
    using relay_inv_task [OF inv n] by (auto simp: phase_ok_def)
  have waiting: "rs_task w \<noteq> n" if "rl_peers s u = Some w" for u w
    using relay_inv_waiting(1) [OF inv that] n by auto
  note w = relay_inv_waiting(1) [OF inv peer] and pn = waiting [OF peer]
  have fields: "rs_task st' = n" "rs_task peer' = rs_task peer"
    "rs_raw st' = (\<not> rs_is_ws st' \<and> \<not> rs_is_ws peer')" "rs_raw peer' = rs_raw st'"
    using raw_pair_fields [OF raw rd(3)] w rd(2) by auto
  show "\<And>ph. rl_tasks s' n = Some ph \<Longrightarrow> phase_ok s' n ph"
    using s' fields w pn rd(1) by (auto simp: phase_ok_def pair_ok_def)
  have other: "rs_task q \<noteq> rs_task peer" if "rl_peers s u = Some q" "u \<noteq> uuid" for u q
    using relay_inv_waiting(1) [OF inv that(1)] w that(2) by auto
  show "waiting_ok s'"
    by (rule waiting_keep [OF inv, where n = n]) (use s' waiting rd fields in \<open>auto split: if_splits dest: other\<close>)
  have free: "rs_task p \<noteq> rs_task peer" if "rl_tasks s m = Some (Relaying v vid q p)" for m v vid q p
    by (rule relay_inv_waiting(2) [OF inv peer that])
  show "exclusive s'"
    using relay_inv_exclusive [OF inv] fields(2) unfolding exclusive_def s' by (auto split: if_splits dest: free)
qed (use s' n relay_inv_task [OF inv n] in \<open>auto simp: phase_ok_def\<close>)

lemma first_message_inv:
  assumes inv: "relay_inv s" and n: "rl_tasks s n = Some (Reading addr st)"
  shows "relay_inv (first_message x key n addr st frame s)"
proof -
  have rd: "n < rl_next s" "rs_task st = n" "rl_asked s n = None" "\<not> rs_raw st"
    using relay_inv_task [OF inv n] by (auto simp: phase_ok_def)
  have waiting: "rs_task w \<noteq> n" if "rl_peers s u = Some w" for u w
    using relay_inv_waiting(1) [OF inv that] n by auto
  show ?thesis
  proof (cases rule: first_message_cases [of x key n addr st frame s])
    case dropped
    then show ?thesis
      by (simp, intro relay_inv_finish [OF inv, where n = n]) (use n waiting in auto)
  next
    case (missed uuid s1)
    show ?thesis
    proof (rule relay_invI [OF inv, where n = n])
      show "waiting_ok (first_message x key n addr st frame s)"
        by (rule waiting_keep [OF inv, where n = n])
          (use missed waiting rd in \<open>auto split: if_splits\<close>)
      show "exclusive (first_message x key n addr st frame s)"
        by (rule exclusive_keep [where n = n and s = s])
          (use inv missed in \<open>auto simp: relay_inv_def\<close>)
    qed (use missed rd n in \<open>auto simp: phase_ok_def\<close>)
  next
    case (paired uuid peer st' peer' s1)
    show ?thesis by (rule relay_inv_paired [OF inv n paired(2,3)]) (use paired(1,4) in simp_all)
  qed
qed

lemma relay_inv_arrive:
  assumes inv: "relay_inv s" and n: "n = rl_next s" and st: "rs_task st = n" "\<not> rs_raw st"
  shows "relay_inv (set_task n (Reading addr st) (s\<lparr>rl_next := Suc n\<rparr>))" (is "relay_inv ?s")
proof -
  have free: "rl_tasks s n = None"
    using relay_inv_task [OF inv, of n] n by (cases "rl_tasks s n") (auto simp: phase_ok_def)
  have asked: "rl_asked s n = None" using n inv by (simp add: relay_inv_def)
  show ?thesis
  proof (rule relay_invI [OF inv, where n = n])
    show "waiting_ok ?s"
      by (rule waiting_keep [OF inv, where n = n]) (use free relay_inv_waiting(1) [OF inv] in auto)
    show "exclusive ?s"
      by (rule exclusive_keep [where n = n and s = s]) (use inv in \<open>auto simp: relay_inv_def\<close>)
  qed (use n free asked st in \<open>auto simp: phase_ok_def\<close>)
qed

lemma relay_inv_park:
  assumes inv: "relay_inv s" and n: "rl_tasks s n = Some (Missed uuid st)"
  shows "relay_inv (set_task n (Sleeping uuid) (put_peer uuid st s))" (is "relay_inv ?s")
proof (rule relay_invI [OF inv, where n = n])
  have m: "n < rl_next s" "rs_task st = n" "rl_asked s n = Some uuid" "\<not> rs_raw st"
    using relay_inv_task [OF inv n] by (auto simp: phase_ok_def)
  have "rs_task w \<noteq> n" if "rl_peers s u = Some w" for u w
    using relay_inv_waiting(1) [OF inv that] n by auto
  then show "waiting_ok ?s"
    by (intro waiting_keep [OF inv, where n = n]) (use m n in \<open>auto simp: put_peer_def split: if_splits\<close>)
  show "exclusive ?s"
    by (rule exclusive_keep [where n = n and s = s]) (use inv in \<open>auto simp: relay_inv_def put_peer_def\<close>)
  show "\<And>ph. rl_tasks ?s n = Some ph \<Longrightarrow> phase_ok ?s n ph" using m by (auto simp: phase_ok_def put_peer_def)
qed (use relay_inv_task [OF inv n] n in \<open>auto simp: phase_ok_def put_peer_def\<close>)

lemma relay_step_inv: "relay_step x key s s' \<Longrightarrow> relay_inv s \<Longrightarrow> relay_inv s'"
proof (induction rule: relay_step.induct)
  case (Arrive n s l addr ws hdr)
  then show ?case by (intro relay_inv_arrive) simp_all
next
  case (First s n addr st frame)
  then show ?case by (intro first_message_inv) simp_all
next
  case (Park s n uuid st)
  then show ?case by (intro relay_inv_park)
next
  case (Wake s n uuid)
  have asked: "rl_asked s n = Some uuid" using relay_inv_task [OF Wake(2,1)] by (simp add: phase_ok_def)
  show ?case
    by (rule relay_inv_finish [OF Wake(2), where n = n])
      (use Wake(1) relay_inv_waiting(1) [OF Wake(2)] asked in \<open>auto simp: remove_peer_def split: if_splits\<close>)
next
  case (Report s n uuid uid st peer u)
  then show ?case
    by (simp add: relay_inv_def waiting_ok_def exclusive_def phase_ok_def pair_ok_def cong: phase.case_cong)
next
  case (Close s n uuid uid st peer)
  show ?case
    by (rule relay_inv_finish [OF Close(2), where n = n])
      (use Close(1) relay_inv_waiting(1) [OF Close(2)] in auto)
qed

lemma relay_reaches_inv: "relay_reaches x key s \<Longrightarrow> relay_inv s"
proof (induction rule: relay_reaches.induct)
  case Start
  show ?case by (simp add: relay_inv_def relay_init_def waiting_ok_def exclusive_def)
qed (rule relay_step_inv)

text \<open>Whatever a task looked up, the frame it read asked for, with the right key.\<close>

definition asked_heard :: "externals \<Rightarrow> string \<Rightarrow> relay_state \<Rightarrow> bool" where
  "asked_heard x key s \<longleftrightarrow>
     (\<forall>n u. rl_asked s n = Some u \<longrightarrow> (\<exists>bs. rl_heard s n = Some bs \<and> asks_for x key u bs))"

lemma relay_step_heard:
  assumes "relay_step x key s s'" and "relay_inv s" and "asked_heard x key s"
  shows "asked_heard x key s'"
  using assms
proof (induction rule: relay_step.induct)
  case (First s n addr st frame)
  have "rl_asked s n = None" using relay_inv_task [OF First(2,1)] by (simp add: phase_ok_def)
  then show ?case
    using First(3) first_message_asked [of x key n addr st frame "s\<lparr>rl_heard := (rl_heard s)(n := frame)\<rparr>"]
    by (auto simp: asked_heard_def split: if_splits)
qed (auto simp: asked_heard_def set_task_def put_peer_def remove_peer_def)

lemma relay_reaches_heard: "relay_reaches x key s \<Longrightarrow> asked_heard x key s"
proof (induction rule: relay_reaches.induct)
  case Start
  show ?case by (simp add: asked_heard_def relay_init_def)
qed (use relay_step_heard relay_reaches_inv in blast)

text \<open>
  C13. Only streams that asked for the same \<open>uuid\<close> with the relay's key are joined, in every reachable state of any number of
  interleaved connections: a relaying task and its partner are two different streams, the first frame read from each was a request
  for that \<open>uuid\<close>, which is not empty, that shows the key the relay was started with (any, if it has none), and both are switched to raw mode
  exactly when neither is a websocket.
\<close>

theorem relay_pair_matched:
  assumes "relay_reaches x key s" and "rl_tasks s n = Some (Relaying u uid st peer)"
  shows "rs_task st = n \<and> rs_task peer \<noteq> n \<and>
    (\<exists>bs. rl_heard s n = Some bs \<and> asks_for x key u bs) \<and>
    (\<exists>bs. rl_heard s (rs_task peer) = Some bs \<and> asks_for x key u bs) \<and>
    rs_raw st = (\<not> rs_is_ws st \<and> \<not> rs_is_ws peer) \<and> rs_raw peer = rs_raw st"
proof -
  have "rs_task st = n" "rs_task peer \<noteq> n" "rl_asked s n = Some u" "rl_asked s (rs_task peer) = Some u"
    "rs_raw st = (\<not> rs_is_ws st \<and> \<not> rs_is_ws peer)" "rs_raw peer = rs_raw st"
    using relay_inv_task [OF relay_reaches_inv [OF assms(1)] assms(2)] assms(2)
    by (auto simp: phase_ok_def pair_ok_def)
  then show ?thesis using relay_reaches_heard [OF assms(1)] unfolding asked_heard_def by blast
qed

text \<open>
  C14. A stream is relayed with at most one other: two different relays share no stream, on either end.
\<close>

theorem relay_pair_exclusive:
  assumes "relay_reaches x key s" and "n \<noteq> m"
    and "rl_tasks s n = Some (Relaying u uid st p)" and "rl_tasks s m = Some (Relaying v vid st' p')"
  shows "{rs_task st, rs_task p} \<inter> {rs_task st', rs_task p'} = {}"
  using relay_inv_task [OF relay_reaches_inv [OF assms(1)] assms(3)]
    relay_inv_task [OF relay_reaches_inv [OF assms(1)] assms(4)]
    relay_inv_exclusive [OF relay_reaches_inv [OF assms(1)] assms(3,4)] assms(2-)
  by (auto simp: phase_ok_def pair_ok_def)

subsection \<open>Clients that come\<close>

lemma put_peer_fields [simp]:
  "rl_tasks (put_peer u st s) = rl_tasks s" "rl_peers (put_peer u st s) = (rl_peers s)(u \<mapsto> st)"
  "rl_asked (put_peer u st s) = rl_asked s" "rl_next (put_peer u st s) = rl_next s"
  "rl_usage (put_peer u st s) = rl_usage s"
  by (simp_all add: put_peer_def)

abbreviation new_stream :: "nat \<Rightarrow> bool \<Rightarrow> relay_stream" where
  "new_stream n ws \<equiv> \<lparr>rs_task = n, rs_is_ws = ws, rs_raw = False\<rparr>"

text \<open>A client that is let in and asks for \<open>uuid\<close>.\<close>

definition comes_for :: "externals \<Rightarrow> string \<Rightarrow> string \<Rightarrow> socket_addr \<Rightarrow> bool \<Rightarrow> bytes \<Rightarrow> bool" where
  "comes_for x key uuid a ws bs \<longleftrightarrow> (\<exists>l. admit x l a ws = Client) \<and> asks_for x key uuid bs"

lemma first_message_missed:
  assumes "asks_for x key uuid bs" and "rl_peers p uuid = None"
  shows "first_message x key n a st (Some bs) p =
    set_task n (Missed uuid st) (p\<lparr>rl_asked := (rl_asked p)(n \<mapsto> uuid), rl_peers := (rl_peers p)(uuid := None)\<rparr>)"
  using assms by (auto simp: asks_for_def first_message_def remove_peer_def)

lemma first_message_paired:
  assumes "asks_for x key uuid bs" and "rl_peers p uuid = Some peer" and "raw_pair st peer = (st', peer')"
  shows "first_message x key n a st (Some bs) p =
    set_task n (Relaying uuid (usage_id a) st' peer')
      (p\<lparr>rl_asked := (rl_asked p)(n \<mapsto> uuid), rl_peers := (rl_peers p)(uuid := None),
         rl_usage := (rl_usage p)(usage_id a \<mapsto> (0, 0, 0, 0))\<rparr>)"
  using assms by (auto simp: asks_for_def first_message_def remove_peer_def Let_def)

text \<open>Such a client arrives and finds nobody, puts its stream down, or finds a partner.\<close>

lemma client_asks:
  assumes "comes_for x key uuid a ws bs"
  shows "(relay_step x key)\<^sup>*\<^sup>* p (first_message x key (rl_next p) (pair_addr hdr ws a) (new_stream (rl_next p) ws) (Some bs)
    (set_task (rl_next p) (Reading (pair_addr hdr ws a) (new_stream (rl_next p) ws))
      (p\<lparr>rl_heard := (rl_heard p)(rl_next p \<mapsto> bs), rl_next := Suc (rl_next p)\<rparr>)))"
proof -
  let ?n = "rl_next p"
  define p1 where "p1 = set_task ?n (Reading (pair_addr hdr ws a) (new_stream ?n ws)) (p\<lparr>rl_next := Suc ?n\<rparr>)"
  obtain l where "admit x l a ws = Client" using assms by (auto simp: comes_for_def)
  from relay_step.Arrive [OF refl this] have "relay_step x key p p1" by (simp add: p1_def)
  moreover have "relay_step x key p1 (first_message x key ?n (pair_addr hdr ws a) (new_stream ?n ws) (Some bs)
      (p1\<lparr>rl_heard := (rl_heard p1)(?n \<mapsto> bs)\<rparr>))"
    by (rule relay_step.First) (simp add: p1_def)
  ultimately have "(relay_step x key)\<^sup>*\<^sup>* p (first_message x key ?n (pair_addr hdr ws a) (new_stream ?n ws) (Some bs)
      (p1\<lparr>rl_heard := (rl_heard p1)(?n \<mapsto> bs)\<rparr>))" by (meson converse_rtranclp_into_rtranclp r_into_rtranclp)
  moreover have "p1\<lparr>rl_heard := (rl_heard p1)(?n \<mapsto> bs)\<rparr> = set_task ?n (Reading (pair_addr hdr ws a) (new_stream ?n ws))
      (p\<lparr>rl_heard := (rl_heard p)(?n \<mapsto> bs), rl_next := Suc ?n\<rparr>)" by (cases p) (simp add: p1_def set_task_def)
  ultimately show ?thesis by simp
qed

lemma client_misses:
  assumes "comes_for x key uuid a ws bs" and "rl_peers p uuid = None" and "n = rl_next p"
  obtains p' where "(relay_step x key)\<^sup>*\<^sup>* p p'" "rl_next p' = Suc n"
    "rl_tasks p' = (rl_tasks p)(n \<mapsto> Missed uuid (new_stream n ws))" "rl_peers p' = rl_peers p"
    "rl_asked p' = (rl_asked p)(n \<mapsto> uuid)"
proof (rule that)
  let ?p = "set_task n (Reading a (new_stream n ws)) (p\<lparr>rl_heard := (rl_heard p)(n \<mapsto> bs), rl_next := Suc n\<rparr>)"
  have ask: "asks_for x key uuid bs" using assms(1) by (simp add: comes_for_def)
  note found = first_message_missed [OF ask, of ?p n a "new_stream n ws"]
  show "(relay_step x key)\<^sup>*\<^sup>* p (first_message x key n a (new_stream n ws) (Some bs) ?p)"
    using client_asks [OF assms(1), of p "\<lambda>_. None"] by (simp add: assms(3) pair_addr_no_header)
qed (use first_message_missed [of x key uuid bs] assms in \<open>auto simp: comes_for_def fun_upd_idem\<close>)

lemma client_parks:
  assumes "rl_tasks p n = Some (Missed uuid st)"
  obtains p' where "relay_step x key p p'" "rl_next p' = rl_next p" "rl_tasks p' = (rl_tasks p)(n \<mapsto> Sleeping uuid)"
    "rl_peers p' = (rl_peers p)(uuid \<mapsto> st)" "rl_asked p' = rl_asked p"
  using relay_step.Park [OF assms, of x key] by (rule that) simp_all

lemma client_waits:
  assumes "comes_for x key uuid a ws bs" and "rl_peers p uuid = None" and "n = rl_next p"
  obtains p' where "(relay_step x key)\<^sup>*\<^sup>* p p'" "rl_next p' = Suc n" "rl_tasks p' = (rl_tasks p)(n \<mapsto> Sleeping uuid)"
    "rl_peers p' = (rl_peers p)(uuid \<mapsto> new_stream n ws)" "rl_asked p' = (rl_asked p)(n \<mapsto> uuid)"
proof (rule client_misses [OF assms])
  fix p1 assume p1: "(relay_step x key)\<^sup>*\<^sup>* p p1" "rl_next p1 = Suc n"
    "rl_tasks p1 = (rl_tasks p)(n \<mapsto> Missed uuid (new_stream n ws))" "rl_peers p1 = rl_peers p"
    "rl_asked p1 = (rl_asked p)(n \<mapsto> uuid)"
  then have "rl_tasks p1 n = Some (Missed uuid (new_stream n ws))" by simp
  then show thesis
    by (rule client_parks [where x = x and key = key]) (rule that, rule rtranclp.rtrancl_into_rtrancl, insert p1, auto)
qed

lemma client_joins:
  assumes "comes_for x key uuid a ws bs" and "rl_peers p uuid = Some peer" and "n = rl_next p"
    and "raw_pair (new_stream n ws) peer = (st, peer')"
  obtains p' where "(relay_step x key)\<^sup>*\<^sup>* p p'" "rl_next p' = Suc n"
    "rl_tasks p' = (rl_tasks p)(n \<mapsto> Relaying uuid (usage_id a) st peer')" "rl_peers p' = (rl_peers p)(uuid := None)"
    "rl_asked p' = (rl_asked p)(n \<mapsto> uuid)" "rl_usage p' (usage_id a) = Some (0, 0, 0, 0)"
proof (rule that)
  let ?p = "set_task n (Reading a (new_stream n ws)) (p\<lparr>rl_heard := (rl_heard p)(n \<mapsto> bs), rl_next := Suc n\<rparr>)"
  show "(relay_step x key)\<^sup>*\<^sup>* p (first_message x key n a (new_stream n ws) (Some bs) ?p)"
    using client_asks [OF assms(1), of p "\<lambda>_. None"] by (simp add: assms(3) pair_addr_no_header)
qed (use first_message_paired [of x key uuid bs _ peer] assms in \<open>auto simp: comes_for_def\<close>)

lemma clients_meet:
  assumes "comes_for x key uuid a wa fa" and "comes_for x key uuid b wb fb" and "rl_peers p uuid = None" and "n = rl_next p"
  obtains p' st peer where "(relay_step x key)\<^sup>*\<^sup>* p p'" "rl_next p' = Suc (Suc n)"
    "rl_tasks p' = (rl_tasks p)(n \<mapsto> Sleeping uuid, Suc n \<mapsto> Relaying uuid (usage_id b) st peer)"
    "rl_peers p' uuid = None" "rs_task st = Suc n" "rs_task peer = n" "rs_is_ws st = wb" "rs_is_ws peer = wa"
    "rl_usage p' (usage_id b) = Some (0, 0, 0, 0)"
proof (rule client_waits [OF assms(1,3,4)])
  fix p1 assume p1: "(relay_step x key)\<^sup>*\<^sup>* p p1" "rl_next p1 = Suc n" "rl_tasks p1 = (rl_tasks p)(n \<mapsto> Sleeping uuid)"
    "rl_peers p1 = (rl_peers p)(uuid \<mapsto> new_stream n wa)"
  obtain st peer where raw: "raw_pair (new_stream (Suc n) wb) (new_stream n wa) = (st, peer)" by fastforce
  from p1 have "rl_peers p1 uuid = Some (new_stream n wa)" "Suc n = rl_next p1" by simp_all
  from client_joins [OF assms(2) this raw] obtain p2 where p2: "(relay_step x key)\<^sup>*\<^sup>* p1 p2" "rl_next p2 = Suc (Suc n)"
    "rl_tasks p2 = (rl_tasks p1)(Suc n \<mapsto> Relaying uuid (usage_id b) st peer)" "rl_peers p2 = (rl_peers p1)(uuid := None)"
    "rl_usage p2 (usage_id b) = Some (0, 0, 0, 0)" by blast
  moreover have "rs_task st = Suc n \<and> rs_task peer = n \<and> rs_is_ws st = wb \<and> rs_is_ws peer = wa"
    using raw by (auto simp: raw_pair_def split: if_splits)
  ultimately show thesis using p1 by (intro that [of p2 st peer] rtranclp_trans [OF p1(1) p2(1)]) simp_all
qed

text \<open>
  Whoever waits under a \<open>uuid\<close> that nobody else has named is found there: the two ways to lose a stream below both need another request.
\<close>

definition waiter_found :: "relay_state \<Rightarrow> bool" where
  "waiter_found s \<longleftrightarrow>
     (\<forall>n u. rl_tasks s n = Some (Sleeping u) \<longrightarrow> (\<forall>m. m \<noteq> n \<longrightarrow> rl_asked s m \<noteq> Some u) \<longrightarrow>
        (\<exists>st. rl_peers s u = Some st \<and> rs_task st = n))"

lemma waiter_foundD:
  "waiter_found s \<Longrightarrow> rl_tasks s n = Some (Sleeping u) \<Longrightarrow> (\<And>m. m \<noteq> n \<Longrightarrow> rl_asked s m \<noteq> Some u) \<Longrightarrow>
     \<exists>st. rl_peers s u = Some st \<and> rs_task st = n"
  by (simp add: waiter_found_def)

lemma first_message_waiter:
  assumes "relay_inv s" and "waiter_found s" and "rl_tasks s n = Some (Reading a st)"
  shows "waiter_found (first_message x key n a st frame s)"
  unfolding waiter_found_def
proof (intro allI impI)
  let ?s = "first_message x key n a st frame s"
  fix q u assume q: "rl_tasks ?s q = Some (Sleeping u)" and others: "\<forall>m. m \<noteq> q \<longrightarrow> rl_asked ?s m \<noteq> Some u"
  have none: "rl_asked s n = None" using relay_inv_task [OF assms(1,3)] by (simp add: phase_ok_def)
  have same: "q \<noteq> n" "rl_tasks s q = Some (Sleeping u)"
    using q by (cases rule: first_message_cases [of x key n a st frame s]; auto split: if_splits)+
  have "rl_asked s m \<noteq> Some u" if "m \<noteq> q" for m
    using others that none
    by (cases rule: first_message_cases [of x key n a st frame s]; cases "m = n"; fastforce)
  moreover have "rl_asked ?s n \<noteq> Some u" using others same(1) by simp
  ultimately show "\<exists>st. rl_peers ?s u = Some st \<and> rs_task st = q"
    using waiter_foundD [OF assms(2) same(2)] by (cases rule: first_message_cases [of x key n a st frame s]; auto)
qed

lemma relay_step_waiter:
  assumes "relay_step x key s s'" and "relay_inv s" and "waiter_found s"
  shows "waiter_found s'"
  using assms
proof (induction rule: relay_step.induct)
  case (Arrive n s l addr ws hdr)
  then show ?case by (auto simp: waiter_found_def)
next
  case (First s n addr st frame)
  then show ?case by (intro first_message_waiter) (simp_all add: waiter_found_def)
next
  case (Park s n uuid st)
  have own: "rs_task st = n" "rl_asked s n = Some uuid" using relay_inv_task [OF Park(2,1)] by (simp_all add: phase_ok_def)
  show ?case
    unfolding waiter_found_def
  proof (intro allI impI)
    fix q v assume "rl_tasks (set_task n (Sleeping uuid) (put_peer uuid st s)) q = Some (Sleeping v)"
      and "\<forall>m. m \<noteq> q \<longrightarrow> rl_asked (set_task n (Sleeping uuid) (put_peer uuid st s)) m \<noteq> Some v"
    then show "\<exists>w. rl_peers (set_task n (Sleeping uuid) (put_peer uuid st s)) v = Some w \<and> rs_task w = q"
      using own waiter_foundD [OF Park(3), of q v] by (cases "q = n") (auto simp: put_peer_def)
  qed
next
  case (Wake s n uuid)
  have "rl_asked s n = Some uuid" using relay_inv_task [OF Wake(2,1)] by (simp add: phase_ok_def)
  then show ?case
    using waiter_foundD [OF Wake(3)] unfolding waiter_found_def by (auto simp: remove_peer_def split: if_splits) metis
qed (auto simp: waiter_found_def)

lemma relay_reaches_waiter: "relay_reaches x key s \<Longrightarrow> waiter_found s"
proof (induction rule: relay_reaches.induct)
  case Start
  show ?case by (simp add: waiter_found_def relay_init_def)
qed (use relay_step_waiter relay_reaches_inv in blast)

text \<open>So the next request for the \<open>uuid\<close> is joined with it.\<close>

lemma sole_waiter_joined:
  assumes "relay_reaches x key q" and "rl_tasks q n = Some (Sleeping u)" and "\<And>j. j \<noteq> n \<Longrightarrow> rl_asked q j \<noteq> Some u"
    and "rl_tasks q m = Some (Reading a st)" and "asks_for x key u bs"
    and "q' = first_message x key m a st (Some bs) (q\<lparr>rl_heard := (rl_heard q)(m \<mapsto> bs)\<rparr>)"
  shows "relay_step x key q q'"
    and "\<exists>st' peer. rl_tasks q' m = Some (Relaying u (usage_id a) st' peer) \<and> rs_task st' = m \<and> rs_task peer = n"
proof -
  show "relay_step x key q q'" unfolding assms(6) by (rule relay_step.First [OF assms(4)])
  obtain w where w: "rl_peers q u = Some w" "rs_task w = n"
    using waiter_foundD [OF relay_reaches_waiter [OF assms(1)] assms(2,3)] by blast
  obtain st' peer where raw: "raw_pair st w = (st', peer)" by fastforce
  then have "rs_task st' = m" "rs_task peer = n"
    using relay_inv_task [OF relay_reaches_inv [OF assms(1)] assms(4)] w(2)
    by (auto simp: phase_ok_def raw_pair_def split: if_splits)
  then show "\<exists>st' peer. rl_tasks q' m = Some (Relaying u (usage_id a) st' peer) \<and> rs_task st' = m \<and> rs_task peer = n"
    using first_message_paired [OF assms(5) _ raw, of "q\<lparr>rl_heard := (rl_heard q)(m \<mapsto> bs)\<rparr>" m a] w(1)
    by (simp add: assms(6))
qed

interpretation pairing_runs: invariant_system "relay_step x key" "relay_reaches x key"
  by unfold_locales (rule relay_reaches.Step)

subsection \<open>Two ways to lose a stream\<close>

text \<open>
  C30. Two partners whose requests overlap never meet: from any state in which nobody waits under the \<open>uuid\<close>, both
  can look before either has put its stream down, and the second insertion then drops the first stream, so both tasks wait out
  their time although each asked for the same \<open>uuid\<close>, and nobody holds the first stream any more.
\<close>

theorem overlapping_requests_lost:
  assumes "comes_for x key uuid a wa fa" and "comes_for x key uuid b wb fb" and "rl_peers p uuid = None" and "n = rl_next p"
  shows "\<exists>s. (relay_step x key)\<^sup>*\<^sup>* p s \<and> rl_tasks s n = Some (Sleeping uuid) \<and> rl_tasks s (Suc n) = Some (Sleeping uuid) \<and>
    rl_asked s n = Some uuid \<and> rl_asked s (Suc n) = Some uuid \<and>
    rl_peers s uuid = Some (new_stream (Suc n) wb)"
proof -
  obtain p1 where p1: "(relay_step x key)\<^sup>*\<^sup>* p p1" "rl_next p1 = Suc n"
    "rl_tasks p1 = (rl_tasks p)(n \<mapsto> Missed uuid (new_stream n wa))" "rl_peers p1 = rl_peers p"
    "rl_asked p1 = (rl_asked p)(n \<mapsto> uuid)" by (rule client_misses [OF assms(1,3,4)])
  obtain p2 where p2: "(relay_step x key)\<^sup>*\<^sup>* p1 p2"
    "rl_tasks p2 = (rl_tasks p1)(Suc n \<mapsto> Missed uuid (new_stream (Suc n) wb))" "rl_asked p2 = (rl_asked p1)(Suc n \<mapsto> uuid)"
    by (rule client_misses [OF assms(2), of p1 "Suc n"]) (use p1 assms(3) in auto)
  obtain p3 where p3: "relay_step x key p2 p3" "rl_tasks p3 = (rl_tasks p2)(n \<mapsto> Sleeping uuid)" "rl_asked p3 = rl_asked p2"
    by (rule client_parks [of p2 n uuid "new_stream n wa"]) (use p1 p2 in auto)
  obtain p4 where p4: "relay_step x key p3 p4" "rl_tasks p4 = (rl_tasks p3)(Suc n \<mapsto> Sleeping uuid)"
    "rl_peers p4 = (rl_peers p3)(uuid \<mapsto> new_stream (Suc n) wb)" "rl_asked p4 = rl_asked p3"
    by (rule client_parks [of p3 "Suc n" uuid "new_stream (Suc n) wb"]) (use p2 p3 in auto)
  have "(relay_step x key)\<^sup>*\<^sup>* p p4"
    using p1(1) p2(1) p3(1) p4(1) by (meson rtranclp.rtrancl_into_rtrancl rtranclp_trans)
  then show ?thesis by (intro exI [of _ p4]) (simp add: p1 p2 p3 p4)
qed

text \<open>
  C31. The timer of an old request takes down a new one: after a pair has met under some \<open>uuid\<close>, a new stream waits under the same
  \<open>uuid\<close>, the 30 s of the pair's first task end, its removal by \<open>uuid\<close> takes the new stream away, and a partner that comes for it
  finds nothing although the new stream's own wait has not ended.
\<close>

theorem stale_timer_drops_waiting:
  assumes "comes_for x key uuid a wa fa" and "comes_for x key uuid b wb fb" and "comes_for x key uuid c wc fc"
    and "comes_for x key uuid d wd fd" and "rl_peers p uuid = None" and "n = rl_next p"
  shows "\<exists>s. (relay_step x key)\<^sup>*\<^sup>* p s \<and> rl_tasks s (n + 2) = Some (Sleeping uuid) \<and>
    rl_tasks s (n + 3) = Some (Missed uuid (new_stream (n + 3) wd)) \<and> rl_asked s (n + 2) = Some uuid \<and> rl_peers s uuid = None"
proof -
  obtain p2 st peer where p2: "(relay_step x key)\<^sup>*\<^sup>* p p2" "rl_next p2 = Suc (Suc n)"
    "rl_tasks p2 = (rl_tasks p)(n \<mapsto> Sleeping uuid, Suc n \<mapsto> Relaying uuid (usage_id b) st peer)" "rl_peers p2 uuid = None"
    by (rule clients_meet [OF assms(1,2,5,6)])
  obtain p3 where p3: "(relay_step x key)\<^sup>*\<^sup>* p2 p3" "rl_next p3 = n + 3" "rl_tasks p3 = (rl_tasks p2)(n + 2 \<mapsto> Sleeping uuid)"
    "rl_asked p3 = (rl_asked p2)(n + 2 \<mapsto> uuid)"
    by (rule client_waits [OF assms(3) p2(4), of "n + 2"]) (simp_all add: p2(2))
  let ?p4 = "set_task n Finished (snd (remove_peer uuid p3))"
  have "relay_step x key p3 ?p4" by (rule relay_step.Wake) (simp add: p3(3) p2(3))
  moreover have p4: "rl_peers ?p4 uuid = None" "rl_next ?p4 = n + 3" "rl_tasks ?p4 = (rl_tasks p3)(n \<mapsto> Finished)"
    "rl_asked ?p4 = rl_asked p3" by (simp_all add: remove_peer_def p3(2))
  obtain p5 where p5: "(relay_step x key)\<^sup>*\<^sup>* ?p4 p5"
    "rl_tasks p5 = (rl_tasks ?p4)(n + 3 \<mapsto> Missed uuid (new_stream (n + 3) wd))" "rl_peers p5 = rl_peers ?p4"
    "rl_asked p5 = (rl_asked ?p4)(n + 3 \<mapsto> uuid)"
    by (rule client_misses [OF assms(4) p4(1) p4(2) [symmetric]])
  ultimately have "(relay_step x key)\<^sup>*\<^sup>* p p5"
    using p2(1) p3(1) by (meson rtranclp.rtrancl_into_rtrancl rtranclp_trans)
  then show ?thesis by (intro exI [of _ p5]) (simp add: p5 p3 remove_peer_def)
qed

text \<open>A decoder for the witnesses: every frame is a request for the \<open>uuid\<close> \<open>''u''\<close>.\<close>

definition relay_ext :: externals where
  "relay_ext =
     \<lparr>x_into_v4 = (\<lambda>a. a), x_mangle = (\<lambda>_ _. []), x_demangle = (\<lambda>_. SocketV4 0 0),
      x_decode = (\<lambda>_. Some (Some (RequestRelay \<lparr>rf_id = [], rf_uuid = ''u'', rf_socket_addr = [],
        rf_licence_key = ''k'', rf_rest = []\<rparr>))),
      x_encode = (\<lambda>_. Some []), x_id_pk = (\<lambda>_ k. k), x_sign = (\<lambda>d _. d), x_resolves = (\<lambda>_. True),
      x_info_to_json = (\<lambda>s. s), x_info_of_json = (\<lambda>s. s), x_nat_known = (\<lambda>_. True), x_nat_symmetric = 2\<rparr>"

lemma sample_client_key: "key = [] \<or> key = ''k'' \<Longrightarrow> comes_for relay_ext key ''u'' (SocketV4 1 2) True []"
  by (auto simp: comes_for_def asks_for_def relay_ext_def admit_def Let_def
      intro!: exI [of _ "\<lparr>blacklist = {}, blocklist = {}\<rparr>"])

lemmas sample_client = sample_client_key [of "[]", simplified]

lemma sample_start: "rl_peers relay_init u = None" "rl_next relay_init = 0"
  by (simp_all add: relay_init_def)

lemma sample_meet:
  assumes "relay_reaches relay_ext [] p" and "rl_peers p ''u'' = None" and "n = rl_next p"
  obtains s st peer where "relay_reaches relay_ext [] s" "rl_next s = Suc (Suc n)"
    "rl_tasks s = (rl_tasks p)(n \<mapsto> Sleeping ''u'', Suc n \<mapsto> Relaying ''u'' (usage_id (SocketV4 1 2)) st peer)"
    "rl_peers s ''u'' = None" "rl_usage s (usage_id (SocketV4 1 2)) = Some (0, 0, 0, 0)"
  by (rule clients_meet [OF sample_client sample_client assms(2,3)]) (use pairing_runs.run_inv [OF _ assms(1)] in blast)

lemma overlapping_requests_lost_witness:
  "\<exists>s. (relay_step relay_ext [])\<^sup>*\<^sup>* relay_init s \<and> rl_tasks s 0 = Some (Sleeping ''u'') \<and>
     rl_peers s ''u'' = Some (new_stream 1 True)"
  using overlapping_requests_lost [OF sample_client sample_client sample_start(1) sample_start(2) [symmetric]] by auto

lemma stale_timer_drops_waiting_witness:
  "\<exists>s. (relay_step relay_ext [])\<^sup>*\<^sup>* relay_init s \<and> rl_tasks s 2 = Some (Sleeping ''u'') \<and>
     rl_tasks s 3 = Some (Missed ''u'' (new_stream 3 True)) \<and> rl_peers s ''u'' = None"
  using stale_timer_drops_waiting [OF sample_client sample_client sample_client sample_client sample_start(1)
      sample_start(2) [symmetric]] by (auto simp: numeral_2_eq_2)

text \<open>A relay with the key \<open>''k''\<close>.\<close>

lemma relay_pair_matched_witness:
  "\<exists>s st peer. relay_reaches relay_ext ''k'' s \<and>
     rl_tasks s 1 = Some (Relaying ''u'' (usage_id (SocketV4 1 2)) st peer) \<and>
     (\<exists>bs. rl_heard s 1 = Some bs \<and> asks_for relay_ext ''k'' ''u'' bs) \<and> rs_task peer \<noteq> 1"
proof -
  have client: "comes_for relay_ext ''k'' ''u'' (SocketV4 1 2) True []" by (simp add: sample_client_key)
  obtain s st peer where s: "(relay_step relay_ext ''k'')\<^sup>*\<^sup>* relay_init s"
    "rl_tasks s = (rl_tasks relay_init)(0 \<mapsto> Sleeping ''u'', Suc 0 \<mapsto> Relaying ''u'' (usage_id (SocketV4 1 2)) st peer)"
    by (rule clients_meet [OF client client sample_start(1) sample_start(2) [symmetric]])
  then have "rl_tasks s 1 = Some (Relaying ''u'' (usage_id (SocketV4 1 2)) st peer)" by simp
  moreover have reach: "relay_reaches relay_ext ''k'' s" by (rule pairing_runs.run_inv [OF s(1) relay_reaches.Start])
  ultimately show ?thesis using relay_pair_matched [OF reach] by blast
qed

text \<open>Two pairs, one after the other under the same \<open>uuid\<close>, relayed at the same time.\<close>

lemma relay_pair_exclusive_witness:
  "\<exists>s st p st' p'. relay_reaches relay_ext [] s \<and>
     rl_tasks s 1 = Some (Relaying ''u'' (usage_id (SocketV4 1 2)) st p) \<and>
     rl_tasks s 3 = Some (Relaying ''u'' (usage_id (SocketV4 1 2)) st' p') \<and>
     {rs_task st, rs_task p} \<inter> {rs_task st', rs_task p'} = {}"
proof -
  obtain s1 st1 peer1 where s1: "relay_reaches relay_ext [] s1" "rl_next s1 = Suc (Suc 0)"
    "rl_tasks s1 = (rl_tasks relay_init)(0 \<mapsto> Sleeping ''u'', Suc 0 \<mapsto> Relaying ''u'' (usage_id (SocketV4 1 2)) st1 peer1)"
    "rl_peers s1 ''u'' = None"
    by (rule sample_meet [OF relay_reaches.Start sample_start(1) sample_start(2) [symmetric]])
  obtain s st peer where s: "relay_reaches relay_ext [] s" "rl_tasks s = (rl_tasks s1)(Suc (Suc 0) \<mapsto> Sleeping ''u'',
      Suc (Suc (Suc 0)) \<mapsto> Relaying ''u'' (usage_id (SocketV4 1 2)) st peer)"
    by (rule sample_meet [OF s1(1,4) s1(2) [symmetric]])
  have t: "rl_tasks s 1 = Some (Relaying ''u'' (usage_id (SocketV4 1 2)) st1 peer1)"
    "rl_tasks s 3 = Some (Relaying ''u'' (usage_id (SocketV4 1 2)) st peer)"
    using s(2) s1(3) by (simp_all add: numeral_3_eq_3)
  with relay_pair_exclusive [OF s(1) _ t] s(1) show ?thesis by fastforce
qed

subsection \<open>The usage table\<close>

definition usage_live :: "relay_state \<Rightarrow> bool" where
  "usage_live s \<longleftrightarrow>
     (\<forall>uid. rl_usage s uid \<noteq> None \<longrightarrow> (\<exists>n u st p. rl_tasks s n = Some (Relaying u uid st p)))"

lemma usage_live_task:
  assumes "usage_live s" and "\<And>uid. rl_usage s' uid \<noteq> None \<Longrightarrow> rl_usage s uid \<noteq> None"
    and "rl_tasks s' = (rl_tasks s)(n \<mapsto> ph)" and "\<And>u uid st p. rl_tasks s n \<noteq> Some (Relaying u uid st p)"
  shows "usage_live s'"
  unfolding usage_live_def
proof (intro allI impI)
  fix uid assume "rl_usage s' uid \<noteq> None"
  then obtain m u st p where "rl_tasks s m = Some (Relaying u uid st p)"
    using assms(1,2) unfolding usage_live_def by blast
  moreover from this have "m \<noteq> n" using assms(4) by auto
  ultimately show "\<exists>n u st p. rl_tasks s' n = Some (Relaying u uid st p)" using assms(3) by fastforce
qed

lemma first_message_usage:
  assumes "usage_live s" and "rl_tasks s n = Some (Reading a st)"
  shows "usage_live (first_message x key n a st frame s)"
proof (cases rule: first_message_cases [of x key n a st frame s])
  case dropped
  then show ?thesis by (simp, intro usage_live_task [OF assms(1), where n = n]) (use assms(2) in auto)
next
  case (missed uuid s1)
  then show ?thesis by (simp, intro usage_live_task [OF assms(1), where n = n]) (use assms(2) in auto)
next
  case (paired uuid peer st' peer' s1)
  show ?thesis
    unfolding usage_live_def
  proof (intro allI impI)
    fix uid assume u: "rl_usage (first_message x key n a st frame s) uid \<noteq> None"
    show "\<exists>m v q p. rl_tasks (first_message x key n a st frame s) m = Some (Relaying v uid q p)"
    proof (cases "uid = usage_id a")
      case True
      have "rl_tasks (first_message x key n a st frame s) n = Some (Relaying uuid (usage_id a) st' peer')"
        using paired by simp
      then show ?thesis unfolding True by blast
    next
      case False
      then have "rl_usage s uid \<noteq> None" using u paired by simp
      then obtain m v q p where m: "rl_tasks s m = Some (Relaying v uid q p)"
        using assms(1) unfolding usage_live_def by blast
      moreover from this have "m \<noteq> n" using assms(2) by auto
      ultimately show ?thesis using paired by auto
    qed
  qed
qed

lemma relay_step_usage: "relay_step x key s s' \<Longrightarrow> relay_inv s \<Longrightarrow> usage_live s \<Longrightarrow> usage_live s'"
proof (induction rule: relay_step.induct)
  case (Arrive n s l addr ws hdr)
  then have "rl_tasks s n = None"
    using relay_inv_task [OF Arrive(3), of n] by (cases "rl_tasks s n") (auto simp: phase_ok_def)
  then show ?case by (intro usage_live_task [OF Arrive(4), where n = n]) auto
next
  case (First s n addr st frame)
  then show ?case by (intro first_message_usage) (simp_all add: usage_live_def)
next
  case (Park s n uuid st)
  then show ?case by (intro usage_live_task [OF Park(3), where n = n]) (auto simp: put_peer_def)
next
  case (Wake s n uuid)
  then show ?case by (intro usage_live_task [OF Wake(3), where n = n]) (auto simp: remove_peer_def)
next
  case (Report s n uuid uid st peer u)
  then show ?case by (auto simp: usage_live_def)
next
  case (Close s n uuid uid st peer)
  show ?case unfolding usage_live_def
  proof (intro allI impI)
    fix i assume "rl_usage (set_task n Finished (s\<lparr>rl_usage := (rl_usage s)(uid := None)\<rparr>)) i \<noteq> None"
    then have i: "rl_usage s i \<noteq> None" "i \<noteq> uid" by (auto split: if_splits)
    then obtain m v q p where m: "rl_tasks s m = Some (Relaying v i q p)"
      using Close(3) unfolding usage_live_def by blast
    with i(2) Close(1) have "m \<noteq> n" by auto
    with m show "\<exists>m v st p. rl_tasks (set_task n Finished (s\<lparr>rl_usage := (rl_usage s)(uid := None)\<rparr>)) m
        = Some (Relaying v i st p)" by auto
  qed
qed

lemma relay_reaches_usage: "relay_reaches x key s \<Longrightarrow> usage_live s"
proof (induction rule: relay_reaches.induct)
  case Start
  show ?case by (simp add: usage_live_def relay_init_def)
next
  case (Step s s')
  then show ?case using relay_step_usage relay_reaches_inv by blast
qed

text \<open>
  The usage table holds no stale entry: in every reachable state each entry belongs to a relay that is
  running, so a server with no relay has an empty table.
\<close>

theorem usage_entries_live:
  assumes "relay_reaches x key s" and "rl_usage s uid = Some v"
  shows "\<exists>n u st peer. rl_tasks s n = Some (Relaying u uid st peer)"
  using relay_reaches_usage [OF assms(1)] assms(2) unfolding usage_live_def by blast

lemma usage_entries_live_witness:
  "\<exists>s n u st peer. relay_reaches relay_ext [] s \<and>
     rl_usage s (usage_id (SocketV4 1 2)) = Some (0, 0, 0, 0) \<and>
     rl_tasks s n = Some (Relaying u (usage_id (SocketV4 1 2)) st peer)"
proof -
  obtain s st peer where s: "relay_reaches relay_ext [] s" "rl_usage s (usage_id (SocketV4 1 2)) = Some (0, 0, 0, 0)"
    by (rule sample_meet [OF relay_reaches.Start sample_start(1) sample_start(2) [symmetric]])
  with usage_entries_live [OF s] show ?thesis by blast
qed

end
