(* ===== verification/Relay_Loop.thy ===== *)
theory Relay_Loop
  imports Relay_Lists
begin

text \<open>
  The relay loop of \<open>src/relay_server.rs\<close> (\<open>relay\<close>): what one turn of its \<open>select!\<close> does and
  a whole run over the events of a pair. The token buckets of \<open>async_speed_limit\<close> are
  not part of the repository: the model logs what is charged to which one (the slow one
  or the pair's own), since the loop only waits on them. The downgrade threshold comes
  out of floating-point arithmetic on two settings and is an argument. Counters are
  \<open>usize\<close> and wrap.
\<close>

datatype loop_event = PeerData bytes | StreamData bytes | PeerEnd | StreamEnd | Tick

text \<open>
  What one turn meets: the clock when the event is handled and when the turn is accounted,
  the address lists, the setting \<open>DOWNGRADE_START_CHECK\<close>, and whether a send succeeds.
\<close>

record turn =
  tn_now :: instant
  tn_after :: instant
  tn_lists :: ip_lists
  tn_start_check :: usize
  tn_sent :: bool

record loop_state =
  ls_tm :: instant
  ls_elapsed :: usize
  ls_total :: usize
  ls_total_s :: usize
  ls_highest :: usize
  ls_downgrade :: bool
  ls_blacked :: bool
  ls_last_recv :: instant
  ls_to_stream :: "bytes list"
  ls_to_peer :: "bytes list"
  ls_charged :: "(bool \<times> usize) list"
  ls_usage :: "(usize \<times> usize \<times> usize \<times> usize) option"

datatype loop_exit = Closed | TimedOut | SendError | Blocked

definition loop_init :: "instant \<Rightarrow> loop_state" where
  "loop_init now =
     \<lparr>ls_tm = now, ls_elapsed = 0, ls_total = 0, ls_total_s = 0, ls_highest = 0, ls_downgrade = False,
      ls_blacked = False, ls_last_recv = now, ls_to_stream = [], ls_to_peer = [], ls_charged = [],
      ls_usage = None\<rparr>"

definition bits_of :: "bytes \<Rightarrow> usize" where
  "bits_of bs = word_of_nat (length bs) * 8"

text \<open>The charge and the counts of a message, before it is sent on.\<close>

definition account :: "turn \<Rightarrow> bytes \<Rightarrow> loop_state \<Rightarrow> loop_state" where
  "account v bs st =
     (let nb = bits_of bs
      in st\<lparr>ls_last_recv := tn_now v,
            ls_charged := ls_charged st @ [(ls_blacked st \<or> ls_downgrade st, nb)],
            ls_total := ls_total st + nb, ls_total_s := ls_total_s st + nb\<rparr>)"

definition on_event :: "turn \<Rightarrow> loop_event \<Rightarrow> loop_state \<Rightarrow> loop_state \<times> loop_exit option" where
  "on_event v ev st =
     (case ev of
        PeerData bs \<Rightarrow>
          (let st' = account v bs st
           in if bs = [] then (st', None)
              else if tn_sent v then (st'\<lparr>ls_to_stream := ls_to_stream st' @ [bs]\<rparr>, None)
              else (st', Some SendError))
      | StreamData bs \<Rightarrow>
          (let st' = account v bs st
           in if bs = [] then (st', None)
              else if tn_sent v then (st'\<lparr>ls_to_peer := ls_to_peer st' @ [bs]\<rparr>, None)
              else (st', Some SendError))
      | PeerEnd \<Rightarrow> (st, Some Closed)
      | StreamEnd \<Rightarrow> (st, Some Closed)
      | Tick \<Rightarrow> (st, if 30 < elapsed_secs (tn_now v) (ls_last_recv st) then Some TimedOut else None))"

text \<open>The end of a turn: once a second the lists, the speed and the downgrade are looked at.\<close>

definition every_second :: "string \<Rightarrow> usize \<Rightarrow> turn \<Rightarrow> loop_state \<Rightarrow> loop_state \<times> loop_exit option" where
  "every_second ip threshold v st =
     (let n = word_of_nat (elapsed_millis (tn_after v) (ls_tm st)) :: usize
      in if n < 1000 then (st, None)
         else if ip \<in> blocklist (tn_lists v) then (st, Some Blocked)
         else
           (let speed = ls_total_s st div n;
                highest = (if ls_highest st < speed then speed else ls_highest st);
                elapsed = ls_elapsed st + n;
                st' = st\<lparr>ls_blacked := ip \<in> blacklist (tn_lists v), ls_tm := tn_after v,
                         ls_highest := highest, ls_elapsed := elapsed,
                         ls_usage := Some (elapsed, ls_total st, highest, speed), ls_total_s := 0\<rparr>
            in (if tn_start_check v < elapsed \<and> \<not> ls_downgrade st' \<and> elapsed * threshold < ls_total st'
                then st'\<lparr>ls_downgrade := True\<rparr> else st', None)))"

definition relay_turn ::
  "string \<Rightarrow> usize \<Rightarrow> turn \<Rightarrow> loop_event \<Rightarrow> loop_state \<Rightarrow> loop_state \<times> loop_exit option" where
  "relay_turn ip threshold v ev st =
     (case on_event v ev st of
        (st', Some x) \<Rightarrow> (st', Some x)
      | (st', None) \<Rightarrow> every_second ip threshold v st')"

text \<open>
  A run over the events that come: the state, why the loop ended (\<^const>\<open>None\<close> when it still
  runs), and the events it no longer took.
\<close>

fun relay_loop ::
  "string \<Rightarrow> usize \<Rightarrow> (turn \<times> loop_event) list \<Rightarrow> loop_state \<Rightarrow>
     loop_state \<times> loop_exit option \<times> (turn \<times> loop_event) list" where
  "relay_loop ip threshold [] st = (st, None, [])"
| "relay_loop ip threshold ((v, ev) # evs) st =
     (case relay_turn ip threshold v ev st of
        (st', Some x) \<Rightarrow> (st', Some x, evs)
      | (st', None) \<Rightarrow> relay_loop ip threshold evs st')"

text \<open>The name under which \<open>relay\<close> looks an address up: the address as the socket gave it.\<close>

definition relay_ip :: "socket_addr \<Rightarrow> string" where
  "relay_ip addr = show_ip (sa_ip addr)"

subsection \<open>What one turn does\<close>

fun from_peer :: "loop_event \<Rightarrow> bytes" where
  "from_peer (PeerData bs) = bs"
| "from_peer _ = []"

fun from_stream :: "loop_event \<Rightarrow> bytes" where
  "from_stream (StreamData bs) = bs"
| "from_stream _ = []"

lemma every_second_fields [simp]:
  "ls_to_stream (fst (every_second ip t v st)) = ls_to_stream st"
  "ls_to_peer (fst (every_second ip t v st)) = ls_to_peer st"
  "ls_charged (fst (every_second ip t v st)) = ls_charged st"
  "ls_total (fst (every_second ip t v st)) = ls_total st"
  by (simp_all add: every_second_def Let_def)

lemma account_fields [simp]:
  "ls_to_stream (account v bs st) = ls_to_stream st" "ls_to_peer (account v bs st) = ls_to_peer st"
  "ls_total (account v bs st) = ls_total st + bits_of bs"
  "ls_charged (account v bs st) = ls_charged st @ [(ls_blacked st \<or> ls_downgrade st, bits_of bs)]"
  "ls_downgrade (account v bs st) = ls_downgrade st" "ls_blacked (account v bs st) = ls_blacked st"
  "ls_tm (account v bs st) = ls_tm st"
  by (simp_all add: account_def Let_def)

lemma relay_turn_fields:
  "ls_to_stream (fst (relay_turn ip t v ev st)) = ls_to_stream (fst (on_event v ev st))"
  "ls_to_peer (fst (relay_turn ip t v ev st)) = ls_to_peer (fst (on_event v ev st))"
  by (simp_all add: relay_turn_def case_prod_beta split: option.split)

text \<open>What one end delivered and the other is sent: every message that is not empty.\<close>

definition passed :: "(loop_event \<Rightarrow> bytes) \<Rightarrow> (turn \<times> loop_event) list \<Rightarrow> bytes list" where
  "passed side evs = filter (\<lambda>bs. bs \<noteq> []) (map (side \<circ> snd) evs)"

lemma passed_Nil [simp]: "passed side [] = []"
  by (simp add: passed_def)

lemma passed_Cons: "passed side (e # evs) = passed side [e] @ passed side evs"
  by (simp add: passed_def)

lemma concat_passed [simp]: "concat (passed side evs) = concat (map (side \<circ> snd) evs)"
  by (induction evs) (auto simp: passed_def)

lemma relay_turn_passed:
  assumes "relay_turn ip t v ev st = (st', x)" and "x \<noteq> Some SendError"
  shows "ls_to_stream st' = ls_to_stream st @ passed from_peer [(v, ev)] \<and>
    ls_to_peer st' = ls_to_peer st @ passed from_stream [(v, ev)]"
proof -
  have "ls_to_stream (fst (on_event v ev st)) = ls_to_stream st @ passed from_peer [(v, ev)] \<and>
      ls_to_peer (fst (on_event v ev st)) = ls_to_peer st @ passed from_stream [(v, ev)]"
    if "snd (on_event v ev st) \<noteq> Some SendError"
    using that by (cases ev) (auto simp: on_event_def passed_def Let_def split: if_splits)
  moreover have "snd (on_event v ev st) \<noteq> Some SendError"
    using assms by (cases "on_event v ev st") (auto simp: relay_turn_def split: option.splits)
  moreover have "ls_to_stream st' = ls_to_stream (fst (on_event v ev st))"
    "ls_to_peer st' = ls_to_peer (fst (on_event v ev st))"
    using assms(1) relay_turn_fields [of ip t v ev st] by simp_all
  ultimately show ?thesis by simp
qed

lemma relay_turn_counts:
  "ls_total (fst (relay_turn ip t v ev st)) = ls_total st + bits_of (from_peer ev) + bits_of (from_stream ev)"
  "\<exists>ms. ls_charged (fst (relay_turn ip t v ev st)) = ls_charged st @ ms \<and>
     sum_list (map snd ms) = bits_of (from_peer ev) + bits_of (from_stream ev) \<and>
     (\<forall>m \<in> set ms. fst m = (ls_blacked st \<or> ls_downgrade st))"
proof -
  have "ls_total (fst (on_event v ev st)) = ls_total st + bits_of (from_peer ev) + bits_of (from_stream ev)"
    by (cases ev) (simp_all add: on_event_def Let_def bits_of_def)
  then show "ls_total (fst (relay_turn ip t v ev st))
      = ls_total st + bits_of (from_peer ev) + bits_of (from_stream ev)"
    by (simp add: relay_turn_def case_prod_beta split: option.split)
  have "\<exists>ms. ls_charged (fst (on_event v ev st)) = ls_charged st @ ms \<and>
     sum_list (map snd ms) = bits_of (from_peer ev) + bits_of (from_stream ev) \<and>
     (\<forall>m \<in> set ms. fst m = (ls_blacked st \<or> ls_downgrade st))"
    by (cases ev) (simp_all add: on_event_def Let_def bits_of_def)
  then show "\<exists>ms. ls_charged (fst (relay_turn ip t v ev st)) = ls_charged st @ ms \<and>
     sum_list (map snd ms) = bits_of (from_peer ev) + bits_of (from_stream ev) \<and>
     (\<forall>m \<in> set ms. fst m = (ls_blacked st \<or> ls_downgrade st))"
    by (simp add: relay_turn_def case_prod_beta split: option.split)
qed

subsection \<open>A whole run\<close>

text \<open>The events a run took, of those that came.\<close>

definition taken :: "'a list \<Rightarrow> 'a list \<Rightarrow> 'a list" where
  "taken evs rest = take (length evs - length rest) evs"

lemma relay_loop_rest: "relay_loop ip t evs st = (st', x, rest) \<Longrightarrow> length rest \<le> length evs"
proof (induction evs arbitrary: st)
  case (Cons e evs)
  obtain v ev where e: "e = (v, ev)" by (cases e)
  obtain s1 y where turn: "relay_turn ip t v ev st = (s1, y)" by fastforce
  show ?case
  proof (cases y)
    case None
    with Cons.prems e turn have "relay_loop ip t evs s1 = (st', x, rest)" by simp
    from Cons.IH [OF this] show ?thesis by simp
  qed (use Cons.prems e turn in auto)
qed simp

lemma relay_loop_passed:
  "relay_loop ip t evs st = (st', x, rest) \<Longrightarrow> x \<noteq> Some SendError \<Longrightarrow>
     ls_to_stream st' = ls_to_stream st @ passed from_peer (taken evs rest) \<and>
     ls_to_peer st' = ls_to_peer st @ passed from_stream (taken evs rest)"
proof (induction evs arbitrary: st)
  case (Cons e evs)
  obtain v ev where e: "e = (v, ev)" by (cases e)
  obtain s1 y where turn: "relay_turn ip t v ev st = (s1, y)" by fastforce
  show ?case
  proof (cases y)
    case None
    with Cons.prems e turn have run: "relay_loop ip t evs s1 = (st', x, rest)" by simp
    have "taken (e # evs) rest = (v, ev) # taken evs rest"
      using relay_loop_rest [OF run] e by (simp add: taken_def Suc_diff_le)
    with Cons.IH [OF run Cons.prems(2)] relay_turn_passed [OF turn] None
    show ?thesis by (simp add: passed_Cons [of _ "(v, ev)" "taken evs rest"])
  next
    case (Some z)
    with Cons.prems e turn have "st' = s1" "x = Some z" "rest = evs" by simp_all
    with relay_turn_passed [OF turn] Cons.prems(2) Some e show ?thesis by (simp add: taken_def)
  qed
qed (simp add: taken_def)

text \<open>
  The relay is transparent: unless a send failed, what each end was sent is exactly, byte for byte and in
  order, what the other end delivered in the events the loop took, whatever the lists, the clocks and the
  throttling did.
\<close>

theorem relay_transparent:
  assumes "relay_loop (relay_ip addr) threshold evs (loop_init now) = (st, x, rest)"
    and "x \<noteq> Some SendError"
  shows "concat (ls_to_stream st) = concat (map (from_peer \<circ> snd) (taken evs rest)) \<and>
    concat (ls_to_peer st) = concat (map (from_stream \<circ> snd) (taken evs rest))"
  using relay_loop_passed [OF assms] by (simp add: loop_init_def)

definition quiet_turn :: turn where
  "quiet_turn =
     \<lparr>tn_now = 5, tn_after = 5, tn_lists = \<lparr>blacklist = {}, blocklist = {}\<rparr>, tn_start_check = 0, tn_sent = True\<rparr>"

lemma quiet_every_second: "ls_tm st = 5 \<Longrightarrow> every_second ip t quiet_turn st = (st, None)"
  by (simp add: every_second_def quiet_turn_def Let_def)

lemma relay_transparent_witness:
  "\<exists>st. relay_loop (relay_ip (SocketV4 1 2)) 7 [(quiet_turn, PeerData [1, 2]), (quiet_turn, StreamData [3]),
      (quiet_turn, PeerData [4]), (quiet_turn, StreamEnd), (quiet_turn, Tick)] (loop_init 5)
      = (st, Some Closed, [(quiet_turn, Tick)]) \<and>
    concat (ls_to_stream st) = [1, 2, 4] \<and> concat (ls_to_peer st) = [3]"
proof -
  let ?evs = "[(quiet_turn, PeerData [1, 2]), (quiet_turn, StreamData [3]), (quiet_turn, PeerData [4]),
      (quiet_turn, StreamEnd), (quiet_turn, Tick)]"
  have sent: "tn_sent quiet_turn" by (simp add: quiet_turn_def)
  obtain st where run: "relay_loop (relay_ip (SocketV4 1 2)) 7 ?evs (loop_init 5)
      = (st, Some Closed, [(quiet_turn, Tick)])"
    by (simp add: relay_turn_def on_event_def quiet_every_second loop_init_def sent Let_def)
  from relay_transparent [OF run] run show ?thesis by (simp add: taken_def)
qed

text \<open>
  Every byte is paid for: the total a relay reports is the number of bits of all messages
  it took in either direction, modulo the word size, and exactly as much was charged to the rate limiters.
\<close>

theorem relay_accounted:
  assumes "relay_loop ip threshold evs (loop_init now) = (st, x, rest)"
  shows "ls_total st = (\<Sum>e \<leftarrow> taken evs rest. bits_of (from_peer (snd e)) + bits_of (from_stream (snd e))) \<and>
    sum_list (map snd (ls_charged st)) = ls_total st"
proof -
  have "ls_total st = ls_total s + (\<Sum>e \<leftarrow> taken evs rest. bits_of (from_peer (snd e)) + bits_of (from_stream (snd e))) \<and>
      sum_list (map snd (ls_charged st)) = sum_list (map snd (ls_charged s)) +
        (\<Sum>e \<leftarrow> taken evs rest. bits_of (from_peer (snd e)) + bits_of (from_stream (snd e)))"
    if "relay_loop ip threshold evs s = (st, x, rest)" for s
    using that
  proof (induction evs arbitrary: s)
    case (Cons e evs)
    obtain v ev where e: "e = (v, ev)" by (cases e)
    obtain s1 y where turn: "relay_turn ip threshold v ev s = (s1, y)" by fastforce
    note counts = relay_turn_counts [of ip threshold v ev s]
    have total: "ls_total s1 = ls_total s + (bits_of (from_peer ev) + bits_of (from_stream ev))"
      using counts(1) turn by (simp add: add.assoc)
    obtain ms where ms: "ls_charged s1 = ls_charged s @ ms"
      "sum_list (map snd ms) = bits_of (from_peer ev) + bits_of (from_stream ev)"
      using counts(2) turn by auto
    show ?case
    proof (cases y)
      case None
      with Cons.prems e turn have run: "relay_loop ip threshold evs s1 = (st, x, rest)" by simp
      have "taken (e # evs) rest = e # taken evs rest"
        using relay_loop_rest [OF run] by (simp add: taken_def Suc_diff_le)
      with Cons.IH [OF run] total ms e show ?thesis by (simp add: algebra_simps)
    next
      case (Some z)
      with Cons.prems e turn have "st = s1" "rest = evs" by simp_all
      with total ms e show ?thesis by (simp add: taken_def)
    qed
  qed (simp add: taken_def)
  from this [OF assms] show ?thesis by (simp add: loop_init_def)
qed

lemma relay_accounted_witness:
  "\<exists>st. relay_loop ''ip'' 7 [(quiet_turn, PeerData [1, 2]), (quiet_turn, StreamData [3])] (loop_init 5)
      = (st, None, []) \<and> ls_total st = 24 \<and> sum_list (map snd (ls_charged st)) = 24"
proof -
  let ?evs = "[(quiet_turn, PeerData [1, 2]), (quiet_turn, StreamData [3])]"
  have sent: "tn_sent quiet_turn" by (simp add: quiet_turn_def)
  obtain st where run: "relay_loop ''ip'' 7 ?evs (loop_init 5) = (st, None, [])"
    by (simp add: relay_turn_def on_event_def quiet_every_second loop_init_def sent Let_def)
  from relay_accounted [OF run] run show ?thesis by (simp add: taken_def bits_of_def)
qed

subsection \<open>Throttling\<close>

lemma relay_turn_downgrade:
  "relay_turn ip t v ev st = (st', x) \<Longrightarrow> ls_downgrade st \<Longrightarrow> ls_downgrade st'"
  by (cases ev) (auto simp: relay_turn_def on_event_def every_second_def Let_def split: if_splits)

text \<open>
  A downgrade is for good: once a relay has been downgraded it stays so, and from then on every message in either direction is
  charged to the slow limiter, whatever the blacklist says later.
\<close>

theorem downgrade_sticks:
  assumes "relay_loop ip threshold evs st = (st', x, rest)" and "ls_downgrade st"
  shows "ls_downgrade st' \<and> (\<exists>ms. ls_charged st' = ls_charged st @ ms \<and> (\<forall>m \<in> set ms. fst m))"
  using assms
proof (induction evs arbitrary: st)
  case (Cons e evs)
  obtain v ev where e: "e = (v, ev)" by (cases e)
  obtain s1 y where turn: "relay_turn ip threshold v ev st = (s1, y)" by fastforce
  have down: "ls_downgrade s1" by (rule relay_turn_downgrade [OF turn Cons.prems(2)])
  obtain ms where ms: "ls_charged s1 = ls_charged st @ ms" "\<forall>m \<in> set ms. fst m"
    using relay_turn_counts(2) [of ip threshold v ev st] turn Cons.prems(2) by auto
  show ?case
  proof (cases y)
    case None
    with Cons.prems(1) e turn have "relay_loop ip threshold evs s1 = (st', x, rest)" by simp
    from Cons.IH [OF this down] ms show ?thesis by auto
  next
    case (Some z)
    with Cons.prems(1) e turn down ms show ?thesis by auto
  qed
qed simp

lemma downgrade_sticks_witness:
  "\<exists>st'. relay_loop ''ip'' 7 [(quiet_turn, PeerData [1, 2])] ((loop_init 5)\<lparr>ls_downgrade := True\<rparr>)
      = (st', None, []) \<and> ls_downgrade st' \<and> (\<forall>m \<in> set (ls_charged st'). fst m)"
proof -
  let ?st = "(loop_init 5)\<lparr>ls_downgrade := True\<rparr>"
  have sent: "tn_sent quiet_turn" by (simp add: quiet_turn_def)
  obtain st' where run: "relay_loop ''ip'' 7 [(quiet_turn, PeerData [1, 2])] ?st = (st', None, [])"
    by (simp add: relay_turn_def on_event_def quiet_every_second loop_init_def sent Let_def)
  from downgrade_sticks [OF run] run show ?thesis by (auto simp: loop_init_def)
qed

subsection \<open>The name an address is looked up by\<close>

lemma relay_turn_unlisted:
  assumes "relay_turn ip t v ev st = (st', x)" and "ip \<notin> blacklist (tn_lists v)" and "ip \<notin> blocklist (tn_lists v)"
    and "\<not> ls_blacked st"
  shows "\<not> ls_blacked st' \<and> x \<noteq> Some Blocked"
  using assms
  by (cases ev) (auto simp: relay_turn_def on_event_def every_second_def Let_def split: if_splits)

text \<open>
  C32. An IPv4 client of a dual-stack socket escapes both lists while it is relayed: \<open>handle_connection\<close> looks it up by
  its IPv4 text, \<open>relay\<close> by the text of the socket's mapped IPv6 address. With lists of IPv4 addresses only, however
  long the relay runs and even when the lists name the client, it is never throttled as blacklisted and never cut off.
\<close>

theorem mapped_client_escapes_lists:
  assumes "sa_ip addr = IpV6 a"
    and "\<forall>e \<in> set evs. blacklist (tn_lists (fst e)) \<union> blocklist (tn_lists (fst e)) \<subseteq> range (\<lambda>b. show_ip (IpV4 b))"
    and "relay_loop (relay_ip addr) threshold evs (loop_init now) = (st, x, rest)"
  shows "\<not> ls_blacked st \<and> x \<noteq> Some Blocked"
proof -
  have name: "relay_ip addr \<notin> range (\<lambda>b. show_ip (IpV4 b))"
    using show_ip_inj [of "sa_ip addr"] assms(1) unfolding relay_ip_def by (metis imageE ip_addr.distinct(1))
  have "\<not> ls_blacked st \<and> x \<noteq> Some Blocked"
    if "relay_loop (relay_ip addr) threshold evs s = (st, x, rest)" "\<not> ls_blacked s" for s
    using that assms(2)
  proof (induction evs arbitrary: s)
    case (Cons e evs)
    obtain v ev where e: "e = (v, ev)" by (cases e)
    obtain s1 y where turn: "relay_turn (relay_ip addr) threshold v ev s = (s1, y)" by fastforce
    have "blacklist (tn_lists v) \<union> blocklist (tn_lists v) \<subseteq> range (\<lambda>b. show_ip (IpV4 b))"
      using Cons.prems(3) e by simp
    then have "relay_ip addr \<notin> blacklist (tn_lists v)" "relay_ip addr \<notin> blocklist (tn_lists v)"
      using name by blast+
    from relay_turn_unlisted [OF turn this Cons.prems(2)]
    have next_ok: "\<not> ls_blacked s1" "y \<noteq> Some Blocked" by simp_all
    show ?case
    proof (cases y)
      case None
      with Cons.prems(1) e turn have "relay_loop (relay_ip addr) threshold evs s1 = (st, x, rest)" by simp
      from Cons.IH [OF this next_ok(1)] Cons.prems(3) show ?thesis by simp
    qed (use Cons.prems(1) e turn next_ok in auto)
  qed simp
  from this [OF assms(3)] show ?thesis by (simp add: loop_init_def)
qed

text \<open>The client 0.0.0.1, on both lists, as the mapped address ::ffff:0.0.0.1.\<close>

lemma mapped_client_escapes_lists_witness:
  "\<exists>st x rest. relay_loop (relay_ip (SocketV6 281470681743361 80 0 0)) 7
      [(\<lparr>tn_now = 0, tn_after = 2000000000,
         tn_lists = \<lparr>blacklist = {show_ip (IpV4 1)}, blocklist = {show_ip (IpV4 1)}\<rparr>,
         tn_start_check = 0, tn_sent = True\<rparr>, PeerData [1])] (loop_init 0) = (st, x, rest) \<and>
    to_ipv4 281470681743361 = Some 1 \<and> \<not> ls_blacked st \<and> x \<noteq> Some Blocked"
proof -
  let ?evs = "[(\<lparr>tn_now = 0, tn_after = 2000000000,
         tn_lists = \<lparr>blacklist = {show_ip (IpV4 1)}, blocklist = {show_ip (IpV4 1)}\<rparr>,
         tn_start_check = 0, tn_sent = True\<rparr>, PeerData [1])]"
  obtain st x rest where run: "relay_loop (relay_ip (SocketV6 281470681743361 80 0 0)) 7 ?evs (loop_init 0)
      = (st, x, rest)" by (metis prod.exhaust)
  have "\<forall>e \<in> set ?evs. blacklist (tn_lists (fst e)) \<union> blocklist (tn_lists (fst e))
      \<subseteq> range (\<lambda>b. show_ip (IpV4 b))" by auto
  from mapped_client_escapes_lists [OF _ this run] have "\<not> ls_blacked st \<and> x \<noteq> Some Blocked" by simp
  moreover have "to_ipv4 281470681743361 = Some 1" unfolding to_ipv4_def by code_simp
  ultimately show ?thesis using run by blast
qed

end
