(* ===== verification/Relay_Streams.thy ===== *)
theory Relay_Streams
  imports Relay_Pairing Relay_Loop
begin

text \<open>
  The two kinds of stream behind \<open>StreamTrait\<close> in \<open>src/relay_server.rs\<close>: what \<open>recv\<close> makes of what arrives, what \<open>send_raw\<close>
  puts on the wire, and a whole relay between two such streams. \<open>FramedStream\<close> is not part of the repository: its \<open>next\<close>
  hands out frames (or chunks, once raw), and the model takes those as they come.
\<close>

text \<open>A websocket message, with the constructors of \<open>tungstenite::Message\<close>.\<close>

datatype ws_message = Text string | Binary bytes | Ping bytes | Pong bytes | CloseFrame | RawFrame bytes

text \<open>What \<open>next\<close> of a stream returns: the end, an error, or an item.\<close>

type_synonym 'a arrived = "(string + 'a) option"

fun ws_recv :: "ws_message arrived \<Rightarrow> bytes arrived" where
  "ws_recv None = None"
| "ws_recv (Some (Inl err)) = Some (Inl err)"
| "ws_recv (Some (Inr (Binary bs))) = Some (Inr bs)"
| "ws_recv (Some (Inr _)) = Some (Inr [])"

definition framed_recv :: "bytes arrived \<Rightarrow> bytes arrived" where
  "framed_recv item = item"

datatype wire_item = WsItem "ws_message arrived" | FramedItem "bytes arrived"

fun stream_recv :: "wire_item \<Rightarrow> bytes arrived" where
  "stream_recv (WsItem i) = ws_recv i"
| "stream_recv (FramedItem i) = framed_recv i"

datatype wire_out = WsOut ws_message | FramedOut bytes

definition send_raw :: "relay_stream \<Rightarrow> bytes \<Rightarrow> wire_out" where
  "send_raw st bs = (if rs_is_ws st then WsOut (Binary bs) else FramedOut bs)"

text \<open>The first message of \<open>make_pair_\<close>: \<^const>\<open>None\<close> outside is the timeout of 30 s.\<close>

fun first_frame :: "wire_item option \<Rightarrow> bytes option" where
  "first_frame None = None"
| "first_frame (Some i) = (case stream_recv i of Some (Inr bs) \<Rightarrow> Some bs | _ \<Rightarrow> None)"

text \<open>What a turn of \<open>select!\<close> meets: an item of either stream, or the timer.\<close>

datatype arrival = AtPeer wire_item | AtStream wire_item | Timer

fun event_of :: "arrival \<Rightarrow> loop_event" where
  "event_of (AtPeer i) = (case stream_recv i of Some (Inr bs) \<Rightarrow> PeerData bs | _ \<Rightarrow> PeerEnd)"
| "event_of (AtStream i) = (case stream_recv i of Some (Inr bs) \<Rightarrow> StreamData bs | _ \<Rightarrow> StreamEnd)"
| "event_of Timer = Tick"

text \<open>
  A relay between \<open>stream\<close> and \<open>peer\<close>: what each was sent, why the loop ended, and how many arrivals were left.
\<close>

definition relay_between ::
  "relay_stream \<Rightarrow> relay_stream \<Rightarrow> socket_addr \<Rightarrow> usize \<Rightarrow> instant \<Rightarrow> (turn \<times> arrival) list \<Rightarrow>
     wire_out list \<times> wire_out list \<times> loop_exit option \<times> nat" where
  "relay_between stream peer addr threshold now arr =
     (case relay_loop (relay_ip addr) threshold (map (apsnd event_of) arr) (loop_init now) of
        (st, x, rest) \<Rightarrow>
          (map (send_raw stream) (ls_to_stream st), map (send_raw peer) (ls_to_peer st), x, length rest))"

text \<open>The messages with content that one stream delivered.\<close>

definition delivered :: "wire_item list \<Rightarrow> bytes list" where
  "delivered is = [bs. Some (Inr bs) \<leftarrow> map stream_recv is, bs \<noteq> []]"

definition peer_items :: "arrival list \<Rightarrow> wire_item list" where
  "peer_items as = [i. AtPeer i \<leftarrow> as]"

definition stream_items :: "arrival list \<Rightarrow> wire_item list" where
  "stream_items as = [i. AtStream i \<leftarrow> as]"

lemma delivered_Cons: "delivered (i # is) = delivered [i] @ delivered is"
  by (simp add: delivered_def)

lemma items_Cons:
  "peer_items (a # as) = peer_items [a] @ peer_items as"
  "stream_items (a # as) = stream_items [a] @ stream_items as"
  by (simp_all add: peer_items_def stream_items_def)

lemma passed_event:
  "passed from_peer [apsnd event_of (v, a)] = delivered (peer_items [a])"
  "passed from_stream [apsnd event_of (v, a)] = delivered (stream_items [a])"
  by (cases a; auto simp: passed_def delivered_def peer_items_def stream_items_def
      split: option.splits sum.splits)+

lemma delivered_append: "delivered (is @ js) = delivered is @ delivered js"
  by (simp add: delivered_def)

lemma passed_events:
  "passed from_peer (map (apsnd event_of) arr) = delivered (peer_items (map snd arr))"
  "passed from_stream (map (apsnd event_of) arr) = delivered (stream_items (map snd arr))"
proof (induction arr)
  case (Cons e arr)
  obtain v a where e: "e = (v, a)" by (cases e)
  { case 1
    show ?case using Cons(1) passed_event(1) [of v a] e
      by (simp add: passed_Cons [of _ "(v, event_of a)" "map (apsnd event_of) arr"]
          items_Cons(1) [of a "map snd arr"] delivered_append) }
  { case 2
    show ?case using Cons(2) passed_event(2) [of v a] e
      by (simp add: passed_Cons [of _ "(v, event_of a)" "map (apsnd event_of) arr"]
          items_Cons(2) [of a "map snd arr"] delivered_append) }
qed (simp_all add: peer_items_def stream_items_def delivered_def)

text \<open>
  C15. A relay keeps messages whole: unless a send failed, each stream is sent, one for one and in order, the messages
  with content that the other delivered in the arrivals the loop took: none is split, joined, repeated or lost,
  whether the two are websockets, framed streams or one of each.
\<close>

theorem relay_keeps_messages:
  assumes "relay_between stream peer addr threshold now arr = (to_stream, to_peer, x, left)"
    and "x \<noteq> Some SendError"
  shows "to_stream = map (send_raw stream) (delivered (peer_items (map snd (take (length arr - left) arr)))) \<and>
    to_peer = map (send_raw peer) (delivered (stream_items (map snd (take (length arr - left) arr))))"
proof -
  obtain st rest where run: "relay_loop (relay_ip addr) threshold (map (apsnd event_of) arr) (loop_init now)
      = (st, x, rest)" and out: "to_stream = map (send_raw stream) (ls_to_stream st)"
      "to_peer = map (send_raw peer) (ls_to_peer st)" "left = length rest"
    using assms(1) by (auto simp: relay_between_def split: prod.splits)
  have "taken (map (apsnd event_of) arr) rest = map (apsnd event_of) (take (length arr - left) arr)"
    by (simp add: taken_def out take_map)
  with relay_loop_passed [OF run assms(2)] out show ?thesis by (simp add: loop_init_def passed_events)
qed

lemma relay_keeps_messages_witness:
  "\<exists>to_stream to_peer left. relay_between \<lparr>rs_task = 1, rs_is_ws = True, rs_raw = False\<rparr>
      \<lparr>rs_task = 0, rs_is_ws = False, rs_raw = False\<rparr> (SocketV4 1 2) 7 5
      [(quiet_turn, AtPeer (FramedItem (Some (Inr [1, 2])))), (quiet_turn, AtStream (WsItem (Some (Inr (Text ''a''))))),
       (quiet_turn, AtStream (WsItem (Some (Inr (Binary [3]))))), (quiet_turn, AtPeer (FramedItem (Some (Inr [4])))),
       (quiet_turn, AtStream (WsItem None)), (quiet_turn, Timer)]
      = (to_stream, to_peer, Some Closed, left) \<and>
    to_stream = [WsOut (Binary [1, 2]), WsOut (Binary [4])] \<and> to_peer = [FramedOut [3]]"
proof -
  let ?arr = "[(quiet_turn, AtPeer (FramedItem (Some (Inr [1, 2])))),
       (quiet_turn, AtStream (WsItem (Some (Inr (Text ''a''))))),
       (quiet_turn, AtStream (WsItem (Some (Inr (Binary [3]))))), (quiet_turn, AtPeer (FramedItem (Some (Inr [4])))),
       (quiet_turn, AtStream (WsItem None)), (quiet_turn, Timer)]"
  let ?s = "\<lparr>rs_task = 1, rs_is_ws = True, rs_raw = False\<rparr>"
  let ?p = "\<lparr>rs_task = 0, rs_is_ws = False, rs_raw = False\<rparr>"
  have sent: "tn_sent quiet_turn" by (simp add: quiet_turn_def)
  obtain to_stream to_peer where run:
    "relay_between ?s ?p (SocketV4 1 2) 7 5 ?arr = (to_stream, to_peer, Some Closed, 1)"
    by (simp add: relay_between_def relay_turn_def on_event_def quiet_every_second loop_init_def sent
        framed_recv_def Let_def)
  from relay_keeps_messages [OF run] run show ?thesis
    by (simp add: delivered_def peer_items_def stream_items_def framed_recv_def send_raw_def)
qed

subsection \<open>What keeps a relay alive\<close>

text \<open>
  Arrivals that carry nothing: messages of a websocket that are not binary, and the timer, never more than 30 s after the last of them.
\<close>

fun only_pings :: "instant \<Rightarrow> (turn \<times> arrival) list \<Rightarrow> bool" where
  "only_pings t0 [] = True"
| "only_pings t0 ((v, a) # arr) =
     (case a of
        Timer \<Rightarrow> elapsed_secs (tn_now v) t0 \<le> 30 \<and> only_pings t0 arr
      | AtPeer (WsItem (Some (Inr m))) \<Rightarrow> (\<nexists>bs. m = Binary bs) \<and> only_pings (tn_now v) arr
      | AtStream (WsItem (Some (Inr m))) \<Rightarrow> (\<nexists>bs. m = Binary bs) \<and> only_pings (tn_now v) arr
      | _ \<Rightarrow> False)"

lemma ws_recv_other: "(\<nexists>bs. m = Binary bs) \<Longrightarrow> ws_recv (Some (Inr m)) = Some (Inr [])"
  by (cases m) auto

lemma every_second_stays:
  "ip \<notin> blocklist (tn_lists v) \<Longrightarrow> snd (every_second ip t v st) = None"
  "ls_last_recv (fst (every_second ip t v st)) = ls_last_recv st"
  by (simp_all add: every_second_def Let_def)

lemma ping_turn:
  assumes "only_pings (ls_last_recv st) ((v, a) # arr)" and "ip \<notin> blocklist (tn_lists v)"
  obtains st' where "relay_turn ip t v (event_of a) st = (st', None)" "only_pings (ls_last_recv st') arr"
    "ls_total st' = ls_total st" "ls_to_stream st' = ls_to_stream st" "ls_to_peer st' = ls_to_peer st"
proof -
  obtain st1 where ev: "on_event v (event_of a) st = (st1, None)" and st1: "only_pings (ls_last_recv st1) arr"
      "ls_total st1 = ls_total st" "ls_to_stream st1 = ls_to_stream st" "ls_to_peer st1 = ls_to_peer st"
  proof (cases a)
    case Timer
    with assms(1) show ?thesis by (intro that [of st]) (simp_all add: on_event_def)
  next
    case (AtPeer i)
    with assms(1) obtain m where m: "i = WsItem (Some (Inr m))" "\<nexists>bs. m = Binary bs" "only_pings (tn_now v) arr"
      by (auto split: wire_item.splits option.splits sum.splits)
    show ?thesis by (rule that [of "account v [] st"])
        (use AtPeer m in \<open>simp_all add: on_event_def account_def bits_of_def Let_def ws_recv_other\<close>)
  next
    case (AtStream i)
    with assms(1) obtain m where m: "i = WsItem (Some (Inr m))" "\<nexists>bs. m = Binary bs" "only_pings (tn_now v) arr"
      by (auto split: wire_item.splits option.splits sum.splits)
    show ?thesis by (rule that [of "account v [] st"])
        (use AtStream m in \<open>simp_all add: on_event_def account_def bits_of_def Let_def ws_recv_other\<close>)
  qed
  show ?thesis
  proof (rule that [of "fst (every_second ip t v st1)"])
    show "relay_turn ip t v (event_of a) st = (fst (every_second ip t v st1), None)"
      using ev every_second_stays(1) [OF assms(2), of t st1] 
      by (cases "every_second ip t v st1") (simp add: relay_turn_def)
  qed (use st1 in \<open>simp_all add: every_second_stays(2)\<close>)
qed

text \<open>
  Pings hold a relay for ever and for nothing: while one of the two websockets sends any message that is not binary at least
  every 30 s, from an address that is not blocked, the relay never ends, sends nothing, and neither the total nor a limiter
  sees a bit.
\<close>

theorem pings_hold_relay:
  assumes "only_pings now arr" and "\<forall>e \<in> set arr. relay_ip addr \<notin> blocklist (tn_lists (fst e))"
  shows "relay_between stream peer addr threshold now arr = ([], [], None, 0) \<and>
    ls_total (fst (relay_loop (relay_ip addr) threshold (map (apsnd event_of) arr) (loop_init now))) = 0"
proof -
  have "\<exists>st'. relay_loop (relay_ip addr) threshold (map (apsnd event_of) arr) st = (st', None, []) \<and>
      ls_total st' = ls_total st \<and> ls_to_stream st' = ls_to_stream st \<and> ls_to_peer st' = ls_to_peer st"
    if "only_pings (ls_last_recv st) arr" for st
    using that assms(2)
  proof (induction arr arbitrary: st)
    case (Cons e arr)
    obtain v a where e: "e = (v, a)" by (cases e)
    with Cons.prems obtain st' where "relay_turn (relay_ip addr) threshold v (event_of a) st = (st', None)"
      and keep: "only_pings (ls_last_recv st') arr" "ls_total st' = ls_total st" "ls_to_stream st' = ls_to_stream st"
        "ls_to_peer st' = ls_to_peer st"
      by (metis ping_turn fst_conv list.set_intros(1))
    moreover from Cons.IH [OF keep(1)] Cons.prems(2) obtain st2 where
      "relay_loop (relay_ip addr) threshold (map (apsnd event_of) arr) st' = (st2, None, [])"
      "ls_total st2 = ls_total st'" "ls_to_stream st2 = ls_to_stream st'" "ls_to_peer st2 = ls_to_peer st'" by auto
    ultimately show ?case using e by simp
  qed simp
  from this [of "loop_init now"] assms(1) show ?thesis by (auto simp: relay_between_def loop_init_def)
qed

lemma pings_hold_relay_witness:
  "relay_between \<lparr>rs_task = 1, rs_is_ws = True, rs_raw = False\<rparr> \<lparr>rs_task = 0, rs_is_ws = True, rs_raw = False\<rparr>
    (SocketV4 1 2) 7 0
    [(quiet_turn\<lparr>tn_now := 3000000000, tn_after := 3000000000\<rparr>, Timer),
     (quiet_turn\<lparr>tn_now := 29000000000, tn_after := 29000000000\<rparr>, AtStream (WsItem (Some (Inr (Ping []))))),
     (quiet_turn\<lparr>tn_now := 57000000000, tn_after := 57000000000\<rparr>, Timer)] = ([], [], None, 0)"
  by (rule conjunct1 [OF pings_hold_relay])
    (simp_all add: quiet_turn_def clock_simps)

end
