(* ===== verification/Arguments.thy ===== *)
theory Arguments
  imports Text_Parsing
begin

text \<open>
  How the two programs get their settings: \<open>init_args\<close>, \<open>get_arg\<close> and \<open>get_arg_or\<close> of \<open>src/common.rs\<close>, \<open>main\<close> of
  \<open>src/main.rs\<close> (the rendezvous server) and of \<open>src/hbbr.rs\<close> (the relay server). The command line as \<open>clap\<close> splits it and
  the top section of an INI file as \<open>ini\<close> reads it are arguments. Text is taken to be ASCII.
\<close>

type_synonym variables = "string \<rightharpoonup> string"

type_synonym ini_section = "(string \<times> string) list"

definition arg_name :: "string \<Rightarrow> string" where
  "arg_name name = map (\<lambda>c. if c = CHR ''_'' then CHR ''-'' else c) (to_uppercase name)"

definition set_vars :: "ini_section \<Rightarrow> variables \<Rightarrow> variables" where
  "set_vars kvs env = fold (\<lambda>(k, v) env. env(arg_name k \<mapsto> v)) kvs env"

text \<open>A file that does not load, or has no top section, is passed over.\<close>

definition load_ini :: "ini_section option \<Rightarrow> variables \<Rightarrow> variables" where
  "load_ini sec env = (case sec of Some kvs \<Rightarrow> set_vars kvs env | None \<Rightarrow> env)"

definition value_of :: "string \<Rightarrow> (string \<times> string list) list \<Rightarrow> string option" where
  "value_of name matches =
     (case map_of matches name of Some (v # _) \<Rightarrow> Some v | _ \<Rightarrow> None)"

definition init_args ::
  "(string \<Rightarrow> ini_section option) \<Rightarrow> (string \<times> string list) list \<Rightarrow> variables \<Rightarrow> variables" where
  "init_args load matches env0 =
     (let env1 = load_ini (load ''.env'') env0;
          env2 = (case value_of ''config'' matches of Some path \<Rightarrow> load_ini (load path) env1 | None \<Rightarrow> env1)
      in fold (\<lambda>(k, vs) env. case vs of v # _ \<Rightarrow> env(arg_name k \<mapsto> v) | [] \<Rightarrow> env) matches env2)"

definition get_arg_or :: "string \<Rightarrow> string \<Rightarrow> variables \<Rightarrow> string" where
  "get_arg_or name dflt env = (case env (arg_name name) of Some v \<Rightarrow> v | None \<Rightarrow> dflt)"

definition get_arg :: "string \<Rightarrow> variables \<Rightarrow> string" where
  "get_arg name env = get_arg_or name [] env"

subsection \<open>The two programs\<close>

text \<open>\<open>start(port, serial, key, rmem)\<close> or the error that ends the program.\<close>

datatype start_error = Bad_Number | Invalid_Port

definition hbbs_main ::
  "nat \<Rightarrow> variables \<Rightarrow> start_error + (int \<times> int \<times> string \<times> usize)" where
  "hbbs_main rendezvous_port env =
     (case parse_i32 (get_arg_or ''port'' (show_nat rendezvous_port) env) of
        None \<Rightarrow> Inl Bad_Number
      | Some port \<Rightarrow>
          if port < 3 then Inl Invalid_Port
          else Inr (port,
            (case parse_i32 (get_arg ''serial'' env) of Some n \<Rightarrow> n | None \<Rightarrow> 0),
            get_arg_or ''key'' ''-'' env,
            (case parse_usize (get_arg ''rmem'' env) of Some n \<Rightarrow> n | None \<Rightarrow> 0)))"

text \<open>The ports of \<open>start\<close>: \<open>i32\<close> arithmetic, then cast to \<open>u16\<close> by the listeners.\<close>

definition hbbs_ports :: "int \<Rightarrow> u16 \<times> u16 \<times> u16" where
  "hbbs_ports port =
     (let p = word_of_int port :: i32 in (ucast p, ucast (p - 1), ucast (p + 2)))"

text \<open>The relay server writes \<open>.env\<close> keys unchanged, and derives its port from \<open>PORT\<close>.\<close>

definition hbbr_env :: "ini_section option \<Rightarrow> variables \<Rightarrow> variables" where
  "hbbr_env sec env =
     (case sec of Some kvs \<Rightarrow> fold (\<lambda>(k, v) env. env(k \<mapsto> v)) kvs env | None \<Rightarrow> env)"

definition hbbr_port :: "nat \<Rightarrow> variables \<Rightarrow> int" where
  "hbbr_port relay_port env =
     (case env ''PORT'' of
        Some s \<Rightarrow>
          (let v = (case parse_i32 s of Some n \<Rightarrow> n | None \<Rightarrow> 0)
           in if 0 < v then sint (word_of_int v + 1 :: i32) else int relay_port)
      | None \<Rightarrow> int relay_port)"

definition hbbr_main ::
  "nat \<Rightarrow> (string \<Rightarrow> ini_section option) \<Rightarrow> (string \<times> string list) list \<Rightarrow> variables \<Rightarrow> string \<times> string" where
  "hbbr_main relay_port load matches env0 =
     (let env = hbbr_env (load ''.env'') env0
      in ((case value_of ''port'' matches of Some p \<Rightarrow> p | None \<Rightarrow> show_int (hbbr_port relay_port env)),
          (case value_of ''key'' matches of
             Some k \<Rightarrow> k
           | None \<Rightarrow> (case env ''KEY'' of Some k \<Rightarrow> k | None \<Rightarrow> []))))"

text \<open>\<open>start\<close> of the relay server: a \<open>u16\<close>, and the websocket port two above it, which wraps in a release build.\<close>

definition relay_ports :: "string \<Rightarrow> start_error + (u16 \<times> u16)" where
  "relay_ports port =
     (case parse_plain (case port of c # cs \<Rightarrow> if c = CHR ''+'' then cs else port | [] \<Rightarrow> []) of
        Some n \<Rightarrow> if n < 65536 then Inr (word_of_nat n, word_of_nat n + 2) else Inl Bad_Number
      | None \<Rightarrow> Inl Bad_Number)"

subsection \<open>Which source wins\<close>

definition last_of :: "string \<Rightarrow> ini_section \<Rightarrow> string option" where
  "last_of name kvs = map_of (rev (map (\<lambda>(k, v). (arg_name k, v)) kvs)) name"

lemma set_vars_lookup:
  "set_vars kvs env name = (case last_of name kvs of Some v \<Rightarrow> Some v | None \<Rightarrow> env name)"
proof (induction kvs arbitrary: env)
  case (Cons kv kvs)
  obtain k v where kv: "kv = (k, v)" by (cases kv)
  have "set_vars (kv # kvs) env = set_vars kvs (env(arg_name k \<mapsto> v))" by (simp add: set_vars_def kv)
  with Cons show ?case by (simp add: kv last_of_def map_add_def split: option.split)
qed (simp add: set_vars_def last_of_def)

definition from_ini :: "string \<Rightarrow> ini_section option \<Rightarrow> string option" where
  "from_ini name sec = (case sec of Some kvs \<Rightarrow> last_of name kvs | None \<Rightarrow> None)"

lemma load_ini_lookup:
  "load_ini sec env name = (case from_ini name sec of Some v \<Rightarrow> Some v | None \<Rightarrow> env name)"
  by (simp add: load_ini_def from_ini_def set_vars_lookup split: option.split)

definition from_line :: "string \<Rightarrow> (string \<times> string list) list \<Rightarrow> string option" where
  "from_line name matches =
     map_of (rev (map (\<lambda>(k, vs). (arg_name k, hd vs)) (filter (\<lambda>m. snd m \<noteq> []) matches))) name"

lemma line_lookup:
  "fold (\<lambda>(k, vs) env. case vs of v # _ \<Rightarrow> env(arg_name k \<mapsto> v) | [] \<Rightarrow> env) matches env name
     = (case from_line name matches of Some v \<Rightarrow> Some v | None \<Rightarrow> env name)"
proof (induction matches arbitrary: env)
  case (Cons m ms)
  obtain k vs where m: "m = (k, vs)" by (cases m)
  show ?case
    using Cons by (cases vs) (auto simp: m from_line_def map_add_def split: option.split)
qed (simp add: from_line_def)

text \<open>
  A setting comes from the first of four places that names it: the command line, the file given with
  \<open>--config\<close>, the file \<open>.env\<close>, the environment; within a file the last line counts. Otherwise the default holds.
\<close>

theorem setting_precedence:
  "get_arg_or name dflt (init_args load matches env) =
     (case from_line (arg_name name) matches of
        Some v \<Rightarrow> v
      | None \<Rightarrow>
          (case Option.bind (value_of ''config'' matches) (\<lambda>path. from_ini (arg_name name) (load path)) of
             Some v \<Rightarrow> v
           | None \<Rightarrow>
               (case from_ini (arg_name name) (load ''.env'') of
                  Some v \<Rightarrow> v
                | None \<Rightarrow> (case env (arg_name name) of Some v \<Rightarrow> v | None \<Rightarrow> dflt))))"
  by (auto simp: get_arg_or_def init_args_def Let_def line_lookup load_ini_lookup split: option.split)

text \<open>
  A variable with an underscore in its name is out of reach of the files and the command line: \<open>init_args\<close> never sets
  one, so \<open>ALWAYS_USE_RELAY\<close>, \<open>TEST_HBBS\<close> and \<open>DB_URL\<close>, which the server reads under these names, keep the value of the
  environment whatever \<open>.env\<close> says.
\<close>

theorem underscore_out_of_reach:
  assumes "CHR ''_'' \<in> set name"
  shows "init_args load matches env name = env name"
proof -
  have no: "\<forall>k. arg_name k \<noteq> name" using assms by (auto simp: arg_name_def)
  have "from_ini name sec = None" for sec
    using no by (fastforce simp: from_ini_def last_of_def map_of_eq_None_iff split: option.split)
  moreover have "from_line name matches = None"
    using no by (fastforce simp: from_line_def map_of_eq_None_iff)
  ultimately show ?thesis
    by (simp add: init_args_def line_lookup load_ini_lookup Let_def split: option.split)
qed

lemma underscore_out_of_reach_witness:
  "init_args (\<lambda>file. if file = ''.env'' then Some [(''ALWAYS_USE_RELAY'', ''Y'')] else None) [] (\<lambda>_. None)
     ''ALWAYS_USE_RELAY'' = None"
  by (rule underscore_out_of_reach) simp

lemma parse_i32_range: "parse_i32 s = Some n \<Longrightarrow> - 2147483648 \<le> n \<and> n \<le> 2147483647"
  by (simp add: parse_i32_def Let_def split: option.splits if_splits)

lemma hbbs_main_port: "hbbs_main d env = Inr (port, r) \<Longrightarrow> 3 \<le> port \<and> port \<le> 2147483647"
  using parse_i32_range by (auto simp: hbbs_main_def split: option.splits if_splits)

lemma hbbs_ports_mod:
  "hbbs_ports port = (p, q, r) \<Longrightarrow>
     uint p = port mod 65536 \<and> uint q = (port - 1) mod 65536 \<and> uint r = (port + 2) mod 65536"
proof -
  have cut: "uint (ucast (word_of_int n :: i32) :: u16) = n mod 65536" for n
    by (simp add: unsigned_ucast_eq unsigned_of_int take_bit_eq_mod mod_mod_cancel)
  assume "hbbs_ports port = (p, q, r)"
  then have "p = ucast (word_of_int port :: i32)" "q = ucast (word_of_int (port - 1) :: i32)"
    "r = ucast (word_of_int (port + 2) :: i32)"
    by (auto simp: hbbs_ports_def Let_def wi_hom_sub wi_hom_add)
  then show ?thesis using cut [of port] cut [of "port - 1"] cut [of "port + 2"] by simp
qed

text \<open>
  The three ports of the rendezvous server are valid and distinct for every port argument from 3 to 65533, and none of them is
  the argument's own value when it is 65536 or more: the upper end is not checked, and the number is cut to 16 bits.
\<close>

theorem ports_valid:
  assumes "hbbs_main d env = Inr (port, serial, key, rmem)"
  shows "if port \<le> 65533
    then (case hbbs_ports port of (p, q, r) \<Rightarrow>
      uint p = port \<and> uint q = port - 1 \<and> uint r = port + 2 \<and> distinct [p, q, r] \<and> 0 \<notin> {p, q, r})
    else 65536 \<le> port \<longrightarrow> uint (fst (hbbs_ports port)) = port mod 65536 \<and> uint (fst (hbbs_ports port)) \<noteq> port"
proof -
  have range: "3 \<le> port" "port \<le> 2147483647" using hbbs_main_port [OF assms] by auto
  obtain p q r where pqr: "hbbs_ports port = (p, q, r)" by (cases "hbbs_ports port")
  note mods = hbbs_ports_mod [OF pqr]
  show ?thesis
  proof (cases "port \<le> 65533")
    case True
    with range mods have "uint p = port" "uint q = port - 1" "uint r = port + 2" by auto
    with True range pqr show ?thesis by (auto simp: word_uint_eq_iff)
  next
    case False
    moreover have "65536 \<le> port \<Longrightarrow> port mod 65536 \<noteq> port"
      using pos_mod_bound [of 65536 port] by linarith
    ultimately show ?thesis using pqr mods by simp
  qed
qed

lemma hbbs_main_default: "hbbs_main 21116 (\<lambda>_. None) = Inr (21116, 0, ''-'', 0)"
  by (simp add: hbbs_main_def get_arg_or_def get_arg_def parse_i32_show)
    (simp add: parse_i32_def parse_usize_def parse_plain_def)

lemma ports_valid_witness:
  "hbbs_ports 21116 = (21116, 21115, 21118) \<and>
   (case hbbs_ports 21116 of (p, q, r) \<Rightarrow> uint p = 21116 \<and> distinct [p, q, r] \<and> 0 \<notin> {p, q, r})"
  using ports_valid [OF hbbs_main_default] by (simp add: hbbs_ports_def)

end
