(* ===== verification/Supervision.thy ===== *)
theory Supervision
  imports Server Arguments Relay_Admin
begin

text \<open>
  The sockets of the two servers and the loops around \<open>io_loop\<close> (\<open>start\<close>, \<open>create_udp_listener\<close> and
  \<open>create_tcp_listener\<close> of \<open>src/rendezvous_server.rs\<close>, \<open>start\<close> of \<open>src/relay_server.rs\<close>): how a server opens its ports, and what it does when a
  socket fails. The operating system is a parameter: what opening or closing a socket does to the machine, and
  whether it succeeds.
\<close>

record ('w, 'u, 'l) network =
  nw_udp :: "socket_addr \<Rightarrow> bool \<Rightarrow> usize \<Rightarrow> 'w \<Rightarrow> 'u option \<times> 'w"
  nw_tcp :: "u16 \<Rightarrow> 'w \<Rightarrow> 'l option \<times> 'w"
  nw_drop_udp :: "'u \<Rightarrow> 'w \<Rightarrow> 'w"
  nw_drop_tcp :: "'l \<Rightarrow> 'w \<Rightarrow> 'w"
  nw_local_addr :: "'l \<Rightarrow> socket_addr option"

text \<open>Every address of the machine, over IPv6 if that works.\<close>

definition create_udp_listener ::
  "('w, 'u, 'l) network \<Rightarrow> i32 \<Rightarrow> usize \<Rightarrow> 'w \<Rightarrow> 'u option \<times> 'w" where
  "create_udp_listener net port rmem w =
     (case nw_udp net (SocketV6 0 (ucast port) 0 0) True rmem w of
        (Some s, w') \<Rightarrow> (Some s, w')
      | (None, w') \<Rightarrow> nw_udp net (SocketV4 0 (ucast port)) True rmem w')"

definition create_tcp_listener :: "('w, 'u, 'l) network \<Rightarrow> i32 \<Rightarrow> 'w \<Rightarrow> 'l option \<times> 'w" where
  "create_tcp_listener net port w = nw_tcp net (ucast port) w"

record ('u, 'l) sockets =
  sk_udp :: 'u
  sk_tcp :: 'l
  sk_nat :: 'l
  sk_ws :: 'l

text \<open>The sockets \<open>start\<close> opens, in its order; the first that cannot be opened ends it.\<close>

definition open_sockets ::
  "('w, 'u, 'l) network \<Rightarrow> i32 \<Rightarrow> usize \<Rightarrow> 'w \<Rightarrow> ('u, 'l) sockets option \<times> 'w" where
  "open_sockets net port rmem w =
     (case create_udp_listener net port rmem w of
        (None, w1) \<Rightarrow> (None, w1)
      | (Some u, w1) \<Rightarrow>
          (case create_tcp_listener net port w1 of
             (None, w2) \<Rightarrow> (None, w2)
           | (Some l1, w2) \<Rightarrow>
               (case create_tcp_listener net (port - 1) w2 of
                  (None, w3) \<Rightarrow> (None, w3)
                | (Some l2, w3) \<Rightarrow>
                    (case create_tcp_listener net (port + 2) w3 of
                       (None, w4) \<Rightarrow> (None, w4)
                     | (Some l3, w4) \<Rightarrow>
                         (Some \<lparr>sk_udp = u, sk_tcp = l1, sk_nat = l2, sk_ws = l3\<rparr>, w4)))))"

text \<open>A socket that failed is closed and opened again.\<close>

fun reopen ::
  "('w, 'u, 'l) network \<Rightarrow> i32 \<Rightarrow> usize \<Rightarrow> loop_failure \<Rightarrow> ('u, 'l) sockets \<Rightarrow> 'w \<Rightarrow>
     ('u, 'l) sockets option \<times> 'w" where
  "reopen net port rmem UdpSocket ss w =
     (case create_udp_listener net port rmem (nw_drop_udp net (sk_udp ss) w) of
        (u, w') \<Rightarrow> (map_option (\<lambda>u. ss\<lparr>sk_udp := u\<rparr>) u, w'))"
| "reopen net port rmem Listener ss w =
     (case create_tcp_listener net port (nw_drop_tcp net (sk_tcp ss) w) of
        (l, w') \<Rightarrow> (map_option (\<lambda>l. ss\<lparr>sk_tcp := l\<rparr>) l, w'))"
| "reopen net port rmem Listener2 ss w =
     (case create_tcp_listener net (port - 1) (nw_drop_tcp net (sk_nat ss) w) of
        (l, w') \<Rightarrow> (map_option (\<lambda>l. ss\<lparr>sk_nat := l\<rparr>) l, w'))"
| "reopen net port rmem Listener3 ss w =
     (case create_tcp_listener net (port + 2) (nw_drop_tcp net (sk_ws ss) w) of
        (l, w') \<Rightarrow> (map_option (\<lambda>l. ss\<lparr>sk_ws := l\<rparr>) l, w'))"

text \<open>The address of the self test, from \<open>TEST_HBBS\<close> and the listener; \<open>no\<close> switches it off.\<close>

datatype startup_error = Database_Error | Bind_Error | No_Local_Address | Bad_Test_Address

definition test_target ::
  "('w, 'u, 'l) network \<Rightarrow> string \<Rightarrow> 'l \<Rightarrow> startup_error + socket_addr option" where
  "test_target net test_addr l =
     (if to_lowercase test_addr \<noteq> ''no''
      then (if test_addr = []
            then (case nw_local_addr net l of Some a \<Rightarrow> Inr (Some a) | None \<Rightarrow> Inl No_Local_Address)
            else (case parse_socket test_addr of Some a \<Rightarrow> Inr (Some a) | None \<Rightarrow> Inl Bad_Test_Address))
      else Inr None)"

text \<open>
  The process: the server with its sockets, or ended with an error. \<open>opened\<close> is what \<open>PeerMap::new\<close> finds: no usable
  database, or one with or without a table.
\<close>

datatype ('w, 'u, 'l) hbbs = Serving server "('u, 'l) sockets" 'w | Ended 'w

definition hbbs_start ::
  "('w, 'u, 'l) network \<Rightarrow> externals \<Rightarrow> db option option \<Rightarrow> inner \<Rightarrow> string \<Rightarrow> string \<Rightarrow> string \<Rightarrow> string \<Rightarrow>
     i32 \<Rightarrow> usize \<Rightarrow> 'w \<Rightarrow> startup_error + ('w, 'u, 'l) hbbs \<times> socket_addr option" where
  "hbbs_start net x opened cfg rendezvous_arg relay_arg always_var test_var port rmem w =
     (case opened of
        None \<Rightarrow> Inl Database_Error
      | Some file \<Rightarrow>
          (case open_sockets net port rmem w of
             (None, w') \<Rightarrow> Inl Bind_Error
           | (Some ss, w') \<Rightarrow>
               (case test_target net test_var (sk_tcp ss) of
                  Inl err \<Rightarrow> Inl err
                | Inr target \<Rightarrow>
                    Inr (Serving (start_server x file cfg rendezvous_arg relay_arg always_var) ss w', target))))"

text \<open>
  The main task: the server runs, a failed socket is opened again, or the process ends because that did not work. The machine
  changes by itself as well.
\<close>

inductive hbbs_step ::
  "externals \<Rightarrow> string \<Rightarrow> (env \<Rightarrow> bool) \<Rightarrow> ('w, 'u, 'l) network \<Rightarrow> i32 \<Rightarrow> usize \<Rightarrow>
     ('w, 'u, 'l) hbbs \<Rightarrow> ('w, 'u, 'l) hbbs \<Rightarrow> bool"
  for x :: externals and key :: string and P :: "env \<Rightarrow> bool" and net :: "('w, 'u, 'l) network"
    and port :: i32 and rmem :: usize where
  Run: "server_step x key P v v' \<Longrightarrow> hbbs_step x key P net port rmem (Serving v ss w) (Serving v' ss w)"
| Reopen: "sv_failed v = Some f \<Longrightarrow> reopen net port rmem f ss w = (Some ss', w') \<Longrightarrow>
    hbbs_step x key P net port rmem (Serving v ss w) (Serving (v\<lparr>sv_failed := None\<rparr>) ss' w')"
| Give_Up: "sv_failed v = Some f \<Longrightarrow> reopen net port rmem f ss w = (None, w') \<Longrightarrow>
    hbbs_step x key P net port rmem (Serving v ss w) (Ended w')"
| Machine: "hbbs_step x key P net port rmem (Serving v ss w) (Serving v ss w')"

inductive_cases hbbs_stepE: "hbbs_step x key P net port rmem p p'"
inductive_simps hbbs_step_ended [simp]: "hbbs_step x key P net port rmem (Ended w) p"


subsection \<open>The relay server\<close>

datatype ('w, 'l) hbbr = Relaying relay_admin 'l 'l 'w | Relay_Ended 'w

text \<open>One turn of the loop of \<open>start\<close>: two listeners, the parameters read again, a new limiter.\<close>

definition relay_listen ::
  "('w, 'u, 'l) network \<Rightarrow> float_ops \<Rightarrow> (string \<Rightarrow> string option) \<Rightarrow> u16 \<Rightarrow> u16 \<Rightarrow> relay_admin \<Rightarrow> 'w \<Rightarrow>
     ('w, 'l) hbbr" where
  "relay_listen net fo var port port2 a w =
     (case nw_tcp net port w of
        (None, w1) \<Rightarrow> Relay_Ended w1
      | (Some l, w1) \<Rightarrow>
          (case nw_tcp net port2 w1 of
             (None, w2) \<Rightarrow> Relay_Ended w2
           | (Some l2, w2) \<Rightarrow>
               Relaying (a\<lparr>ra_settings := start_settings fo var (ra_settings a)\<rparr>) l l2 w2))"

text \<open>\<open>start\<close> reads the lists before it looks at the port.\<close>

definition hbbr_start ::
  "('w, 'u, 'l) network \<Rightarrow> float_ops \<Rightarrow> (string \<Rightarrow> string option) \<Rightarrow> string option \<Rightarrow> string option \<Rightarrow> string \<Rightarrow> 'w \<Rightarrow>
     start_error + ('w, 'l) hbbr" where
  "hbbr_start net fo var blackfile blockfile port w =
     (let a = \<lparr>ra_lists = load_lists blackfile blockfile, ra_settings = default_settings\<rparr>
      in case relay_ports port of
           Inl err \<Rightarrow> Inl err
         | Inr (p, p2) \<Rightarrow> Inr (relay_listen net fo var p p2 a w))"

text \<open>
  An administrator's command, or a listener that fails: \<open>io_loop\<close> ends, both listeners are dropped, and the loop turns.
\<close>

inductive hbbr_step ::
  "('w, 'u, 'l) network \<Rightarrow> float_ops \<Rightarrow> (string \<Rightarrow> string option) \<Rightarrow> u16 \<Rightarrow> u16 \<Rightarrow> ('w, 'l) hbbr \<Rightarrow>
     ('w, 'l) hbbr \<Rightarrow> bool"
  for net :: "('w, 'u, 'l) network" and fo :: float_ops and var :: "string \<Rightarrow> string option"
    and port :: u16 and port2 :: u16 where
  Command: "admin_input arrived = Some cmd \<Longrightarrow> hbbr_step net fo var port port2 (Relaying a l l2 w)
    (Relaying (snd (relay_check_cmd fo order us cmd a)) l l2 w)"
| Accept_Failed: "hbbr_step net fo var port port2 (Relaying a l l2 w)
    (relay_listen net fo var port port2 a (nw_drop_tcp net l (nw_drop_tcp net l2 w)))"
| Relay_Machine: "hbbr_step net fo var port port2 (Relaying a l l2 w) (Relaying a l l2 w')"

subsection \<open>Every socket stays at its port\<close>

text \<open>What the operating system promises: a socket is at the port it was opened for.\<close>

definition honest :: "('w, 'u, 'l) network \<Rightarrow> ('u \<Rightarrow> u16) \<Rightarrow> ('l \<Rightarrow> u16) \<Rightarrow> bool" where
  "honest net up lp \<longleftrightarrow>
     (\<forall>a r m w s w'. nw_udp net a r m w = (Some s, w') \<longrightarrow> up s = sa_port a) \<and>
     (\<forall>p w l w'. nw_tcp net p w = (Some l, w') \<longrightarrow> lp l = p)"

definition at_ports :: "('u \<Rightarrow> u16) \<Rightarrow> ('l \<Rightarrow> u16) \<Rightarrow> i32 \<Rightarrow> ('u, 'l) sockets \<Rightarrow> bool" where
  "at_ports up lp port ss \<longleftrightarrow>
     up (sk_udp ss) = ucast port \<and> lp (sk_tcp ss) = ucast port \<and> lp (sk_nat ss) = ucast (port - 1) \<and>
     lp (sk_ws ss) = ucast (port + 2)"

lemma honest_udp:
  "honest net up lp \<Longrightarrow> create_udp_listener net port rmem w = (Some s, w') \<Longrightarrow> up s = ucast port"
  by (fastforce simp: honest_def create_udp_listener_def split: prod.splits option.splits)

lemma honest_tcp:
  "honest net up lp \<Longrightarrow> create_tcp_listener net port w = (Some l, w') \<Longrightarrow> lp l = ucast port"
  unfolding honest_def create_tcp_listener_def by blast

lemma open_sockets_ports:
  "honest net up lp \<Longrightarrow> open_sockets net port rmem w = (Some ss, w') \<Longrightarrow> at_ports up lp port ss"
  by (auto simp: open_sockets_def at_ports_def honest_udp honest_tcp split: prod.splits option.splits)

lemma reopen_ports:
  "honest net up lp \<Longrightarrow> reopen net port rmem f ss w = (Some ss', w') \<Longrightarrow> at_ports up lp port ss \<Longrightarrow>
     at_ports up lp port ss'"
  by (cases f) (auto simp: at_ports_def honest_udp honest_tcp split: prod.splits)

text \<open>
  The process seen without its sockets is the server: a socket that was opened again leaves no trace in the server's
  state, so what holds of every run of the server holds across failures.
\<close>

fun process_ok ::
  "externals \<Rightarrow> string \<Rightarrow> (env \<Rightarrow> bool) \<Rightarrow> ('u \<Rightarrow> u16) \<Rightarrow> ('l \<Rightarrow> u16) \<Rightarrow> i32 \<Rightarrow> server \<Rightarrow> ('w, 'u, 'l) hbbs \<Rightarrow> bool" where
  "process_ok x key P up lp port v0 (Serving v ss w) \<longleftrightarrow> server_reaches x key P v0 v \<and> at_ports up lp port ss"
| "process_ok x key P up lp port v0 (Ended w) \<longleftrightarrow> True"

lemma hbbs_step_process_ok:
  assumes "hbbs_step x key P net port rmem p p'" and "honest net up lp" and "process_ok x key P up lp port v0 p"
  shows "process_ok x key P up lp port v0 p'"
  using assms
  by (induction rule: hbbs_step.induct) (auto intro: server_reaches.Step server_reaches.Reopened reopen_ports)

lemma hbbs_run_process_ok:
  assumes "(hbbs_step x key P net port rmem)\<^sup>*\<^sup>* (Serving v0 ss0 w0) p" and "honest net up lp"
    and "at_ports up lp port ss0"
  shows "process_ok x key P up lp port v0 p"
  using assms by (induction rule: rtranclp_induct) (auto intro: server_reaches.Start hbbs_step_process_ok)

lemma hbbs_ports_cut:
  "uint (ucast (word_of_int n :: i32) :: u16) = n mod 65536"
  "uint (ucast (word_of_int n - 1 :: i32) :: u16) = (n - 1) mod 65536"
  "uint (ucast (word_of_int n + 2 :: i32) :: u16) = (n + 2) mod 65536"
  using hbbs_ports_mod [of n] by (auto simp: hbbs_ports_def Let_def)

lemma hbbs_start_parts:
  assumes "hbbs_start net x (Some file) cfg ra rl av tv port rmem w = Inr (Serving v0 ss0 w0, target)"
  shows "v0 = start_server x file cfg ra rl av" and "open_sockets net port rmem w = (Some ss0, w0)"
  using assms by (auto simp: hbbs_start_def split: prod.splits option.splits sum.splits)

text \<open>
  C22. Sockets come and go, identities stay: from a start that succeeded, through any sequence of steps, socket failures and
  re-openings, every id that was bound to a \<open>uuid\<close> still is (while the database answers reads), no connection has been answered
  twice, and the four sockets are at the port of the command line, the one below and the two above it, as 16-bit numbers.
\<close>

theorem service_survives_failures:
  assumes "honest net up lp" and "file_ok file"
    and "hbbs_start net x (Some file) cfg ra rl av tv (word_of_int port) rmem w = Inr (Serving v0 ss0 w0, target)"
    and "(hbbs_step x key e_db_read net (word_of_int port) rmem)\<^sup>*\<^sup>* (Serving v0 ss0 w0) (Serving v ss w')"
  shows "(\<forall>q u. bound_uuid x (pmap (sv_shared v0)) q = Some u \<longrightarrow> bound_uuid x (pmap (sv_shared v)) q = Some u) \<and>
    written k (sink_out (sv_shared v)) \<le> 1 \<and>
    uint (up (sk_udp ss)) = port mod 65536 \<and> uint (lp (sk_tcp ss)) = port mod 65536 \<and>
    uint (lp (sk_nat ss)) = (port - 1) mod 65536 \<and> uint (lp (sk_ws ss)) = (port + 2) mod 65536"
proof -
  note start = hbbs_start_parts [OF assms(3)]
  have "at_ports up lp (word_of_int port) ss0" by (rule open_sockets_ports [OF assms(1) start(2)])
  with hbbs_run_process_ok [OF assms(4,1)]
  have run: "server_reaches x key e_db_read v0 v" and ports: "at_ports up lp (word_of_int port) ss" by auto
  have "shared_ok (sv_shared v0)" unfolding start(1) by (rule start_server_ok [OF assms(2)])
  with server_reaches_bound [OF run]
  have "\<forall>q u. bound_uuid x (pmap (sv_shared v0)) q = Some u \<longrightarrow> bound_uuid x (pmap (sv_shared v)) q = Some u"
    by blast
  moreover have "server_sinks v" by (rule server_reaches_sinks [OF run]) (simp add: start(1) start_server_sinks)
  then have "written k (sink_out (sv_shared v)) \<le> 1" by (rule server_sinksD)
  ultimately show ?thesis using ports by (simp add: at_ports_def hbbs_ports_cut)
qed

text \<open>A machine on which every socket opens; a socket is its port.\<close>

definition open_net :: "(unit, u16, u16) network" where
  "open_net =
     \<lparr>nw_udp = \<lambda>a _ _ w. (Some (sa_port a), w), nw_tcp = \<lambda>p w. (Some p, w), nw_drop_udp = \<lambda>_ w. w,
      nw_drop_tcp = \<lambda>_ w. w, nw_local_addr = \<lambda>p. Some (SocketV6 0 p 0 0)\<rparr>"

lemma open_net_honest: "honest open_net id id"
  by (auto simp: honest_def open_net_def)

lemma open_net_sockets:
  "open_sockets open_net port rmem w =
     (Some \<lparr>sk_udp = ucast port, sk_tcp = ucast port, sk_nat = ucast (port - 1), sk_ws = ucast (port + 2)\<rparr>, w)"
  by (simp add: open_sockets_def create_udp_listener_def create_tcp_listener_def open_net_def)

text \<open>Port 21116; the websocket listener fails and is opened again.\<close>

lemma service_survives_failures_witness:
  "\<exists>ss :: (u16, u16) sockets. uint (sk_tcp ss) = 21116 \<and> uint (sk_nat ss) = 21115 \<and> uint (sk_ws ss) = 21118"
proof -
  let ?p = "word_of_int 21116 :: i32"
  define v0 where "v0 = start_server sample_ext None (h_inner sample_handle) [] [] []"
  define ss0 where "ss0 = (\<lparr>sk_udp = ucast ?p, sk_tcp = ucast ?p, sk_nat = ucast (?p - 1), sk_ws = ucast (?p + 2)\<rparr>
    :: (u16, u16) sockets)"
  let ?v1 = "v0\<lparr>sv_failed := Some Listener3\<rparr>"
  have 1: "hbbs_step sample_ext [] e_db_read open_net ?p 0 (Serving v0 ss0 ()) (Serving ?v1 ss0 ())"
    by (rule hbbs_step.Run [OF server_step.Select_Failed]) (simp add: v0_def start_server_def)
  have 2: "hbbs_step sample_ext [] e_db_read open_net ?p 0 (Serving ?v1 ss0 ())
      (Serving (?v1\<lparr>sv_failed := None\<rparr>) (ss0\<lparr>sk_ws := ucast (?p + 2)\<rparr>) ())"
    by (rule hbbs_step.Reopen [where f = Listener3]) (simp_all add: create_tcp_listener_def open_net_def)
  have "file_ok None" by (simp add: file_ok_def) (simp add: create_tables_def)
  moreover have "hbbs_start open_net sample_ext (Some None) (h_inner sample_handle) [] [] [] [] ?p 0 ()
      = Inr (Serving v0 ss0 (), Some (SocketV6 0 (ucast ?p) 0 0))"
    by (simp add: hbbs_start_def open_net_sockets test_target_def to_lowercase_def v0_def ss0_def)
      (simp add: open_net_def)
  ultimately have "uint (id (sk_tcp (ss0\<lparr>sk_ws := ucast (?p + 2)\<rparr>))) = 21116 mod 65536 \<and>
      uint (id (sk_nat (ss0\<lparr>sk_ws := ucast (?p + 2)\<rparr>))) = (21116 - 1) mod 65536 \<and>
      uint (id (sk_ws (ss0\<lparr>sk_ws := ucast (?p + 2)\<rparr>))) = (21116 + 2) mod 65536"
    using service_survives_failures [OF open_net_honest _ _ rtranclp.rtrancl_into_rtrancl [OF r_into_rtranclp [of "hbbs_step _ _ _ _ _ _", OF 1] 2]]
    by blast
  then show ?thesis by (intro exI [of _ "ss0\<lparr>sk_ws := ucast (?p + 2)\<rparr>"]) simp
qed

text \<open>While a failure is pending, the main loop stands still.\<close>

inductive_cases server_stepE: "server_step x key P v v'"

lemma failed_loop_waits:
  "server_step x key P v v' \<Longrightarrow> sv_failed v = Some f \<Longrightarrow> sv_failed v' = Some f \<and> sv_handle v' = sv_handle v"
  by (erule server_stepE) auto

lemma heartbeat_unanswered:
  assumes "x_decode x bs = Some (Some (RegisterPeer rp))" and "rp_id rp \<noteq> []" and "\<And>m. \<not> e_send e m addr"
    and "handle_udp x e key bs addr h s = (h', s', r)"
  shows "udp_failure r = Some UdpSocket \<and> udp_out s' = udp_out s"
  using assms
  by (auto simp: handle_udp_def handle_register_peer_def update_addr_def udp_send_def Let_def
      split: option.splits)

text \<open>
  C38. One heartbeat whose answer cannot be sent costs the server its UDP socket: the error of the send ends the main loop, which handles
  nothing more until the socket has been closed and opened again, and when that does not work, the process ends.
\<close>

theorem unsendable_answer_drops_socket:
  assumes "x_decode x bs = Some (Some (RegisterPeer rp))" and "rp_id rp \<noteq> []" and "\<forall>m. \<not> e_send e m addr"
    and "P e" and "sv_failed v = None" and "handle_udp x e key bs addr (sv_handle v) (sv_shared v) = (h', s', r)"
    and "v' = v\<lparr>sv_handle := h', sv_shared := s', sv_failed := udp_failure r\<rparr>"
  shows "hbbs_step x key P net port rmem (Serving v ss w) (Serving v' ss w) \<and>
    udp_out s' = udp_out (sv_shared v) \<and> sv_failed v' = Some UdpSocket \<and>
    (\<forall>v''. server_step x key P v' v'' \<longrightarrow> sv_failed v'' = Some UdpSocket \<and> sv_handle v'' = sv_handle v') \<and>
    hbbs_step x key P net port rmem (Serving v' ss w)
      (case create_udp_listener net port rmem (nw_drop_udp net (sk_udp ss) w) of
         (Some u, w') \<Rightarrow> Serving (v'\<lparr>sv_failed := None\<rparr>) (ss\<lparr>sk_udp := u\<rparr>) w'
       | (None, w') \<Rightarrow> Ended w')"
proof -
  have out: "udp_failure r = Some UdpSocket" "udp_out s' = udp_out (sv_shared v)"
    using heartbeat_unanswered [OF assms(1,2) _ assms(6)] assms(3) by auto
  then have failed: "sv_failed v' = Some UdpSocket" by (simp add: assms(7))
  have "hbbs_step x key P net port rmem (Serving v ss w) (Serving v' ss w)"
    unfolding assms(7) by (rule hbbs_step.Run [OF server_step.Datagram [where P = P and e = e and v = v, OF assms(5,4,6)]])
  moreover have "\<forall>v''. server_step x key P v' v'' \<longrightarrow> sv_failed v'' = Some UdpSocket \<and> sv_handle v'' = sv_handle v'"
    using failed_loop_waits failed by blast
  moreover have "hbbs_step x key P net port rmem (Serving v' ss w)
      (case create_udp_listener net port rmem (nw_drop_udp net (sk_udp ss) w) of
         (Some u, w') \<Rightarrow> Serving (v'\<lparr>sv_failed := None\<rparr>) (ss\<lparr>sk_udp := u\<rparr>) w'
       | (None, w') \<Rightarrow> Ended w')"
    by (auto split: prod.split option.split intro!: hbbs_step.Reopen [OF failed] hbbs_step.Give_Up [OF failed])
  ultimately show ?thesis using out failed by blast
qed

definition attack_peer :: externals where
  "attack_peer = sample_ext\<lparr>x_decode := \<lambda>_. Some (Some (RegisterPeer \<lparr>rp_id = ''peer-b'', rp_serial = 0\<rparr>))\<rparr>"

text \<open>The port was taken by another program in the meantime.\<close>

lemma unsendable_answer_drops_socket_witness:
  "\<exists>v' :: server. hbbs_step (attack_peer) [] (\<lambda>_. True) (open_net\<lparr>nw_udp := \<lambda>_ _ _ w. (None, w)\<rparr>) 21116 0
     (Serving v' \<lparr>sk_udp = 21116, sk_tcp = 21116, sk_nat = 21115, sk_ws = 21118\<rparr> ()) (Ended ())"
proof -
  let ?e = "(sample_env 0)\<lparr>e_send := \<lambda>_ _. False\<rparr>"
  let ?v = "sample_server 0"
  obtain h' s' r where h: "handle_udp attack_peer ?e [] [] (SocketV4 1 0) (sv_handle ?v) (sv_shared ?v) = (h', s', r)"
    by (metis prod_cases3)
  have "x_decode attack_peer [] = Some (Some (RegisterPeer \<lparr>rp_id = ''peer-b'', rp_serial = 0\<rparr>))"
    by (simp add: attack_peer_def)
  from unsendable_answer_drops_socket [where e = ?e and P = "\<lambda>_. True" and v = ?v and net = "open_net\<lparr>nw_udp := \<lambda>_ _ _ w. (None, w)\<rparr>"
      and port = 21116 and rmem = 0 and ss = "\<lparr>sk_udp = 21116, sk_tcp = 21116, sk_nat = 21115, sk_ws = 21118\<rparr>" and w = "()",
      OF this _ _ _ _ h refl]
  show ?thesis by (auto simp: create_udp_listener_def sample_server_def)
qed

subsection \<open>The relay server keeps its ports, its lists and its limit\<close>

lemma if_SomeE: "(if c then Some a else t) = Some r \<Longrightarrow> (r = a \<Longrightarrow> R) \<Longrightarrow> (t = Some r \<Longrightarrow> R) \<Longrightarrow> R"
  by (cases c) auto

lemma setting_cmd_keeps:
  assumes "(res, st') = setting_cmd parse store display args st" and "\<And>n. Q (store n st)" and "Q st"
  shows "Q st'"
  using assms by (auto simp: setting_cmd_def store_some_def split: list.splits option.splits)

lemma settings_cmd_limiter:
  assumes "settings_cmd fo name args st = Some (res, st')" and "st_limiter st = st_total_bandwidth st"
  shows "st_limiter st' = st_total_bandwidth st'"
proof -
  note keeps = setting_cmd_keeps [where Q = "\<lambda>st. st_limiter st = st_total_bandwidth st"]
  show ?thesis
    using assms(1) unfolding settings_cmd_def by (elim if_SomeE) ((erule keeps; simp add: assms(2))+, simp)
qed

lemma relay_check_cmd_limiter:
  assumes "st_limiter (ra_settings a) = st_total_bandwidth (ra_settings a)"
  shows "st_limiter (ra_settings (snd (relay_check_cmd fo order us cmd a))) =
    st_total_bandwidth (ra_settings (snd (relay_check_cmd fo order us cmd a)))"
  using assms settings_cmd_limiter
  by (auto simp: relay_check_cmd_def Let_def split: option.split)

fun relay_ok :: "('l \<Rightarrow> u16) \<Rightarrow> u16 \<Rightarrow> u16 \<Rightarrow> ('w, 'l) hbbr \<Rightarrow> bool" where
  "relay_ok lp port port2 (Relaying a l l2 w) \<longleftrightarrow>
     st_limiter (ra_settings a) = st_total_bandwidth (ra_settings a) \<and> lp l = port \<and> lp l2 = port2"
| "relay_ok lp port port2 (Relay_Ended w) \<longleftrightarrow> True"

lemma relay_listen_ok: "honest net up lp \<Longrightarrow> relay_ok lp port port2 (relay_listen net fo var port port2 a w)"
  unfolding relay_listen_def
  by (auto simp: start_settings_def Let_def honest_def split: prod.split option.split) blast+

lemma hbbr_step_ok:
  assumes "hbbr_step net fo var port port2 p p'" and "honest net up lp" and "relay_ok lp port port2 p"
  shows "relay_ok lp port port2 p'"
  using assms by (induction rule: hbbr_step.induct) (auto simp: relay_check_cmd_limiter relay_listen_ok)

text \<open>
  Whatever commands are given, each in the turn of the loop its session came in, and however often a listener fails, the relay server listens at its port and the one two above, and
  the shared limiter stands at the total bandwidth that the settings show.
\<close>

theorem relay_limit_in_force:
  assumes "honest net up lp" and "relay_ports port = Inr (p, p2)"
    and "hbbr_start net fo var blackfile blockfile port w0 = Inr start"
    and "(hbbr_step net fo var p p2)\<^sup>*\<^sup>* start (Relaying a l l2 w)"
  shows "st_limiter (ra_settings a) = st_total_bandwidth (ra_settings a) \<and> lp l = p \<and> lp l2 = p + 2"
proof -
  have "p2 = p + 2" using assms(2) by (auto simp: relay_ports_def split: option.splits if_splits)
  moreover have "relay_ok lp p p2 start"
    using assms(2,3) relay_listen_ok [OF assms(1)] by (auto simp: hbbr_start_def Let_def)
  with assms(4) have "relay_ok lp p p2 (Relaying a l l2 w)"
    by (induction rule: rtranclp_induct) (auto intro: hbbr_step_ok assms(1))
  ultimately show ?thesis by simp
qed

text \<open>A test's arithmetic: every text is the number three.\<close>

definition sample_floats :: float_ops where
  "sample_floats =
     \<lparr>fo_percent = \<lambda>_. Some 3, fo_mega = \<lambda>s. Some (if s = ''9'' then 9 else 3), fo_show_percent = \<lambda>_. [],
      fo_show_mega = \<lambda>_. [], fo_show_mb = \<lambda>_. []\<rparr>"

lemma relay_ports_sample: "relay_ports ''21117'' = Inr (21117, 21119)"
  by (simp add: relay_ports_def parse_plain_def is_digit_def) (simp add: read_base_def digit_val_def)

lemma relay_limit_in_force_witness:
  "\<exists>a :: relay_admin. st_limiter (ra_settings a) = st_total_bandwidth (ra_settings a) \<and>
     st_total_bandwidth (ra_settings a) = 9"
proof -
  define var :: "string \<Rightarrow> string option" where "var = [''TOTAL_BANDWIDTH'' \<mapsto> ''9'']"
  define a0 where "a0 = \<lparr>ra_lists = load_lists None None, ra_settings = default_settings\<rparr>"
  define a1 where "a1 = a0\<lparr>ra_settings := start_settings sample_floats var (ra_settings a0)\<rparr>"
  define a2 where "a2 = a1\<lparr>ra_settings := start_settings sample_floats var (ra_settings a1)\<rparr>"
  have "hbbr_start open_net sample_floats var None None ''21117'' () = Inr (Relaying a1 21117 21119 ())"
    by (simp add: hbbr_start_def relay_ports_sample relay_listen_def a1_def a0_def) (simp add: open_net_def)
  moreover have "hbbr_step open_net sample_floats var 21117 21119 (Relaying a1 21117 21119 ()) (Relaying a2 21117 21119 ())"
    using hbbr_step.Accept_Failed [of open_net sample_floats var 21117 21119 a1 21117 21119 "()"]
    by (simp add: relay_listen_def open_net_def a2_def)
  moreover have "st_total_bandwidth (ra_settings a2) = 9"
    by (simp add: a2_def start_settings_def check_params_def store_some_def var_def sample_floats_def)
  ultimately show ?thesis
    using relay_limit_in_force [OF open_net_honest relay_ports_sample, of sample_floats var None None "()"]
    by (intro exI [of _ a2]) blast
qed

text \<open>
  A failed listener undoes the administrator: a speed limit set by a command is gone after the next failure of either listener if the
  environment names one, because the loop reads the parameters again; the lists stay as they were edited.
\<close>

theorem relay_failure_undoes_limit:
  assumes "var ''LIMIT_SPEED'' = Some s" and "fo_mega fo s = Some n" and "fo_mega fo v = Some m"
    and "v \<noteq> []" and "list_all (\<lambda>c. \<not> is_space c) v"
    and "a' = snd (relay_check_cmd fo order us (''ls '' @ v) a)"
    and "relay_listen net fo var port port2 a' w = Relaying a'' l l2 w'"
  shows "st_limit_speed (ra_settings a') = m \<and> st_limit_speed (ra_settings a'') = n \<and> ra_lists a'' = ra_lists a"
proof -
  have "split_on CHR '' '' (trim (''ls '' @ v)) = [''ls'', v]"
    using command_words [of "''ls''" v] assms(4,5) by (simp add: is_space_def)
  then have a': "a' = a\<lparr>ra_settings := (ra_settings a)\<lparr>st_limit_speed := m\<rparr>\<rparr>"
    using assms(3,6)
    by (simp add: relay_check_cmd_def list_cmd_def settings_cmd_def setting_cmd_def store_some_def)
  have "a'' = a'\<lparr>ra_settings := start_settings fo var (ra_settings a')\<rparr>"
    using assms(7) by (auto simp: relay_listen_def split: prod.splits option.splits)
  then show ?thesis
    using assms(1,2) by (simp add: a' start_settings_def check_params_def store_some_def split: option.split)
qed

end
