(* ===== verification/Process.thy ===== *)
theory Process
  imports Supervision
begin

text \<open>
  The process of the rendezvous server: its main task beside the self test that \<open>start\<close> spawns and the signals it waits
  for (\<open>start\<close> and \<open>test_hbbs\<close> of \<open>src/rendezvous_server.rs\<close>, \<open>listen_signal\<close> of \<open>src/common.rs\<close>), and the three ways
  in which it ends.
\<close>

subsection \<open>The self test and its second try\<close>

text \<open>Opening its socket, or waiting since the last answer; the flag says that this is the second try.\<close>

datatype self_test = Not_Tested | Opening socket_addr bool | Probing socket_addr bool instant

datatype test_event = Socket_Opened instant | Socket_Failed | Probed probe_event

text \<open>A try that failed: over IPv4 once more, or \<open>exit(1)\<close> (\<^const>\<open>None\<close>).\<close>

definition try_failed :: "socket_addr \<Rightarrow> bool \<Rightarrow> self_test option" where
  "try_failed addr again =
     (if again then None else map_option (\<lambda>a. Opening a True) (retry_target addr))"

fun test_step :: "externals \<Rightarrow> self_test \<Rightarrow> test_event \<Rightarrow> self_test option" where
  "test_step x (Opening a again) (Socket_Opened now) = Some (Probing a again now)"
| "test_step x (Opening a again) Socket_Failed = try_failed a again"
| "test_step x (Probing a again t) (Probed ev) =
     (case test_hbbs_loop x t [ev] of Inr t' \<Rightarrow> Some (Probing a again t') | Inl _ \<Rightarrow> try_failed a again)"
| "test_step x t ev = Some t"

definition self_test_start :: "socket_addr option \<Rightarrow> self_test" where
  "self_test_start target = (case target of Some a \<Rightarrow> Opening a False | None \<Rightarrow> Not_Tested)"

fun self_test_run :: "externals \<Rightarrow> self_test \<Rightarrow> test_event list \<Rightarrow> self_test option" where
  "self_test_run x t [] = Some t"
| "self_test_run x t (ev # evs) =
     (case test_step x t ev of Some t' \<Rightarrow> self_test_run x t' evs | None \<Rightarrow> None)"

text \<open>
  One try by itself: the events left when it fails, if it does. It is waiting for its socket, or for an answer since some time.
\<close>

fun one_try :: "externals \<Rightarrow> instant option \<Rightarrow> test_event list \<Rightarrow> test_event list option" where
  "one_try x t [] = None"
| "one_try x None (Socket_Opened now # evs) = one_try x (Some now) evs"
| "one_try x None (Socket_Failed # evs) = Some evs"
| "one_try x (Some t) (Probed ev # evs) =
     (case test_hbbs_loop x t [ev] of Inr t' \<Rightarrow> one_try x (Some t') evs | Inl _ \<Rightarrow> Some evs)"
| "one_try x t (ev # evs) = one_try x t evs"

definition in_try :: "socket_addr \<Rightarrow> bool \<Rightarrow> instant option \<Rightarrow> self_test" where
  "in_try a again t = (case t of None \<Rightarrow> Opening a again | Some t \<Rightarrow> Probing a again t)"

lemma self_test_run_try:
  "self_test_run x (in_try a again t) evs = None \<longleftrightarrow>
     (\<exists>rest. one_try x t evs = Some rest \<and>
        (case try_failed a again of None \<Rightarrow> True | Some st \<Rightarrow> self_test_run x st rest = None))"
proof (induction x t evs rule: one_try.induct)
  case (4 x t ev evs)
  then show ?case by (simp add: in_try_def split: sum.split option.split del: test_hbbs_loop.simps)
qed (simp_all add: in_try_def split: option.split)

lemma not_tested_runs [simp]: "self_test_run x Not_Tested evs = Some Not_Tested"
  by (induction evs) simp_all

text \<open>
  The self test ends the process only after its last try: exactly when the try of the address it was started with has failed,
  and this was not the IPv6 wildcard, or the following try over IPv4 has failed as well.
\<close>

theorem self_test_two_tries:
  shows "self_test_run x (self_test_start target) evs = None \<longleftrightarrow>
    (\<exists>a rest. target = Some a \<and> one_try x None evs = Some rest \<and>
       (retry_target a = None \<or> one_try x None rest \<noteq> None))"
proof (cases target)
  case (Some a)
  have second: "self_test_run x (Opening b True) rest = None \<longleftrightarrow> one_try x None rest \<noteq> None" for b rest
    using self_test_run_try [of x b True None rest] by (auto simp: in_try_def try_failed_def)
  show ?thesis
    using self_test_run_try [of x a False None evs] Some
    by (auto simp: in_try_def try_failed_def self_test_start_def second split: option.split)
qed (simp add: self_test_start_def)

text \<open>
  When a try fails, without the loops: its socket cannot be opened; or after it has been opened a tick of the timer cannot send its
  heartbeat, or comes more than 12 s after the last answer that parsed (or after the opening), the first tick to do so.
\<close>

definition socket_event :: "test_event \<Rightarrow> bool" where
  "socket_event ev \<longleftrightarrow> (case ev of Probed _ \<Rightarrow> False | _ \<Rightarrow> True)"

fun probes :: "test_event list \<Rightarrow> probe_event list" where
  "probes [] = []"
| "probes (Probed ev # evs) = ev # probes evs"
| "probes (_ # evs) = probes evs"

definition tick_late :: "externals \<Rightarrow> instant \<Rightarrow> test_event list \<Rightarrow> test_event \<Rightarrow> bool" where
  "tick_late x t evs ev \<longleftrightarrow>
     (\<exists>now sent. ev = Probed (Probe_Tick now sent) \<and> (sent \<longrightarrow> 12 < elapsed_secs now (last_answer x t (probes evs))))"

definition no_tick_late :: "externals \<Rightarrow> instant \<Rightarrow> test_event list \<Rightarrow> bool" where
  "no_tick_late x t evs \<longleftrightarrow> (\<forall>as ev bs. evs = as @ ev # bs \<longrightarrow> \<not> tick_late x t as ev)"

definition try_fails :: "externals \<Rightarrow> test_event list \<Rightarrow> test_event list \<Rightarrow> bool" where
  "try_fails x evs rest \<longleftrightarrow>
     (\<exists>as. (\<forall>ev \<in> set as. \<not> socket_event ev) \<and>
        (evs = as @ Socket_Failed # rest \<or>
         (\<exists>t bs ev. evs = as @ Socket_Opened t # bs @ ev # rest \<and> no_tick_late x t bs \<and> tick_late x t bs ev)))"

lemma no_tick_late_Cons:
  "no_tick_late x t (ev # evs) \<longleftrightarrow> \<not> tick_late x t [] ev \<and>
     no_tick_late x (case ev of Probed (Probe_Recv now bs) \<Rightarrow> (if x_decode x bs = None then t else now) | _ \<Rightarrow> t) evs"
proof -
  have shift: "tick_late x t (ev # as) e =
      tick_late x (case ev of Probed (Probe_Recv now bs) \<Rightarrow> (if x_decode x bs = None then t else now) | _ \<Rightarrow> t) as e" for as e
    by (cases ev) (auto simp: tick_late_def split: probe_event.split)
  have "\<not> tick_late x t as e" if "ev # evs = as @ e # bs" and "\<not> tick_late x t [] ev"
    and "\<And>as e bs. evs = as @ e # bs \<Longrightarrow> \<not> tick_late x (case ev of Probed (Probe_Recv now bs) \<Rightarrow>
      (if x_decode x bs = None then t else now) | _ \<Rightarrow> t) as e" for as e bs
    using that shift by (cases as) auto
  then show ?thesis
    unfolding no_tick_late_def shift [symmetric] by (metis append_Cons append_Nil)
qed

lemma no_tick_late_Nil [simp]: "no_tick_late x t []"
  by (simp add: no_tick_late_def)

lemma tick_late_Nil: "tick_late x t [] ev \<longleftrightarrow> (\<exists>now sent. ev = Probed (Probe_Tick now sent) \<and> (sent \<longrightarrow> 12 < elapsed_secs now t))"
  by (simp add: tick_late_def)

text \<open>After the socket has been opened.\<close>

lemma one_try_opened:
  "one_try x (Some t) evs = Some rest \<longleftrightarrow> (\<exists>bs ev. evs = bs @ ev # rest \<and> no_tick_late x t bs \<and> tick_late x t bs ev)"
proof (induction evs arbitrary: t)
  case (Cons ev evs)
  let ?t = "case ev of Probed (Probe_Recv now bs) \<Rightarrow> (if x_decode x bs = None then t else now) | _ \<Rightarrow> t"
  have shift: "tick_late x t (ev # as) e = tick_late x ?t as e" for as e
    by (cases ev) (auto simp: tick_late_def split: probe_event.split)
  have one: "one_try x (Some t) (ev # evs) = (if tick_late x t [] ev then Some evs else one_try x (Some ?t) evs)"
    by (cases ev) (auto simp: tick_late_Nil split: probe_event.split)
  have "(\<exists>bs e. ev # evs = bs @ e # rest \<and> no_tick_late x t bs \<and> tick_late x t bs e) \<longleftrightarrow>
      evs = rest \<and> tick_late x t [] ev \<or>
      (\<exists>bs e. evs = bs @ e # rest \<and> no_tick_late x t (ev # bs) \<and> tick_late x t (ev # bs) e)"
    by (auto simp: Cons_eq_append_conv)
  then show ?case by (simp add: one Cons.IH no_tick_late_Cons shift)
qed simp

lemma try_fails_probed: "try_fails x (Probed e # evs) rest \<longleftrightarrow> try_fails x evs rest"
proof
  assume "try_fails x evs rest"
  then obtain as where "\<forall>ev \<in> set as. \<not> socket_event ev" "evs = as @ Socket_Failed # rest \<or>
      (\<exists>t bs ev. evs = as @ Socket_Opened t # bs @ ev # rest \<and> no_tick_late x t bs \<and> tick_late x t bs ev)"
    by (auto simp: try_fails_def)
  then show "try_fails x (Probed e # evs) rest"
    unfolding try_fails_def by (intro exI [of _ "Probed e # as"]) (simp add: socket_event_def)
next
  assume "try_fails x (Probed e # evs) rest"
  then obtain as where as: "\<forall>ev \<in> set as. \<not> socket_event ev" "Probed e # evs = as @ Socket_Failed # rest \<or>
      (\<exists>t bs ev. Probed e # evs = as @ Socket_Opened t # bs @ ev # rest \<and> no_tick_late x t bs \<and> tick_late x t bs ev)"
    by (auto simp: try_fails_def)
  then obtain as' where "as = Probed e # as'" by (cases as) auto
  with as show "try_fails x evs rest" unfolding try_fails_def by (intro exI [of _ as']) simp
qed

lemma try_fails_socket:
  assumes "socket_event ev"
  shows "try_fails x (ev # evs) rest \<longleftrightarrow> ev = Socket_Failed \<and> evs = rest \<or>
    (\<exists>t bs e. ev = Socket_Opened t \<and> evs = bs @ e # rest \<and> no_tick_late x t bs \<and> tick_late x t bs e)" (is "_ \<longleftrightarrow> ?now")
proof
  assume "try_fails x (ev # evs) rest"
  then obtain as where as: "\<forall>ev \<in> set as. \<not> socket_event ev" "ev # evs = as @ Socket_Failed # rest \<or>
      (\<exists>t bs e. ev # evs = as @ Socket_Opened t # bs @ e # rest \<and> no_tick_late x t bs \<and> tick_late x t bs e)"
    by (auto simp: try_fails_def)
  with assms have "as = []" by (cases as) auto
  with as(2) show ?now by simp
next
  assume ?now
  then show "try_fails x (ev # evs) rest" unfolding try_fails_def by (intro exI [of _ "[]"]) auto
qed

lemma one_try_fails: "one_try x None evs = Some rest \<longleftrightarrow> try_fails x evs rest"
proof (induction evs)
  case (Cons ev evs)
  show ?case
  proof (cases ev)
    case (Probed e)
    then show ?thesis using Cons by (simp add: try_fails_probed)
  qed (auto simp: try_fails_socket socket_event_def one_try_opened)
qed (simp add: try_fails_def)

text \<open>
  C21. The self test ends the process exactly when its last try has failed. It is made when the server was started with a target; a try fails when its
  socket cannot be opened, or when, after that, a tick of its timer cannot send a heartbeat or comes more than 12 s after the last answer
  that parsed; when the try of the IPv6 wildcard fails, a second one over IPv4 begins, and only its failure ends the process, and any other target has
  only one try. Every heartbeat that reaches the server is answered, whatever the server's state, if the server's socket sends.
\<close>

theorem self_test_verdict:
  shows "(self_test_run x (self_test_start target) evs = None \<longleftrightarrow>
      (\<exists>a rest. target = Some a \<and> try_fails x evs rest \<and>
         (case retry_target a of None \<Rightarrow> True | Some _ \<Rightarrow> \<exists>rest'. try_fails x rest rest'))) \<and>
    (x_decode x msg = Some (Some test_hbbs_msg) \<longrightarrow> (\<forall>m a. e_send e m a) \<longrightarrow>
      (\<exists>request_pk. (RegisterPeerResponse request_pk, addr) \<in> set (udp_out (fst (snd (handle_udp x e key msg addr h s))))))"
proof -
  have "one_try x None r \<noteq> None \<longleftrightarrow> (\<exists>r'. try_fails x r r')" for r by (simp add: one_try_fails [symmetric])
  then have "self_test_run x (self_test_start target) evs = None \<longleftrightarrow>
      (\<exists>a rest. target = Some a \<and> try_fails x evs rest \<and>
         (case retry_target a of None \<Rightarrow> True | Some _ \<Rightarrow> \<exists>rest'. try_fails x rest rest'))"
    unfolding self_test_two_tries one_try_fails by (auto split: option.split)
  then show ?thesis using heartbeat_answered [of x msg e addr key h s] by blast
qed

text \<open>
  Thirteen seconds after the last answer the try over IPv6 fails, and the one over IPv4 goes on for as long as it is answered.
\<close>

lemma self_test_verdict_witness:
  "self_test_run sample_ext (self_test_start (Some (SocketV6 0 21116 0 0)))
     [Socket_Opened 0, Probed (Probe_Tick 0 True), Probed (Probe_Recv 1000000000 [1]), Probed (Probe_Tick 14000000000 True),
      Socket_Opened 14000000000, Probed (Probe_Tick 15000000000 True)] \<noteq> None \<and>
   (\<exists>request_pk. (RegisterPeerResponse request_pk, SocketV4 1 2) \<in> set (udp_out (fst (snd
      (handle_udp (sample_ext\<lparr>x_decode := \<lambda>_. Some (Some test_hbbs_msg)\<rparr>) (sample_env 0) [] [] (SocketV4 1 2)
        sample_handle fresh_shared)))))"
proof -
  let ?evs = "[Socket_Opened 0, Probed (Probe_Tick 0 True), Probed (Probe_Recv 1000000000 [1]), Probed (Probe_Tick 14000000000 True),
      Socket_Opened 14000000000, Probed (Probe_Tick 15000000000 True)]"
  let ?x = "sample_ext\<lparr>x_decode := \<lambda>_. Some (Some test_hbbs_msg)\<rparr>"
  have "\<not> try_fails sample_ext rest rest'" if "try_fails sample_ext ?evs rest" for rest rest'
    using that by (auto simp: one_try_fails [symmetric] sample_ext_def clock_simps)
  then show ?thesis
    using self_test_verdict [of sample_ext "Some (SocketV6 0 21116 0 0)" ?evs "[]" "sample_env 0" "SocketV4 1 2" "[]" sample_handle fresh_shared]
      self_test_verdict [of ?x "None" "[]" "[]" "sample_env 0" "SocketV4 1 2" "[]" sample_handle fresh_shared]
    by (simp add: retry_target_def)
qed


subsection \<open>Signals\<close>

datatype signal = Terminate | Interrupt | Quit | Other_Signal

text \<open>
  What \<open>listen_signal\<close> returns, if it does: an error when a handler cannot be installed, success after one of the three signals, and
  on other systems than Unix nothing ever.
\<close>

definition listen_signal :: "bool \<Rightarrow> (signal \<Rightarrow> bool) \<Rightarrow> signal list \<Rightarrow> (string + unit) option" where
  "listen_signal unix installs delivered =
     (if \<not> unix then None
      else if \<not> list_all installs [Terminate, Interrupt, Quit] then Some (Inl ''signal'')
      else if list_ex (\<lambda>s. s \<in> {Terminate, Interrupt, Quit}) delivered then Some (Inr ())
      else None)"

subsection \<open>The process\<close>

datatype ending = Ended_Well | Ended_Error | Exit_1

text \<open>The last component is the history of the signals delivered since the start, also of a process that has ended.\<close>

datatype ('w, 'u, 'l) process = Up "('w, 'u, 'l) hbbs" self_test "signal list" | Down ending "signal list"

fun main_result :: "('w, 'u, 'l) hbbs \<Rightarrow> self_test \<Rightarrow> signal list \<Rightarrow> ('w, 'u, 'l) process" where
  "main_result (Serving v ss w) t sigs = Up (Serving v ss w) t sigs"
| "main_result (Ended w) t sigs = Down Ended_Error sigs"

inductive process_step ::
  "externals \<Rightarrow> string \<Rightarrow> (env \<Rightarrow> bool) \<Rightarrow> ('w, 'u, 'l) network \<Rightarrow> i32 \<Rightarrow> usize \<Rightarrow> bool \<Rightarrow> (signal \<Rightarrow> bool) \<Rightarrow>
     ('w, 'u, 'l) process \<Rightarrow> ('w, 'u, 'l) process \<Rightarrow> bool"
  for x :: externals and key :: string and P :: "env \<Rightarrow> bool" and net :: "('w, 'u, 'l) network"
    and port :: i32 and rmem :: usize and unix :: bool and installs :: "signal \<Rightarrow> bool" where
  Main: "hbbs_step x key P net port rmem m m' \<Longrightarrow>
    process_step x key P net port rmem unix installs (Up m t sigs) (main_result m' t sigs)"
| Test: "test_step x t ev = Some t' \<Longrightarrow>
    process_step x key P net port rmem unix installs (Up m t sigs) (Up m t' sigs)"
| Test_Exit: "test_step x t ev = None \<Longrightarrow>
    process_step x key P net port rmem unix installs (Up m t sigs) (Down Exit_1 sigs)"
| Delivered: "process_step x key P net port rmem unix installs (Up m t sigs) (Up m t (sigs @ [sg]))"
| Signalled: "listen_signal unix installs sigs = Some r \<Longrightarrow>
    process_step x key P net port rmem unix installs (Up m t sigs)
      (Down (case r of Inr _ \<Rightarrow> Ended_Well | Inl _ \<Rightarrow> Ended_Error) sigs)"

text \<open>Why a process is as it is: the run of its main task, the events of its self test, a signal.\<close>

fun explained ::
  "externals \<Rightarrow> string \<Rightarrow> (env \<Rightarrow> bool) \<Rightarrow> ('w, 'u, 'l) network \<Rightarrow> i32 \<Rightarrow> usize \<Rightarrow> bool \<Rightarrow> (signal \<Rightarrow> bool) \<Rightarrow>
     ('w, 'u, 'l) hbbs \<Rightarrow> self_test \<Rightarrow> ('w, 'u, 'l) process \<Rightarrow> bool" where
  "explained x key P net port rmem unix installs m0 t0 (Up m t sigs) \<longleftrightarrow>
     (hbbs_step x key P net port rmem)\<^sup>*\<^sup>* m0 m \<and> (\<exists>evs. self_test_run x t0 evs = Some t)"
| "explained x key P net port rmem unix installs m0 t0 (Down Exit_1 sigs) \<longleftrightarrow>
     (\<exists>evs. self_test_run x t0 evs = None)"
| "explained x key P net port rmem unix installs m0 t0 (Down Ended_Error sigs) \<longleftrightarrow>
     (unix \<and> \<not> list_all installs [Terminate, Interrupt, Quit]) \<or>
     (\<exists>v ss w f w'. (hbbs_step x key P net port rmem)\<^sup>*\<^sup>* m0 (Serving v ss w) \<and> sv_failed v = Some f \<and>
        reopen net port rmem f ss w = (None, w'))"
| "explained x key P net port rmem unix installs m0 t0 (Down Ended_Well sigs) \<longleftrightarrow>
     unix \<and> (\<exists>sg \<in> set sigs. sg \<in> {Terminate, Interrupt, Quit})"

lemma self_test_run_snoc:
  "self_test_run x t (evs @ [ev]) = Option.bind (self_test_run x t evs) (\<lambda>t'. test_step x t' ev)"
  by (induction evs arbitrary: t) (auto split: option.split)

inductive_cases process_stepE: "process_step x key P net port rmem unix installs p p'"

lemma hbbs_step_EndedE:
  assumes "hbbs_step x key P net port rmem m (Ended w')"
  obtains v ss w f where "m = Serving v ss w" "sv_failed v = Some f" "reopen net port rmem f ss w = (None, w')"
  using assms by (auto elim: hbbs_stepE)

lemma process_step_explained:
  assumes "process_step x key P net port rmem unix installs p p'"
    and "explained x key P net port rmem unix installs m0 t0 p"
  shows "explained x key P net port rmem unix installs m0 t0 p'"
  using assms
proof (induction rule: process_step.induct)
  case (Main m m' t sigs)
  then have run: "(hbbs_step x key P net port rmem)\<^sup>*\<^sup>* m0 m" by simp
  show ?case
  proof (cases m')
    case (Serving v ss w)
    with Main run show ?thesis by (auto intro: rtranclp.rtrancl_into_rtrancl)
  next
    case (Ended w')
    with Main(1) run show ?thesis by (auto elim!: hbbs_step_EndedE)
  qed
next
  case (Test t ev t' m sigs)
  then obtain evs where "self_test_run x t0 evs = Some t" by auto
  with Test(1) have "self_test_run x t0 (evs @ [ev]) = Some t'" by (simp add: self_test_run_snoc)
  with Test(2) show ?case by auto
next
  case (Test_Exit t ev m sigs)
  then obtain evs where "self_test_run x t0 evs = Some t" by auto
  with Test_Exit(1) have "self_test_run x t0 (evs @ [ev]) = None" by (simp add: self_test_run_snoc)
  then show ?case by auto
next
  case (Signalled sigs r m t)
  then show ?case by (auto simp: listen_signal_def list_ex_iff split: if_splits)
next
  case (Delivered m t sigs sg)
  then show ?case by simp
qed

interpretation hbbs_process: invariant_system "process_step x key P net port rmem unix installs"
  "explained x key P net port rmem unix installs m0 t0"
  by unfold_locales (rule process_step_explained)

text \<open>
  C23. The process ends for a cause: after any run from a start it is either still up, in a state its main task reaches by itself, and then, on Unix, one of
  the three signals it has been sent can end it at once; or it ended well, and was sent one of them; or it ended with an error, because a socket failed and could
  not be opened again, or a signal handler could not be installed; or it exited, because the self test was switched on and
  its try of the target, and of IPv4 after the IPv6 wildcard, failed.
\<close>

theorem process_ends_for_cause:
  assumes "hbbs_start net x opened cfg ra rl av tv port rmem w0 = Inr (m0, target)"
    and "(process_step x key P net port rmem unix installs)\<^sup>*\<^sup>* (Up m0 (self_test_start target) []) p"
  shows "case p of
      Up m t sigs \<Rightarrow> (hbbs_step x key P net port rmem)\<^sup>*\<^sup>* m0 m \<and>
        (unix \<and> (\<forall>sg. installs sg) \<and> set sigs \<inter> {Terminate, Interrupt, Quit} \<noteq> {} \<longrightarrow>
           process_step x key P net port rmem unix installs (Up m t sigs) (Down Ended_Well sigs))
    | Down Ended_Well sigs \<Rightarrow> unix \<and> set sigs \<inter> {Terminate, Interrupt, Quit} \<noteq> {}
    | Down Ended_Error sigs \<Rightarrow> (unix \<and> \<not> list_all installs [Terminate, Interrupt, Quit]) \<or>
        (\<exists>v ss w f w'. (hbbs_step x key P net port rmem)\<^sup>*\<^sup>* m0 (Serving v ss w) \<and> sv_failed v = Some f \<and>
           reopen net port rmem f ss w = (None, w'))
    | Down Exit_1 sigs \<Rightarrow> to_lowercase tv \<noteq> ''no'' \<and>
        (\<exists>a evs rest. target = Some a \<and> try_fails x evs rest \<and>
           (retry_target a = None \<or> (\<exists>rest'. try_fails x rest rest')))"
proof -
  have inv: "explained x key P net port rmem unix installs m0 (self_test_start target) p"
    by (rule hbbs_process.run_inv [OF assms(2)]) (simp, rule exI [of _ "[]"], simp)
  have no: "to_lowercase tv = ''no'' \<Longrightarrow> target = None"
    using assms(1) by (auto simp: hbbs_start_def test_target_def split: option.splits prod.splits)
  have tries: "one_try x None r \<noteq> None \<longleftrightarrow> (\<exists>r'. try_fails x r r')" for r by (simp add: one_try_fails [symmetric])
  show ?thesis
  proof (cases p)
    case (Up m t sigs)
    have "process_step x key P net port rmem unix installs (Up m t sigs) (Down Ended_Well sigs)"
      if "unix" "\<forall>sg. installs sg" "set sigs \<inter> {Terminate, Interrupt, Quit} \<noteq> {}"
    proof -
      have "listen_signal unix installs sigs = Some (Inr ())" using that by (auto simp: listen_signal_def list_ex_iff)
      from process_step.Signalled [OF this] show ?thesis by simp
    qed
    with inv show ?thesis by (simp add: Up)
  next
    case (Down e sigs)
    show ?thesis
    proof (cases e)
      case Exit_1
      with inv Down show ?thesis using no by (auto simp: self_test_two_tries one_try_fails tries)
    qed (use inv Down in auto)
  qed
qed

text \<open>The test of [::]:21116 finds no socket to test with, over IPv6 and then over IPv4; and another process is sent a signal.\<close>

lemma process_ends_for_cause_witness:
  "(\<exists>a evs rest rest'. a = SocketV6 0 21116 0 0 \<and> retry_target a = Some (SocketV4 0 21116) \<and>
     try_fails sample_ext evs rest \<and> try_fails sample_ext rest rest') \<and>
   (\<exists>m :: (unit, u16, u16) hbbs. process_step sample_ext [] e_db_read open_net 21116 0 True (\<lambda>_. True)
     (Up m (Opening (SocketV6 0 21116 0 0) False) [Other_Signal, Interrupt]) (Down Ended_Well [Other_Signal, Interrupt]))"
proof -
  let ?step = "process_step sample_ext [] e_db_read open_net 21116 0 True (\<lambda>_. True)"
  define v0 where "v0 = start_server sample_ext None (h_inner sample_handle) [] [] []"
  define ss0 where "ss0 = (\<lparr>sk_udp = 21116, sk_tcp = 21116, sk_nat = 21115, sk_ws = 21118\<rparr> :: (u16, u16) sockets)"
  define m0 where "m0 = (Serving v0 ss0 () :: (unit, u16, u16) hbbs)"
  let ?a = "SocketV6 0 21116 0 0"
  have start: "hbbs_start open_net sample_ext (Some None) (h_inner sample_handle) [] [] [] [] 21116 0 ()
      = Inr (m0, Some ?a)"
    by (simp add: hbbs_start_def open_net_sockets test_target_def to_lowercase_def v0_def ss0_def m0_def)
      (simp add: open_net_def)
  have "?step (Up m0 (Opening ?a False) []) (Up m0 (Opening (SocketV4 0 21116) True) [])"
    by (rule process_step.Test [where ev = Socket_Failed]) (simp add: try_failed_def retry_target_def)
  moreover have "?step (Up m0 (Opening (SocketV4 0 21116) True) []) (Down Exit_1 [])"
    by (rule process_step.Test_Exit [where ev = Socket_Failed]) (simp add: try_failed_def)
  ultimately have "?step\<^sup>*\<^sup>* (Up m0 (self_test_start (Some ?a)) []) (Down Exit_1 [])"
    by (simp add: self_test_start_def)
  note exited = process_ends_for_cause [OF start this]
  have "?step (Up m0 (Opening ?a False) []) (Up m0 (Opening ?a False) ([] @ [Other_Signal]))" by (rule process_step.Delivered)
  moreover have "?step (Up m0 (Opening ?a False) ([] @ [Other_Signal])) (Up m0 (Opening ?a False) (([] @ [Other_Signal]) @ [Interrupt]))"
    by (rule process_step.Delivered)
  ultimately have "?step\<^sup>*\<^sup>* (Up m0 (self_test_start (Some ?a)) []) (Up m0 (Opening ?a False) [Other_Signal, Interrupt])"
    by (simp add: self_test_start_def)
  from process_ends_for_cause [OF start this] exited show ?thesis by (auto simp: retry_target_def)
qed

end
