(* ===== verification/Relay_Server.thy ===== *)
theory Relay_Server
  imports Supervision Relay_Pairing
begin

text \<open>
  The relay server as a whole (\<open>start\<close>, \<open>io_loop\<close> and \<open>handle_connection\<close> of \<open>src/relay_server.rs\<close>): connections that come in
  are admitted by the lists of that moment and become tasks of the pairing, administrators' sessions that wait for
  their command, or nothing; commands, tasks and failing listeners interleave. Every turn of the loop of \<open>start\<close> makes a new
  shared limiter; a connection and a session keep the one of their turn.
\<close>

text \<open>
  \<open>rv_limiters\<close> holds the speed of every limiter, the running turn's last; \<open>rv_admins\<close> the limiter of each waiting session,
  \<open>rv_limiter_of\<close> that of each task. \<open>rv_from\<close> is a history variable: the address a task's connection was admitted under.
\<close>

record ('w, 'l) relay_server =
  rv_main :: "('w, 'l) hbbr"
  rv_limiters :: "usize list"
  rv_admins :: "nat list"
  rv_pairs :: relay_state
  rv_limiter_of :: "nat \<rightharpoonup> nat"
  rv_from :: "nat \<rightharpoonup> ip_addr"

datatype relay_event = Connected socket_addr bool | Typed string | Task_Turn | Broke | Elsewhere

text \<open>\<open>handle_connection\<close> for a client: a new task under the address its stream goes by.\<close>

definition new_client ::
  "externals \<Rightarrow> (string \<Rightarrow> string option option) \<Rightarrow> socket_addr \<Rightarrow> bool \<Rightarrow> ('w, 'l) relay_server \<Rightarrow>
     ('w, 'l) relay_server" where
  "new_client x hdr addr ws s =
     (let n = rl_next (rv_pairs s)
      in s\<lparr>rv_pairs := set_task n (Reading (pair_addr hdr ws addr) \<lparr>rs_task = n, rs_is_ws = ws, rs_raw = False\<rparr>)
             ((rv_pairs s)\<lparr>rl_next := Suc n\<rparr>),
           rv_limiter_of := (rv_limiter_of s)(n \<mapsto> length (rv_limiters s) - 1),
           rv_from := (rv_from s)(n \<mapsto> sa_ip (x_into_v4 x addr))\<rparr>)"

text \<open>\<open>check_cmd\<close> with the limiter \<open>g\<close> of the session.\<close>

definition session_cmd ::
  "float_ops \<Rightarrow> (string set \<Rightarrow> string list) \<Rightarrow> (string \<times> usage) list \<Rightarrow> string \<Rightarrow> nat \<Rightarrow> ('w, 'l) relay_server \<Rightarrow>
     ('w, 'l) relay_server" where
  "session_cmd fo order us cmd g s =
     (case rv_main s of
        hbbr.Relaying a l l2 w \<Rightarrow>
          (let a1 = a\<lparr>ra_settings := (ra_settings a)\<lparr>st_limiter := rv_limiters s ! g\<rparr>\<rparr>;
               a2 = snd (relay_check_cmd fo order us cmd a1);
               ls = (rv_limiters s)[g := st_limiter (ra_settings a2)]
           in s\<lparr>rv_main := hbbr.Relaying (a2\<lparr>ra_settings := (ra_settings a2)\<lparr>st_limiter := last ls\<rparr>\<rparr>) l l2 w,
                rv_limiters := ls\<rparr>)
      | Relay_Ended w \<Rightarrow> s)"

text \<open>A listener that failed: both are dropped and opened again, with the environment read again and a new limiter.\<close>

definition next_turn ::
  "('w, 'u, 'l) network \<Rightarrow> float_ops \<Rightarrow> (string \<Rightarrow> string option) \<Rightarrow> u16 \<Rightarrow> u16 \<Rightarrow> ('w, 'l) relay_server \<Rightarrow>
     ('w, 'l) relay_server" where
  "next_turn net fo var port port2 s =
     (case rv_main s of
        hbbr.Relaying a l l2 w \<Rightarrow>
          (case relay_listen net fo var port port2 a (nw_drop_tcp net l (nw_drop_tcp net l2 w)) of
             hbbr.Relaying a' k k2 w' \<Rightarrow>
               s\<lparr>rv_main := hbbr.Relaying a' k k2 w', rv_limiters := rv_limiters s @ [st_limiter (ra_settings a')]\<rparr>
           | Relay_Ended w' \<Rightarrow> s\<lparr>rv_main := Relay_Ended w'\<rparr>)
      | Relay_Ended w \<Rightarrow> s)"

text \<open>The rows of \<open>USAGE\<close>, in the order of its hash table.\<close>

definition usage_rows :: "relay_state \<Rightarrow> (string \<times> usage) list \<Rightarrow> bool" where
  "usage_rows p us \<longleftrightarrow> distinct (map fst us) \<and> map_of us = rl_usage p"

inductive relay_server_step ::
  "externals \<Rightarrow> string \<Rightarrow> ('w, 'u, 'l) network \<Rightarrow> float_ops \<Rightarrow> (string \<Rightarrow> string option) \<Rightarrow> u16 \<Rightarrow> u16 \<Rightarrow>
     relay_event \<Rightarrow> ('w, 'l) relay_server \<Rightarrow> ('w, 'l) relay_server \<Rightarrow> bool"
  for x :: externals and key :: string and net :: "('w, 'u, 'l) network" and fo :: float_ops
    and var :: "string \<Rightarrow> string option" and port :: u16 and port2 :: u16 where
  Client_Comes: "rv_main s = hbbr.Relaying a l l2 w \<Longrightarrow> admit x (ra_lists a) addr ws = Client \<Longrightarrow>
    relay_server_step x key net fo var port port2 (Connected addr ws) s (new_client x hdr addr ws s)"
| Refused_Comes: "rv_main s = hbbr.Relaying a l l2 w \<Longrightarrow> admit x (ra_lists a) addr ws = Refused \<Longrightarrow>
    relay_server_step x key net fo var port port2 (Connected addr ws) s s"
| Admin_Comes: "rv_main s = hbbr.Relaying a l l2 w \<Longrightarrow> admit x (ra_lists a) addr ws = Admin \<Longrightarrow>
    relay_server_step x key net fo var port port2 (Connected addr ws) s
      (s\<lparr>rv_admins := rv_admins s @ [length (rv_limiters s) - 1]\<rparr>)"
| Admin_Types: "rv_admins s = gs @ g # hs \<Longrightarrow> admin_input arrived = Some cmd \<Longrightarrow> usage_rows (rv_pairs s) us \<Longrightarrow>
    relay_server_step x key net fo var port port2 (Typed cmd) s
      (session_cmd fo order us cmd g (s\<lparr>rv_admins := gs @ hs\<rparr>))"
| Admin_Leaves: "rv_admins s = gs @ g # hs \<Longrightarrow> admin_input arrived = None \<Longrightarrow>
    relay_server_step x key net fo var port port2 Elsewhere s (s\<lparr>rv_admins := gs @ hs\<rparr>)"
| Task_Moves: "relay_step x key (rv_pairs s) p \<Longrightarrow> rl_next p = rl_next (rv_pairs s) \<Longrightarrow>
    relay_server_step x key net fo var port port2 Task_Turn s (s\<lparr>rv_pairs := p\<rparr>)"
| Listener_Fails: "relay_server_step x key net fo var port port2 Broke s (next_turn net fo var port port2 s)"
| World_Moves: "rv_main s = hbbr.Relaying a l l2 w \<Longrightarrow>
    relay_server_step x key net fo var port port2 Elsewhere s (s\<lparr>rv_main := hbbr.Relaying a l l2 w'\<rparr>)"

text \<open>A run, with what happened in it.\<close>

inductive relay_server_run ::
  "externals \<Rightarrow> string \<Rightarrow> ('w, 'u, 'l) network \<Rightarrow> float_ops \<Rightarrow> (string \<Rightarrow> string option) \<Rightarrow> u16 \<Rightarrow> u16 \<Rightarrow>
     ('w, 'l) relay_server \<Rightarrow> relay_event list \<Rightarrow> ('w, 'l) relay_server \<Rightarrow> bool"
  for x :: externals and key :: string and net :: "('w, 'u, 'l) network" and fo :: float_ops
    and var :: "string \<Rightarrow> string option" and port :: u16 and port2 :: u16 and s0 :: "('w, 'l) relay_server" where
  Begin: "relay_server_run x key net fo var port port2 s0 [] s0"
| Go_On: "relay_server_run x key net fo var port port2 s0 es s \<Longrightarrow>
    relay_server_step x key net fo var port port2 e s s' \<Longrightarrow>
    relay_server_run x key net fo var port port2 s0 (es @ [e]) s'"

definition relay_server_init :: "('w, 'l) hbbr \<Rightarrow> ('w, 'l) relay_server" where
  "relay_server_init main =
     \<lparr>rv_main = main,
      rv_limiters = (case main of hbbr.Relaying a l l2 w \<Rightarrow> [st_limiter (ra_settings a)] | Relay_Ended w \<Rightarrow> []),
      rv_admins = [], rv_pairs = relay_init, rv_limiter_of = (\<lambda>_. None), rv_from = (\<lambda>_. None)\<rparr>"

subsection \<open>The pairing inside the server\<close>

lemma session_cmd_frame [simp]:
  "rv_pairs (session_cmd fo order us cmd g s) = rv_pairs s" "rv_from (session_cmd fo order us cmd g s) = rv_from s"
  "rv_admins (session_cmd fo order us cmd g s) = rv_admins s"
  "rv_limiter_of (session_cmd fo order us cmd g s) = rv_limiter_of s"
  by (simp_all add: session_cmd_def Let_def split: hbbr.split)

lemma next_turn_frame [simp]:
  "rv_pairs (next_turn net fo var p q s) = rv_pairs s" "rv_from (next_turn net fo var p q s) = rv_from s"
  "rv_admins (next_turn net fo var p q s) = rv_admins s" "rv_limiter_of (next_turn net fo var p q s) = rv_limiter_of s"
  by (simp_all add: next_turn_def split: hbbr.split)

text \<open>The tasks of the server are a run of the pairing, so what holds of every run of that holds here.\<close>

lemma relay_server_pairs:
  assumes "relay_server_step x key net fo var p q e s s'" and "relay_reaches x key (rv_pairs s)"
  shows "relay_reaches x key (rv_pairs s')"
  using assms
proof (induction rule: relay_server_step.induct)
  case (Client_Comes s a l l2 w addr ws hdr)
  then have "relay_step x key (rv_pairs s) (rv_pairs (new_client x hdr addr ws s))"
    by (simp add: new_client_def Let_def relay_step.Arrive [OF refl])
  with Client_Comes(3) show ?case by (rule relay_reaches.Step)
next
  case (Task_Moves s p)
  then show ?case by (auto intro: relay_reaches.Step)
qed simp_all

lemma relay_server_run_pairs:
  "relay_server_run x key net fo var p q (relay_server_init main) es s \<Longrightarrow> relay_reaches x key (rv_pairs s)"
  by (induction rule: relay_server_run.induct)
    (auto intro: relay_server_pairs relay_reaches.Start simp: relay_server_init_def)

lemma relay_server_run_from:
  "relay_server_run x key net fo var p q (relay_server_init main) es s \<Longrightarrow> rl_next (rv_pairs s) \<le> m \<Longrightarrow>
     rv_from s m = None"
proof (induction arbitrary: m rule: relay_server_run.induct)
  case (Go_On es s e s')
  from Go_On(2) show ?case
    by (cases rule: relay_server_step.cases)
      (use Go_On(3,4) in \<open>auto simp: new_client_def set_task_def Let_def\<close>)
qed (simp add: relay_server_init_def)

subsection \<open>A blocked address stays out\<close>

definition main_lists :: "('w, 'l) relay_server \<Rightarrow> ip_lists option" where
  "main_lists s = (case rv_main s of hbbr.Relaying a l l2 w \<Rightarrow> Some (ra_lists a) | Relay_Ended w \<Rightarrow> None)"

text \<open>Nobody from \<open>ip\<close> has become a task since the one numbered \<open>n\<close>, and while the server runs it is on the block list.\<close>

definition kept_out :: "ip_addr \<Rightarrow> nat \<Rightarrow> ('w, 'l) relay_server \<Rightarrow> bool" where
  "kept_out ip n s \<longleftrightarrow>
     (\<forall>l. main_lists s = Some l \<longrightarrow> show_ip ip \<in> blocklist l) \<and>
     (\<forall>m \<ge> n. rv_from s m \<noteq> Some ip) \<and> n \<le> rl_next (rv_pairs s)"

definition spares :: "ip_addr \<Rightarrow> relay_event \<Rightarrow> bool" where
  "spares ip e \<longleftrightarrow>
     (case e of
        Typed cmd \<Rightarrow> (case block_edit cmd of None \<Rightarrow> True | Some ed \<Rightarrow> \<not> mentions (show_ip ip) ed)
      | _ \<Rightarrow> True)"

lemma session_cmd_lists:
  assumes "spares ip (Typed cmd)" and "main_lists s = Some l"
  obtains l' where "main_lists (session_cmd fo order us cmd g s) = Some l'"
    "show_ip ip \<in> blocklist l' \<longleftrightarrow> show_ip ip \<in> blocklist l"
proof -
  obtain a k k2 w where a: "rv_main s = hbbr.Relaying a k k2 w" "l = ra_lists a"
    using assms(2) by (auto simp: main_lists_def split: hbbr.splits)
  let ?a1 = "a\<lparr>ra_settings := (ra_settings a)\<lparr>st_limiter := rv_limiters s ! g\<rparr>\<rparr>"
  have "main_lists (session_cmd fo order us cmd g s) = Some (ra_lists (snd (relay_check_cmd fo order us cmd ?a1)))"
    by (simp add: main_lists_def session_cmd_def a Let_def)
  moreover have "show_ip ip \<in> blocklist (ra_lists (snd (relay_check_cmd fo order us cmd ?a1))) \<longleftrightarrow>
      show_ip ip \<in> blocklist l"
    using assms(1) block_edits.edit_other [of "show_ip ip" _ l] unfolding relay_check_cmd_block
    by (auto simp: a spares_def split: option.splits)
  ultimately show ?thesis using that by blast
qed

lemma next_turn_lists:
  "main_lists (next_turn net fo var p q s) = main_lists s \<or> main_lists (next_turn net fo var p q s) = None"
  by (auto simp: main_lists_def next_turn_def relay_listen_def split: hbbr.splits prod.splits option.splits)

lemma kept_out_step:
  assumes "relay_server_step x key net fo var p q e s s'" and "kept_out ip n s" and "spares ip e"
  shows "kept_out ip n s'"
  using assms
proof (induction rule: relay_server_step.induct)
  case (Client_Comes s a l l2 w addr ws hdr)
  then have "show_ip ip \<in> blocklist (ra_lists a)" by (simp add: kept_out_def main_lists_def)
  with Client_Comes(2) have "sa_ip (x_into_v4 x addr) \<noteq> ip" by (auto simp: admit_def Let_def split: if_splits)
  with Client_Comes(1,3) show ?case
    by (auto simp: kept_out_def new_client_def main_lists_def set_task_def Let_def)
next
  case (Admin_Types s gs g hs arrived cmd us order)
  let ?s = "s\<lparr>rv_admins := gs @ hs\<rparr>"
  have same: "main_lists ?s = main_lists s" by (simp add: main_lists_def)
  show ?case
  proof (cases "main_lists s")
    case None
    then have "session_cmd fo order us cmd g ?s = ?s" by (simp add: session_cmd_def main_lists_def split: hbbr.splits)
    with Admin_Types(4) show ?thesis by (simp add: kept_out_def same)
  next
    case (Some l)
    obtain l' where "main_lists (session_cmd fo order us cmd g ?s) = Some l'"
      "show_ip ip \<in> blocklist l' \<longleftrightarrow> show_ip ip \<in> blocklist l"
      by (rule session_cmd_lists [of ip cmd ?s l fo order us g]) (use Admin_Types(5) Some same in auto)
    with Admin_Types(4) Some show ?thesis by (simp add: kept_out_def)
  qed
next
  case (Listener_Fails s)
  then show ?case using next_turn_lists [of net fo var p q s] by (auto simp: kept_out_def)
qed (auto simp: kept_out_def main_lists_def)

text \<open>
  C24. A block holds: once an address is on the block list, then through whatever follows (connections, relays, listeners that fail and are opened
  again, commands) no connection from it becomes a task, until a command names the address. And in every run
  the tasks are a run of the pairing.
\<close>

theorem block_holds:
  assumes "relay_server_run x key net fo var p q (relay_server_init main) es0 s0"
    and "main_lists s0 = Some l" and "show_ip ip \<in> blocklist l"
    and "relay_server_run x key net fo var p q s0 es s" and "\<forall>e \<in> set es. spares ip e"
  shows "(\<forall>m \<ge> rl_next (rv_pairs s0). rv_from s m \<noteq> Some ip) \<and> relay_reaches x key (rv_pairs s0)"
proof -
  have "kept_out ip (rl_next (rv_pairs s0)) s0"
    using assms(2,3) relay_server_run_from [OF assms(1)] by (simp add: kept_out_def)
  with assms(4,5) have "kept_out ip (rl_next (rv_pairs s0)) s"
    by (induction rule: relay_server_run.induct) (auto intro: kept_out_step)
  with relay_server_run_pairs [OF assms(1)] show ?thesis by (simp add: kept_out_def)
qed


lemma run_one:
  "relay_server_step x key net fo var p q e s s' \<Longrightarrow> relay_server_run x key net fo var p q s [e] s'"
  using relay_server_run.Go_On [OF relay_server_run.Begin] by fastforce

text \<open>The administrator blocks 0.0.0.1, whose next connection is refused.\<close>

lemma block_holds_witness:
  "\<exists>s :: (unit, u16) relay_server. rv_from s 0 \<noteq> Some (IpV4 1) \<and>
     relay_server_run relay_ext [] open_net sample_floats (\<lambda>_. None) 21117 21119
       (relay_server_init (hbbr.Relaying \<lparr>ra_lists = load_lists None (Some (join_on (CHR 10) (map show_ip [IpV4 1]))), ra_settings = default_settings\<rparr>
          21117 21119 ())) [Connected (SocketV4 1 7) True, Broke] s"
proof -
  define a where "a = \<lparr>ra_lists = load_lists None (Some (join_on (CHR 10) (map show_ip [IpV4 1]))), ra_settings = default_settings\<rparr>"
  let ?init = "relay_server_init (hbbr.Relaying a 21117 21119 ()) :: (unit, u16) relay_server"
  let ?run = "relay_server_run relay_ext [] open_net sample_floats (\<lambda>_. None) 21117 21119"
  have start: "?run ?init [] ?init" by (rule relay_server_run.Begin)
  have lists: "main_lists ?init = Some (load_lists None (Some (join_on (CHR 10) (map show_ip [IpV4 1]))))"
    by (simp add: main_lists_def relay_server_init_def a_def)
  have blocked: "show_ip (IpV4 1) \<in> blocklist (load_lists None (Some (join_on (CHR 10) (map show_ip [IpV4 1]))))"
    using block_file_roundtrip [of "[IpV4 1]", OF _ refl] by simp
  have "admit relay_ext (ra_lists a) (SocketV4 1 7) True = Refused"
    using blocked by (simp add: admit_def a_def relay_ext_def Let_def)
  then have 1: "?run ?init [Connected (SocketV4 1 7) True] ?init"
    by (intro run_one relay_server_step.Refused_Comes [where a = a]) (simp_all add: relay_server_init_def)
  let ?fin = "next_turn open_net sample_floats (\<lambda>_. None) 21117 21119 ?init"
  have 2: "?run ?init ([Connected (SocketV4 1 7) True] @ [Broke]) ?fin"
    by (rule relay_server_run.Go_On [OF 1 relay_server_step.Listener_Fails])
  have "\<forall>m \<ge> rl_next (rv_pairs ?init). rv_from ?fin m \<noteq> Some (IpV4 1)"
    by (rule conjunct1 [OF block_holds [OF start lists blocked 2]]) (simp add: spares_def)
  moreover have "rl_next (rv_pairs ?init) \<le> 0" by (simp add: relay_server_init_def relay_init_def)
  ultimately have "rv_from ?fin 0 \<noteq> Some (IpV4 1)" by (elim allE impE)
  with 2 show ?thesis unfolding a_def append_Cons append_Nil by (intro exI conjI)
qed

subsection \<open>A command that straddles a failure\<close>

text \<open>
  A session keeps the limiter of the turn it came in: when a listener fails before its command has been read, a total bandwidth it sets
  is shown from then on, but every connection that comes afterwards shares a limiter that stands at the old one.
\<close>

theorem straddling_command_misses_limiter:
  assumes "rv_main s = hbbr.Relaying a l l2 w" and "rv_limiters s \<noteq> []" and "rv_admins s = []"
    and "admit x (ra_lists a) addr ws = Admin"
    and "relay_listen net fo var p q a (nw_drop_tcp net l (nw_drop_tcp net l2 w)) = hbbr.Relaying a' k k2 w'"
    and "fo_mega fo v = Some m" and "v \<noteq> []" and "list_all (\<lambda>c. \<not> is_space c) v"
    and "admin_input arrived = Some (''tb '' @ v)" and "usage_rows (rv_pairs s) us"
  shows "\<exists>s' a''. relay_server_run x key net fo var p q s [Connected addr ws, Broke, Typed (''tb '' @ v)] s' \<and>
    rv_main s' = hbbr.Relaying a'' k k2 w' \<and> st_total_bandwidth (ra_settings a'') = m \<and>
    last (rv_limiters s') = st_total_bandwidth (ra_settings a')"
proof -
  let ?g = "length (rv_limiters s) - 1"
  define s1 where "s1 = s\<lparr>rv_admins := [?g]\<rparr>"
  define s2 where "s2 = next_turn net fo var p q s1"
  define s3 where "s3 = session_cmd fo (\<lambda>_. []) us (''tb '' @ v) ?g (s2\<lparr>rv_admins := []\<rparr>)"
  have "relay_server_run x key net fo var p q s [Connected addr ws] s1"
    using run_one [OF relay_server_step.Admin_Comes [OF assms(1,4)]] assms(3) by (simp add: s1_def)
  from relay_server_run.Go_On [OF this relay_server_step.Listener_Fails]
  have "relay_server_run x key net fo var p q s [Connected addr ws, Broke] s2" by (simp add: s2_def)
  from relay_server_run.Go_On [OF this relay_server_step.Admin_Types [where gs = "[]" and hs = "[]" and g = ?g and us = us
    and order = "\<lambda>_. []", OF _ assms(9)]]
  have run: "relay_server_run x key net fo var p q s [Connected addr ws, Broke, Typed (''tb '' @ v)] s3"
    using assms(10) by (simp add: s2_def s1_def s3_def)
  have s2: "rv_main s2 = hbbr.Relaying a' k k2 w'" "rv_limiters s2 = rv_limiters s @ [st_limiter (ra_settings a')]"
    using assms(1,5) by (simp_all add: s2_def s1_def next_turn_def)
  have new: "st_limiter (ra_settings a') = st_total_bandwidth (ra_settings a')"
    using assms(5) by (auto simp: relay_listen_def start_settings_def Let_def split: prod.splits option.splits)
  have "split_on CHR '' '' (trim (''tb '' @ v)) = [''tb'', v]"
    using command_words [of "''tb''" v] assms(7,8) by (simp add: is_space_def)
  then have cmd: "snd (relay_check_cmd fo order us (''tb '' @ v) b) =
      b\<lparr>ra_settings := (ra_settings b)\<lparr>st_total_bandwidth := m, st_limiter := m\<rparr>\<rparr>" for b order
    using assms(6) by (simp add: relay_check_cmd_def list_cmd_def settings_cmd_def setting_cmd_def store_some_def)
  have last: "last ((rv_limiters s @ [c])[?g := m]) = c" for c
    using assms(2) by (simp add: list_update_append)
  show ?thesis
    using run by (intro exI [of _ s3]) (simp add: s3_def session_cmd_def s2 cmd [simplified] last [simplified] new Let_def)
qed

end
