(* ===== verification/Relay_Process.thy ===== *)
theory Relay_Process
  imports Process Relay_Server
begin

text \<open>
  The process of the relay server: its main task beside the signals it waits for (\<open>start\<close> of \<open>src/relay_server.rs\<close>), and what ends it.
\<close>

datatype ('w, 'l) relay_process = Relay_Up "('w, 'l) relay_server" "signal list" | Relay_Down ending "signal list"

fun relay_result :: "('w, 'l) relay_server \<Rightarrow> signal list \<Rightarrow> ('w, 'l) relay_process" where
  "relay_result s sigs = (case rv_main s of Relay_Ended w \<Rightarrow> Relay_Down Ended_Error sigs | _ \<Rightarrow> Relay_Up s sigs)"

inductive relay_process_step ::
  "externals \<Rightarrow> string \<Rightarrow> ('w, 'u, 'l) network \<Rightarrow> float_ops \<Rightarrow> (string \<Rightarrow> string option) \<Rightarrow> u16 \<Rightarrow> u16 \<Rightarrow> bool \<Rightarrow>
     (signal \<Rightarrow> bool) \<Rightarrow> ('w, 'l) relay_process \<Rightarrow> ('w, 'l) relay_process \<Rightarrow> bool"
  for x :: externals and key :: string and net :: "('w, 'u, 'l) network" and fo :: float_ops
    and var :: "string \<Rightarrow> string option" and port :: u16 and port2 :: u16 and unix :: bool and installs :: "signal \<Rightarrow> bool" where
  Main_Task: "relay_server_step x key net fo var port port2 e s s' \<Longrightarrow>
    relay_process_step x key net fo var port port2 unix installs (Relay_Up s sigs) (relay_result s' sigs)"
| Signal_Came: "relay_process_step x key net fo var port port2 unix installs (Relay_Up s sigs) (Relay_Up s (sigs @ [sg]))"
| Signal: "listen_signal unix installs sigs = Some r \<Longrightarrow>
    relay_process_step x key net fo var port port2 unix installs (Relay_Up s sigs)
      (Relay_Down (case r of Inr _ \<Rightarrow> Ended_Well | Inl _ \<Rightarrow> Ended_Error) sigs)"

inductive_cases relay_process_stepE: "relay_process_step x key net fo var port port2 unix installs p p'"

text \<open>Only a listener that cannot be opened again ends the main task.\<close>

lemma relay_ends_listening:
  assumes "relay_server_step x key net fo var port port2 e s s'" and "rv_main s = hbbr.Relaying a l l2 w" and "rv_main s' = Relay_Ended w'"
  shows "relay_listen net fo var port port2 a (nw_drop_tcp net l (nw_drop_tcp net l2 w)) = Relay_Ended w'"
  using assms
  by (cases rule: relay_server_step.cases)
    (auto simp: new_client_def session_cmd_def next_turn_def set_task_def Let_def split: hbbr.splits)

text \<open>Why the relay's process is as it is.\<close>

fun relay_explained ::
  "externals \<Rightarrow> string \<Rightarrow> ('w, 'u, 'l) network \<Rightarrow> float_ops \<Rightarrow> (string \<Rightarrow> string option) \<Rightarrow> u16 \<Rightarrow> u16 \<Rightarrow> bool \<Rightarrow>
     (signal \<Rightarrow> bool) \<Rightarrow> ('w, 'l) relay_server \<Rightarrow> ('w, 'l) relay_process \<Rightarrow> bool" where
  "relay_explained x key net fo var port port2 unix installs s0 (Relay_Up s sigs) \<longleftrightarrow>
     (\<exists>es. relay_server_run x key net fo var port port2 s0 es s) \<and> (\<exists>a l l2 w. rv_main s = hbbr.Relaying a l l2 w)"
| "relay_explained x key net fo var port port2 unix installs s0 (Relay_Down Ended_Well sigs) \<longleftrightarrow>
     unix \<and> (\<exists>sg \<in> set sigs. sg \<in> {Terminate, Interrupt, Quit})"
| "relay_explained x key net fo var port port2 unix installs s0 (Relay_Down Ended_Error sigs) \<longleftrightarrow>
     (unix \<and> \<not> list_all installs [Terminate, Interrupt, Quit]) \<or>
     (\<exists>es s a l l2 w w'. relay_server_run x key net fo var port port2 s0 es s \<and> rv_main s = hbbr.Relaying a l l2 w \<and>
        relay_listen net fo var port port2 a (nw_drop_tcp net l (nw_drop_tcp net l2 w)) = Relay_Ended w')"
| "relay_explained x key net fo var port port2 unix installs s0 (Relay_Down Exit_1 sigs) \<longleftrightarrow> False"

lemma relay_process_step_explained:
  assumes "relay_process_step x key net fo var port port2 unix installs p p'"
    and "relay_explained x key net fo var port port2 unix installs s0 p"
  shows "relay_explained x key net fo var port port2 unix installs s0 p'"
  using assms
proof (induction rule: relay_process_step.induct)
  case (Main_Task e s s' sigs)
  then obtain es a l l2 w where run: "relay_server_run x key net fo var port port2 s0 es s" and up: "rv_main s = hbbr.Relaying a l l2 w"
    by auto
  show ?case
  proof (cases "rv_main s'")
    case (Relaying a' k k2 w')
    with relay_server_run.Go_On [OF run Main_Task(1)] show ?thesis by auto
  next
    case (Relay_Ended w')
    with run up relay_ends_listening [OF Main_Task(1) up] show ?thesis by auto
  qed
next
  case (Signal sigs r s)
  then show ?case by (auto simp: listen_signal_def list_ex_iff split: if_splits)
next
  case (Signal_Came s sigs sg)
  then show ?case by simp
qed

interpretation relay_process: invariant_system "relay_process_step x key net fo var port port2 unix installs"
  "relay_explained x key net fo var port port2 unix installs s0"
  by unfold_locales (rule relay_process_step_explained)

text \<open>
  The relay's process ends for a cause as well: after any run it is up in a state its main task reaches by itself, or it was ended by one
  of the three signals, by a signal handler that could not be installed, or by a listener that failed and could not be
  opened again at its port. No client, no administrator and no exhausted relay ends it.
\<close>

theorem relay_process_ends_for_cause:
  assumes "rv_main s0 = hbbr.Relaying a l l2 w"
    and "(relay_process_step x key net fo var port port2 unix installs)\<^sup>*\<^sup>* (Relay_Up s0 []) p"
  shows "relay_explained x key net fo var port port2 unix installs s0 p"
  by (rule relay_process.run_inv [OF assms(2)]) (use assms(1) in \<open>auto intro: relay_server_run.Begin\<close>)

end
