(* ===== verification/Relayed_Session.thy ===== *)
theory Relayed_Session
  imports Punch_Session Relay_Pairing
begin

text \<open>
  A relayed session from end to end, across both servers: A asks the rendezvous server for a relay to B, B gets the request with
  its \<open>uuid\<close> and answers, A's waiting connection gets the answer, and at the relay server B's stream is joined with A's when A
  is there and nobody else has named the \<open>uuid\<close>.
\<close>

subsection \<open>Through the rendezvous server\<close>

lemma relay_request_forwarded:
  assumes "x_decode x bs = Some (Some (RequestRelay rf))" and "pm_get_in_memory (rf_id rf) (pmap s) = Some l"
    and "e_rx_open e" and "handle_tcp x e h key bs (Some k) a ws s = (go_on, sk, s')"
  shows "tx s' = tx s @ [Msg (RequestRelay (rf\<lparr>rf_socket_addr := x_mangle x (e_now e) a\<rparr>))
      (p_socket_addr (peer_at (pmap s) l))]"
    and "tcp_punch s' = (tcp_punch s)(x_into_v4 x a \<mapsto> k)" and "sk = None" and "go_on"
  using assms by (auto simp: handle_tcp_def handle_request_relay_def park_sink_def put_sink_def tx_send_def)

lemma relay_answer_returned:
  assumes "x_decode x bs = Some (Some (RelayResponse rr))" and "x_demangle x (rr_socket_addr rr) = a"
    and "tcp_punch s (x_into_v4 x a) = Some k" and "\<And>m. x_encode x m \<noteq> None"
    and "handle_tcp x e h key bs sk b ws s = (go_on, sk', s')"
  shows "\<exists>r. sink_out s' = sink_out s @ [(k, RelayResponse r)] \<and> rr_rest r = rr_rest rr \<and> rr_socket_addr r = []"
    and "tcp_punch s' (x_into_v4 x a) = None"
proof -
  obtain pk s1 where pk: "get_pk x e h (rr_version rr) (rr_id rr) s = (pk, s1)" by fastforce
  have s1: "tcp_punch s1 = tcp_punch s" "sink_out s1 = sink_out s"
    using get_pk_frame(1) [of x e h "rr_version rr" "rr_id rr" s]
      sink_frames_request(2) [of x e h "rr_version rr" "rr_id rr" s] pk by simp_all
  define s2 where "s2 = (if rr_id rr \<noteq> [] then s1 else s)"
  have s2: "tcp_punch s2 = tcp_punch s" "sink_out s2 = sink_out s" by (simp_all add: s2_def s1)
  obtain rr3 s3 where sent: "s' = send_to_tcp_sync x (RelayResponse rr3) a s3"
    and s3: "s3 = s2 \<or> s3 = snd (get_relay_server h s2)"
    and rr3: "rr_rest rr3 = rr_rest rr" "rr_socket_addr rr3 = []"
    using assms(1,2,5) pk
    by (auto simp: handle_tcp_def handle_relay_response_def s2_def Let_def split: prod.splits if_splits)
  have "tcp_punch s3 = tcp_punch s" "sink_out s3 = sink_out s"
    using s3 s2 by (auto simp: get_relay_server_shared(2) sink_frames(3))
  then show "\<exists>r. sink_out s' = sink_out s @ [(k, RelayResponse r)] \<and> rr_rest r = rr_rest rr \<and> rr_socket_addr r = []"
    and "tcp_punch s' (x_into_v4 x a) = None"
    using rr3 assms(3,4) by (simp_all add: sent send_to_tcp_sinks)
qed

subsection \<open>Frames as steps of the server\<close>

text \<open>The state after a frame of connection \<open>n\<close>.\<close>

definition after_frame :: "externals \<Rightarrow> env \<Rightarrow> string \<Rightarrow> nat \<Rightarrow> conn \<Rightarrow> bytes \<Rightarrow> server \<Rightarrow> server" where
  "after_frame x e key n c bs v =
     (case handle_tcp x e (c_handle c) key bs (c_sink c) (c_addr c) (c_ws c) (sv_shared v) of
        (go_on, sk, s') \<Rightarrow>
          if go_on then v\<lparr>sv_shared := s', sv_conns := (sv_conns v)(n \<mapsto> c\<lparr>c_sink := sk\<rparr>)\<rparr>
          else v\<lparr>sv_shared := close_connection x (c_addr c) sk s', sv_conns := (sv_conns v)(n := None)\<rparr>)"

lemma after_frame_step:
  "P e \<Longrightarrow> sv_conns v n = Some c \<Longrightarrow> server_step x key P v (after_frame x e key n c bs v)"
  by (auto simp: after_frame_def split: prod.split intro: server_step.Frame server_step.Last_Frame)

lemma after_frame_fields:
  assumes "handle_tcp x e (c_handle c) key bs (c_sink c) (c_addr c) (c_ws c) (sv_shared v) = (go_on, sk, s')"
  shows "sink_out (sv_shared (after_frame x e key n c bs v)) = sink_out s'"
    and "sv_failed (after_frame x e key n c bs v) = sv_failed v"
    and "go_on \<Longrightarrow> sv_shared (after_frame x e key n c bs v) = s'"
  using assms by (simp_all add: after_frame_def)

subsection \<open>From end to end\<close>

text \<open>
  C17. A relayed session comes about. When A asks over a connection for a relay to B, whom the server has in memory, the request is queued for B's
  registered address with the \<open>uuid\<close> and everything else unchanged but A's address, and sent as soon as the main loop has taken what
  was queued before it, and A's connection waits for the answer. When B answers with that address, at any time while A still waits, A's
  connection gets B's answer with B's address cleared. And at the relay, in every state of every run in which A's stream waits under the \<open>uuid\<close> and
  nobody else has named it so far, B's request, as soon as it is read, is joined with A's stream. (Requests that overlap can miss each other:
  \<open>overlapping_requests_lost\<close>.)
\<close>

theorem relayed_session:
  assumes "sv_conns v n = Some c" and "c_sink c = Some k" and "x_decode x bs = Some (Some (RequestRelay rf))"
    and "peer_of (pmap (sv_shared v)) (rf_id rf) = Some pb" and "e_rx_open e"
    and "v1 = after_frame x e key n c bs v" and "sv_failed v = None" and "P e1" and "\<forall>m b. e_send e1 m b"
    and "sv_conns v3 j = Some d" and "x_decode x bs' = Some (Some (RelayResponse rr))"
    and "rr_socket_addr rr = x_mangle x (e_now e) (c_addr c)" and "x_demangle x (x_mangle x (e_now e) (c_addr c)) = c_addr c"
    and "\<forall>m. x_encode x m \<noteq> None" and "tcp_punch (sv_shared v3) (x_into_v4 x (c_addr c)) = Some k"
    and "relay_reaches x rkey q" and "rl_tasks q na = Some (Sleeping (rf_uuid rf))"
    and "\<And>i. i \<noteq> na \<Longrightarrow> rl_asked q i \<noteq> Some (rf_uuid rf)"
    and "rl_tasks q nb = Some (Reading b stb)" and "asks_for x rkey (rf_uuid rf) fb"
    and "q' = first_message x rkey nb b stb (Some fb) (q\<lparr>rl_heard := (rl_heard q)(nb \<mapsto> fb)\<rparr>)"
  shows "(\<exists>m. tx (sv_shared v1) = tx (sv_shared v) @ [Msg (RequestRelay m) (p_socket_addr pb)] \<and> rf_uuid m = rf_uuid rf \<and>
      rf_rest m = rf_rest rf \<and> rf_socket_addr m = x_mangle x (e_now e) (c_addr c) \<and>
      (\<exists>w. (server_step x key P)\<^sup>*\<^sup>* v1 w \<and> (RequestRelay m, p_socket_addr pb) \<in> set (udp_out (sv_shared w)))) \<and>
    tcp_punch (sv_shared v1) (x_into_v4 x (c_addr c)) = Some k \<and>
    (\<exists>r. sink_out (sv_shared (after_frame x e3 key j d bs' v3)) = sink_out (sv_shared v3) @ [(k, RelayResponse r)] \<and>
       rr_rest r = rr_rest rr \<and> rr_socket_addr r = []) \<and>
    relay_step x rkey q q' \<and>
    (\<exists>st peer. rl_tasks q' nb = Some (Relaying (rf_uuid rf) (usage_id b) st peer) \<and> rs_task st = nb \<and> rs_task peer = na)"
proof -
  obtain l where l: "pm_get_in_memory (rf_id rf) (pmap (sv_shared v)) = Some l" "peer_at (pmap (sv_shared v)) l = pb"
    using assms(4) by (auto simp: peer_of_def pm_get_in_memory_def)
  obtain go_on sk s1 where h: "handle_tcp x e (c_handle c) key bs (Some k) (c_addr c) (c_ws c) (sv_shared v) = (go_on, sk, s1)"
    by (metis prod_cases3)
  note forwarded = relay_request_forwarded [OF assms(3) l(1) assms(5) h, unfolded l(2)]
  note v1 = after_frame_fields(2,3) [OF h [folded assms(2)], of n, folded assms(6)]
  let ?m = "rf\<lparr>rf_socket_addr := x_mangle x (e_now e) (c_addr c)\<rparr>"
  have queued: "tx (sv_shared v1) = tx (sv_shared v) @ [Msg (RequestRelay ?m) (p_socket_addr pb)]"
    and waits: "tcp_punch (sv_shared v1) (x_into_v4 x (c_addr c)) = Some k" and up: "sv_failed v1 = None"
    using forwarded v1 assms(7) by simp_all
  have request: "\<exists>m. tx (sv_shared v1) = tx (sv_shared v) @ [Msg (RequestRelay m) (p_socket_addr pb)] \<and> rf_uuid m = rf_uuid rf \<and>
      rf_rest m = rf_rest rf \<and> rf_socket_addr m = x_mangle x (e_now e) (c_addr c) \<and>
      (\<exists>w. (server_step x key P)\<^sup>*\<^sup>* v1 w \<and> (RequestRelay m, p_socket_addr pb) \<in> set (udp_out (sv_shared w)))"
    using queued queued_is_sent [of v1 "tx (sv_shared v)" _ _ P e1, OF queued up assms(8,9), of x key]
    by (intro exI [of _ ?m]) simp
  obtain g sk' s4 where h': "handle_tcp x e3 (c_handle d) key bs' (c_sink d) (c_addr d) (c_ws d) (sv_shared v3) = (g, sk', s4)"
    by (metis prod_cases3)
  have "x_demangle x (rr_socket_addr rr) = c_addr c" using assms(12,13) by simp
  note answered = relay_answer_returned(1) [OF assms(11) this assms(15) _ h']
  have "\<exists>r. sink_out (sv_shared (after_frame x e3 key j d bs' v3)) = sink_out (sv_shared v3) @ [(k, RelayResponse r)] \<and>
      rr_rest r = rr_rest rr \<and> rr_socket_addr r = []"
    using answered assms(14) by (simp add: after_frame_fields(1) [OF h'])
  with request waits sole_waiter_joined [OF assms(16-21)] show ?thesis by blast
qed

text \<open>A asks for \<open>''peer-b''\<close>; the frame 1 is B's answer, every other one the request.\<close>

definition relayed_rf :: request_relay where
  "relayed_rf = \<lparr>rf_id = ''peer-b'', rf_uuid = ''u'', rf_socket_addr = [], rf_licence_key = [], rf_rest = [5]\<rparr>"

definition relayed_rr :: relay_response where
  "relayed_rr = \<lparr>rr_socket_addr = [77, 0], rr_relay_server = [], rr_id = [], rr_pk = [], rr_version = [], rr_rest = [6]\<rparr>"

definition relayed_ext :: externals where
  "relayed_ext = sample_ext\<lparr>x_decode := \<lambda>bs. Some (Some (if bs = [1] then RelayResponse relayed_rr else RequestRelay relayed_rf))\<rparr>"

text \<open>A's stream is at the relay, and B's has come.\<close>

lemma relayed_streams:
  assumes "comes_for x key u a ws bs" and "admit x l b ws' = Client"
  obtains q where "relay_reaches x key q" "rl_tasks q 0 = Some (Sleeping u)" "\<And>i. i \<noteq> 0 \<Longrightarrow> rl_asked q i \<noteq> Some u"
    "rl_tasks q 1 = Some (Reading b (new_stream 1 ws'))"
proof -
  obtain p where p: "(relay_step x key)\<^sup>*\<^sup>* relay_init p" "rl_next p = Suc 0" "rl_tasks p = (rl_tasks relay_init)(0 \<mapsto> Sleeping u)"
    "rl_asked p = (rl_asked relay_init)(0 \<mapsto> u)"
    by (rule client_waits [OF assms(1) sample_start(1) sample_start(2) [symmetric]])
  have "relay_reaches x key p" by (rule pairing_runs.run_inv [OF p(1) relay_reaches.Start])
  from relay_reaches.Step [OF this relay_step.Arrive [where s = p and hdr = "\<lambda>_. None", OF refl assms(2)]] p(2-)
  show thesis by (intro that [of "set_task 1 (Reading b (new_stream 1 ws')) (p\<lparr>rl_next := Suc (Suc 0)\<rparr>)"])
    (simp_all add: pair_addr_no_header relay_init_def)
qed

lemma relayed_session_witness:
  "\<exists>(v1 :: server) (w :: server) m q' st peer. (server_step relayed_ext [] (\<lambda>_. True))\<^sup>*\<^sup>* v1 w \<and>
     (RequestRelay m, SocketV4 167772162 5000) \<in> set (udp_out (sv_shared w)) \<and> rf_uuid m = ''u'' \<and>
     relay_reaches relayed_ext [] q' \<and> rl_tasks q' 1 = Some (Relaying ''u'' (usage_id (SocketV4 1 7)) st peer) \<and> rs_task peer = 0"
proof -
  let ?x = relayed_ext and ?a = "SocketV4 167772161 77" and ?b = "SocketV4 167772162 5000" and ?e = "sample_env sample_now"
  let ?c = "\<lparr>c_handle = sample_handle, c_addr = ?a, c_ws = False, c_sink = Some (TcpStreamSink 0)\<rparr>"
    and ?d = "\<lparr>c_handle = sample_handle, c_addr = ?b, c_ws = False, c_sink = Some (TcpStreamSink 1)\<rparr>"
  let ?v = "(sample_server 5)\<lparr>sv_conns := [0 \<mapsto> ?c, 1 \<mapsto> ?d], sv_next := 2\<rparr>"
  let ?v1 = "after_frame ?x ?e [] 0 ?c [] ?v"
  obtain l where l: "admit ?x l (SocketV4 1 7) False = Client"
    by (rule that [of "\<lparr>blacklist = {}, blocklist = {}\<rparr>"]) (simp add: admit_def relayed_ext_def sample_ext_def Let_def)
  have dec: "x_decode ?x [] = Some (Some (RequestRelay relayed_rf))" "x_decode ?x [1] = Some (Some (RelayResponse relayed_rr))"
    by (simp_all add: relayed_ext_def)
  have ask: "asks_for ?x [] (rf_uuid relayed_rf) []" by (simp add: asks_for_def dec) (simp add: relayed_rf_def)
  have "comes_for ?x [] (rf_uuid relayed_rf) (SocketV4 1 7) False []" using l ask by (auto simp: comes_for_def)
  then obtain q where q: "relay_reaches ?x [] q" "rl_tasks q 0 = Some (Sleeping (rf_uuid relayed_rf))"
    "\<And>i. i \<noteq> 0 \<Longrightarrow> rl_asked q i \<noteq> Some (rf_uuid relayed_rf)" "rl_tasks q 1 = Some (Reading (SocketV4 1 7) (new_stream 1 False))"
    using relayed_streams [OF _ l] by metis
  have home: "peer_of (pmap (sv_shared ?v)) (rf_id relayed_rf) = Some (sample_peer 5)"
    by (simp add: sample_server_def relayed_rf_def sample_shared_def peer_of_def)
  have parts: "rr_socket_addr relayed_rr = x_mangle ?x (e_now ?e) (c_addr ?c)" "x_demangle ?x (x_mangle ?x (e_now ?e) (c_addr ?c)) = c_addr ?c"
    "\<forall>m. x_encode ?x m \<noteq> None" "e_rx_open ?e" "\<forall>m b. e_send ?e m b"
    by (simp_all add: relayed_ext_def relayed_rr_def sample_ext_def)
  obtain g sk s1 where h: "handle_tcp ?x ?e (c_handle ?c) [] [] (Some (TcpStreamSink 0)) (c_addr ?c) (c_ws ?c) (sv_shared ?v) = (g, sk, s1)"
    by (metis prod_cases3)
  have "pm_get_in_memory (rf_id relayed_rf) (pmap (sv_shared ?v)) = Some 0"
    by (simp add: sample_server_def relayed_rf_def pm_get_in_memory_def sample_shared_def)
  note forwarded = relay_request_forwarded [OF dec(1) this parts(4) h]
  have v1: "sv_shared ?v1 = s1" "sv_conns ?v1 = (sv_conns ?v)(0 \<mapsto> ?c\<lparr>c_sink := sk\<rparr>)"
    using h forwarded(4) by (simp_all add: after_frame_def)
  then have still: "tcp_punch (sv_shared ?v1) (x_into_v4 ?x (c_addr ?c)) = Some (TcpStreamSink 0)" "sv_conns ?v1 1 = Some ?d"
    using forwarded(2) by simp_all
  have v: "sv_conns ?v 0 = Some ?c" "c_sink ?c = Some (TcpStreamSink 0)" "sv_failed ?v = None" by (simp_all add: sample_server_def)
  note all = relayed_session [of ?v 0 ?c "TcpStreamSink 0" ?x "[]" relayed_rf "sample_peer 5" ?e ?v1 "[]" "\<lambda>_. True" ?e ?v1 1 ?d "[1]" relayed_rr "[]" q 0 1,
      OF v(1,2) dec(1) home parts(4) refl v(3) _ parts(5) still(2) dec(2) parts(1-3) still(1) q ask refl]
  then obtain m w where m: "rf_uuid m = rf_uuid relayed_rf" "(server_step ?x [] (\<lambda>_. True))\<^sup>*\<^sup>* ?v1 w"
    "(RequestRelay m, p_socket_addr (sample_peer 5)) \<in> set (udp_out (sv_shared w))" by blast
  let ?q' = "first_message ?x [] 1 (SocketV4 1 7) (new_stream 1 False) (Some []) (q\<lparr>rl_heard := (rl_heard q)(1 \<mapsto> [])\<rparr>)"
  from all obtain st peer where j: "relay_step ?x [] q ?q'"
    "rl_tasks ?q' 1 = Some (Relaying (rf_uuid relayed_rf) (usage_id (SocketV4 1 7)) st peer)" "rs_task peer = 0" by blast
  have "relay_reaches ?x [] ?q'" by (rule relay_reaches.Step [OF q(1) j(1)])
  with m j show ?thesis
    by (intro exI [of _ ?v1] exI [of _ w] exI [of _ m] exI [of _ ?q']) (simp add: relayed_rf_def sample_peer_def)
qed

end
