(* ===== verification/Keys.thy ===== *)
theory Keys
  imports Text_Parsing
begin

text \<open>
  Where the servers' key comes from: \<open>gen_sk\<close> of \<open>src/common.rs\<close>, which reads the key file or writes a new pair, and the two
  functions \<open>get_server_sk\<close>, of \<open>src/rendezvous_server.rs\<close> and \<open>src/relay_server.rs\<close>, which turn the \<open>--key\<close> argument into the key
  that clients must show. The base64 coding and the key generator are parameters. The file system is the part of \<open>std::fs\<close> used: which
  names exist, whether they open, can be created, and how much the disk takes.
\<close>

record coding =
  b64_encode :: "bytes \<Rightarrow> string"
  b64_decode :: "string \<Rightarrow> bytes option"

definition SECRETKEYBYTES :: nat where "SECRETKEYBYTES = 64"

text \<open>A file that cannot be read to the end as UTF-8 text is \<open>Garbled\<close>.\<close>

datatype content = Plain string | Garbled

record files =
  fs_file :: "string \<rightharpoonup> content"
  fs_open :: "string \<Rightarrow> bool"
  fs_create :: "string \<Rightarrow> bool"
  fs_room :: "string \<Rightarrow> nat"

definition open_file :: "string \<Rightarrow> files \<Rightarrow> content option" where
  "open_file name fs = (if fs_open fs name then fs_file fs name else None)"

text \<open>\<open>File::create\<close> then \<open>write_all\<close>: what fits is written, and the flag tells whether all did.\<close>

definition write_file :: "string \<Rightarrow> string \<Rightarrow> files \<Rightarrow> bool \<times> files" where
  "write_file name s fs =
     (length s \<le> fs_room fs name,
      fs\<lparr>fs_file := (fs_file fs)(name \<mapsto> Plain (take (fs_room fs name) s))\<rparr>)"

definition sk_file :: string where "sk_file = ''id_ed25519''"

definition pub_file :: string where "pub_file = sk_file @ ''.pub''"

text \<open>The process may be ended instead of returning a key.\<close>

datatype key_result = Exit | Key string "bytes option"

text \<open>
  The generator is drawn from again while the printed key holds a slash or a colon, 300 times
  at most; \<open>draws i\<close> is the \<open>i\<close>-th pair of public and secret key.
\<close>

definition plain_key :: "string \<Rightarrow> bool" where
  "plain_key pk \<longleftrightarrow> CHR ''/'' \<notin> set pk \<and> CHR '':'' \<notin> set pk"

fun draw_key :: "coding \<Rightarrow> (nat \<Rightarrow> bytes \<times> bytes) \<Rightarrow> nat \<Rightarrow> nat \<Rightarrow> string \<times> bytes" where
  "draw_key cd draws i 0 = (b64_encode cd (fst (draws i)), snd (draws i))"
| "draw_key cd draws i (Suc n) =
     (if plain_key (b64_encode cd (fst (draws i))) then (b64_encode cd (fst (draws i)), snd (draws i))
      else draw_key cd draws (Suc i) n)"

text \<open>\<open>later\<close> is what the file system has become when a wait is over.\<close>

definition gen_sk ::
  "coding \<Rightarrow> (nat \<Rightarrow> bytes \<times> bytes) \<Rightarrow> nat \<Rightarrow> files \<Rightarrow> files \<Rightarrow> key_result \<times> files" where
  "gen_sk cd draws wait later fs0 =
     (let fs = (if 0 < wait \<and> fs_file fs0 sk_file = None then later else fs0)
      in case open_file sk_file fs of
           Some (Plain contents) \<Rightarrow>
             (let sk = (case b64_decode cd (trim contents) of Some b \<Rightarrow> b | None \<Rightarrow> [])
              in if length sk = SECRETKEYBYTES
                 then (Key (b64_encode cd (drop (SECRETKEYBYTES div 2) sk)) (Some sk), fs)
                 else (Exit, fs))
         | Some Garbled \<Rightarrow> (Key [] None, fs)
         | None \<Rightarrow>
             (let (pk, sk) = draw_key cd draws 0 300
              in if fs_create fs pub_file then
                   (let (_, fs1) = write_file pub_file pk fs
                    in if fs_create fs1 sk_file then
                         (let (ok, fs2) = write_file sk_file (b64_encode cd sk) fs1
                          in if ok then (Key pk (Some sk), fs2) else (Key [] None, fs2))
                       else (Key [] None, fs1))
                 else (Key [] None, fs)))"

text \<open>A key argument that is itself a secret key.\<close>

definition crypto_arg :: "coding \<Rightarrow> string \<Rightarrow> bytes option" where
  "crypto_arg cd key =
     (case b64_decode cd key of
        Some sk \<Rightarrow> if length sk = SECRETKEYBYTES then Some sk else None
      | None \<Rightarrow> None)"

definition get_server_sk ::
  "coding \<Rightarrow> (nat \<Rightarrow> bytes \<times> bytes) \<Rightarrow> files \<Rightarrow> string \<Rightarrow> key_result \<times> files" where
  "get_server_sk cd draws fs key0 =
     (let (key, out_sk) =
        (case crypto_arg cd key0 of
           Some sk \<Rightarrow> (b64_encode cd (drop (SECRETKEYBYTES div 2) sk), Some sk)
         | None \<Rightarrow> (key0, None))
      in if key = [] \<or> key = ''-'' \<or> key = ''_'' then
           (case gen_sk cd draws 0 fs fs of
              (Key pk sk, fs') \<Rightarrow> (Key (if key \<noteq> [] then pk else key) sk, fs')
            | (Exit, fs') \<Rightarrow> (Exit, fs'))
         else (Key key out_sk, fs))"

text \<open>The relay server needs no secret key; it waits 300 ms for the file of the other server.\<close>

definition relay_get_server_sk ::
  "coding \<Rightarrow> (nat \<Rightarrow> bytes \<times> bytes) \<Rightarrow> files \<Rightarrow> files \<Rightarrow> string \<Rightarrow> key_result \<times> files" where
  "relay_get_server_sk cd draws later fs key0 =
     (let key =
        (case crypto_arg cd key0 of
           Some sk \<Rightarrow> b64_encode cd (drop (SECRETKEYBYTES div 2) sk)
         | None \<Rightarrow> key0)
      in if key = ''-'' \<or> key = ''_'' then gen_sk cd draws 300 later fs
         else (Key key None, fs))"

definition key_of :: "key_result \<Rightarrow> string option" where
  "key_of r = (case r of Key k _ \<Rightarrow> Some k | Exit \<Rightarrow> None)"

subsection \<open>What the parameters promise\<close>

text \<open>Standard base64 with padding: it is read back, has no white space, and it is no shorter than what it codes.\<close>

definition base64_ok :: "coding \<Rightarrow> bool" where
  "base64_ok cd \<longleftrightarrow>
     (\<forall>b. b64_decode cd (b64_encode cd b) = Some b \<and> list_all (\<lambda>c. \<not> is_space c) (b64_encode cd b) \<and>
        length b \<le> length (b64_encode cd b))"

text \<open>An Ed25519 pair in \<open>libsodium\<close>'s layout: the secret key ends in the public one.\<close>

definition ed25519_pairs :: "(nat \<Rightarrow> bytes \<times> bytes) \<Rightarrow> bool" where
  "ed25519_pairs draws \<longleftrightarrow>
     (\<forall>i. length (snd (draws i)) = SECRETKEYBYTES \<and> drop (SECRETKEYBYTES div 2) (snd (draws i)) = fst (draws i))"

lemma base64_okD:
  assumes "base64_ok cd"
  shows "b64_decode cd (b64_encode cd b) = Some b" and "trim (b64_encode cd b) = b64_encode cd b"
    and "32 \<le> length b \<Longrightarrow> b64_encode cd b \<notin> {[], ''-'', ''_''}"
proof -
  have b: "b64_decode cd (b64_encode cd b) = Some b" "list_all (\<lambda>c. \<not> is_space c) (b64_encode cd b)"
    "length b \<le> length (b64_encode cd b)"
    using assms unfolding base64_ok_def by blast+
  show "b64_decode cd (b64_encode cd b) = Some b" by (rule b(1))
  show "trim (b64_encode cd b) = b64_encode cd b"
    by (rule trim_free) (use b(2) in \<open>simp add: list_all_iff\<close>)
  assume "32 \<le> length b"
  then have "4 < length (b64_encode cd b)" using b(3) by simp
  then show "b64_encode cd b \<notin> {[], ''-'', ''_''}" by auto
qed

subsection \<open>The loop of draws\<close>

lemma draw_key_pair:
  "\<exists>j. i \<le> j \<and> j \<le> i + n \<and> draw_key cd draws i n = (b64_encode cd (fst (draws j)), snd (draws j)) \<and>
     (plain_key (b64_encode cd (fst (draws j))) \<or> j = i + n) \<and>
     (\<forall>k. i \<le> k \<and> k < j \<longrightarrow> \<not> plain_key (b64_encode cd (fst (draws k))))"
proof (induction n arbitrary: i)
  case (Suc n)
  show ?case
  proof (cases "plain_key (b64_encode cd (fst (draws i)))")
    case False
    obtain j where "Suc i \<le> j" "j \<le> Suc i + n"
      "draw_key cd draws (Suc i) n = (b64_encode cd (fst (draws j)), snd (draws j))"
      "plain_key (b64_encode cd (fst (draws j))) \<or> j = Suc i + n"
      "\<forall>k. Suc i \<le> k \<and> k < j \<longrightarrow> \<not> plain_key (b64_encode cd (fst (draws k)))"
      using Suc by blast
    moreover have "\<not> plain_key (b64_encode cd (fst (draws k)))" if "i \<le> k" "k < j" for k
      using False calculation(5) that by (cases "k = i") auto
    ultimately show ?thesis using False by (intro exI [of _ j]) auto
  qed (intro exI [of _ i], auto)
qed auto

text \<open>
  C34. The key that is generated is the first of at most 301 pairs whose printed form has neither slash nor colon, and the
  last of them when none has; its printed form always belongs to its secret half.
\<close>

theorem generated_key_first_plain:
  "\<exists>j \<le> 300. draw_key cd draws 0 300 = (b64_encode cd (fst (draws j)), snd (draws j)) \<and>
     (plain_key (fst (draw_key cd draws 0 300)) \<or> j = 300) \<and>
     (\<forall>k < j. \<not> plain_key (b64_encode cd (fst (draws k))))"
proof -
  obtain j where "j \<le> 300" "draw_key cd draws 0 300 = (b64_encode cd (fst (draws j)), snd (draws j))"
    "plain_key (b64_encode cd (fst (draws j))) \<or> j = 300"
    "\<forall>k < j. \<not> plain_key (b64_encode cd (fst (draws k)))"
    using draw_key_pair [of 0 300 cd draws] by auto
  then show ?thesis by (intro exI [of _ j]) simp
qed

subsection \<open>The key survives a restart\<close>

text \<open>What \<open>gen_sk\<close> does, branch by branch.\<close>

lemma gen_sk_read:
  assumes "open_file sk_file fs = Some (Plain contents)" and "b64_decode cd (trim contents) = Some sk"
    and "length sk = SECRETKEYBYTES"
  shows "gen_sk cd draws wait later fs = (Key (b64_encode cd (drop 32 sk)) (Some sk), fs)"
  using assms by (auto simp: gen_sk_def open_file_def SECRETKEYBYTES_def split: if_splits)

lemma gen_sk_generate:
  assumes "fs_file fs sk_file = None" and "Key pk (Some sk) = fst (gen_sk cd draws 0 later fs)"
  shows "\<exists>j. pk = b64_encode cd (fst (draws j)) \<and> sk = snd (draws j)"
    and "fs_file (snd (gen_sk cd draws 0 later fs)) sk_file = Some (Plain (b64_encode cd sk))"
    and "fs_file (snd (gen_sk cd draws 0 later fs)) pub_file = Some (Plain (take (fs_room fs pub_file) pk))"
    and "fs_open (snd (gen_sk cd draws 0 later fs)) = fs_open fs"
proof -
  obtain j where j: "draw_key cd draws 0 300 = (b64_encode cd (fst (draws j)), snd (draws j))"
    using draw_key_pair [of 0 300 cd draws] by blast
  have ne: "sk_file \<noteq> pub_file" by (simp add: sk_file_def pub_file_def)
  have "open_file sk_file fs = None" using assms(1) by (simp add: open_file_def)
  with assms(2) ne show "\<exists>j. pk = b64_encode cd (fst (draws j)) \<and> sk = snd (draws j)"
    "fs_file (snd (gen_sk cd draws 0 later fs)) sk_file = Some (Plain (b64_encode cd sk))"
    "fs_file (snd (gen_sk cd draws 0 later fs)) pub_file = Some (Plain (take (fs_room fs pub_file) pk))"
    "fs_open (snd (gen_sk cd draws 0 later fs)) = fs_open fs"
    by (auto simp: gen_sk_def write_file_def Let_def j split: if_splits)
qed

lemma gen_sk_stored:
  assumes "base64_ok cd" and "ed25519_pairs draws" and "fs_open fs sk_file"
    and "gen_sk cd draws 0 later fs = (Key pk (Some sk), fs')"
  shows "fs_open fs' sk_file \<and> length sk = SECRETKEYBYTES \<and> pk = b64_encode cd (drop 32 sk) \<and>
    (\<exists>contents. fs_file fs' sk_file = Some (Plain contents) \<and> b64_decode cd (trim contents) = Some sk)"
proof (cases "fs_file fs sk_file")
  case None
  note gen = gen_sk_generate [OF None, of pk sk cd draws later, unfolded assms(4), simplified]
  then obtain j where j: "pk = b64_encode cd (fst (draws j))" "sk = snd (draws j)" by blast
  have "length sk = SECRETKEYBYTES" "fst (draws j) = drop 32 sk"
    using assms(2) by (simp_all add: j(2) ed25519_pairs_def SECRETKEYBYTES_def)
  with gen(2,4) j assms(3) base64_okD(1,2) [OF assms(1)] show ?thesis by simp
next
  case (Some c)
  with assms(3,4) show ?thesis
    by (cases c) (auto simp: gen_sk_def open_file_def SECRETKEYBYTES_def Let_def split: if_splits option.splits)
qed

text \<open>
  The key survives a restart: after \<open>gen_sk\<close> has returned a pair, read or newly generated, every later call
  finds the same pair in the file, whatever the generator would draw and however long the caller waits.
\<close>

theorem key_survives_restart:
  assumes "base64_ok cd" and "ed25519_pairs draws" and "fs_open fs sk_file"
    and "gen_sk cd draws 0 fs fs = (Key pk (Some sk), fs')"
  shows "gen_sk cd draws' wait later fs' = (Key pk (Some sk), fs')"
proof -
  obtain contents where "fs_open fs' sk_file" "length sk = SECRETKEYBYTES" "pk = b64_encode cd (drop 32 sk)"
    "fs_file fs' sk_file = Some (Plain contents)" "b64_decode cd (trim contents) = Some sk"
    using gen_sk_stored [OF assms] by blast
  then show ?thesis by (simp add: gen_sk_read open_file_def)
qed

subsection \<open>One key for both servers\<close>

lemma gen_sk_key:
  "gen_sk cd draws wait later fs = (Key pk sk, fs') \<Longrightarrow> pk \<noteq> [] \<Longrightarrow> \<exists>s. sk = Some s"
  by (auto simp: gen_sk_def SECRETKEYBYTES_def Let_def split: option.splits content.splits if_splits prod.splits)
    metis+

lemma crypto_arg_length: "crypto_arg cd key = Some sk \<Longrightarrow> length sk = 64"
  by (simp add: crypto_arg_def SECRETKEYBYTES_def split: option.splits if_splits)

text \<open>
  C18. A relay server started after the rendezvous server asks clients for the same key. When the rendezvous server has finished its start with
  a nonempty key argument and has come out with a key (so the key file, if it was asked for, could be opened), a relay server that starts
  afterwards with the same argument on the files the first one left arrives at the same public key, whether the argument is a public key, a
  secret key, or the request to use the key file; and the secret key that signs belongs to it. (Started at the same moment on an
  empty directory the two can end with different keys: see \<open>Key_Race\<close>.)
\<close>

theorem servers_agree_on_key:
  assumes "base64_ok cd" and "ed25519_pairs draws" and "fs_open fs sk_file" and "arg_key \<noteq> []"
    and "get_server_sk cd draws fs arg_key = (Key key sk, fs')" and "key \<noteq> []"
  shows "key_of (fst (relay_get_server_sk cd draws' later fs' arg_key)) = Some key \<and>
    (\<forall>s. sk = Some s \<longrightarrow> key = b64_encode cd (drop 32 s))"
proof (cases "crypto_arg cd arg_key")
  case (Some s)
  then have "b64_encode cd (drop 32 s) \<notin> {[], ''-'', ''_''}"
    using crypto_arg_length [OF Some] by (intro base64_okD(3) [OF assms(1)]) simp
  then have "get_server_sk cd draws fs arg_key = (Key (b64_encode cd (drop 32 s)) (Some s), fs)"
    "relay_get_server_sk cd draws' later fs' arg_key = (Key (b64_encode cd (drop 32 s)) None, fs')"
    using Some by (simp_all add: get_server_sk_def relay_get_server_sk_def SECRETKEYBYTES_def)
  with assms(5) show ?thesis by (auto simp: key_of_def)
next
  case None
  show ?thesis
  proof (cases "arg_key = ''-'' \<or> arg_key = ''_''")
    case False
    with None assms(4,5) show ?thesis
      by (auto simp: get_server_sk_def relay_get_server_sk_def key_of_def Let_def)
  next
    case True
    with None assms(4,5) have gen: "gen_sk cd draws 0 fs fs = (Key key sk, fs')"
      by (auto simp: get_server_sk_def Let_def split: prod.splits key_result.splits)
    with gen_sk_key assms(6) obtain s where s: "sk = Some s" by blast
    from gen_sk_stored [OF assms(1-3) gen [unfolded s]] obtain contents where
      "fs_open fs' sk_file" "length s = SECRETKEYBYTES" "key = b64_encode cd (drop 32 s)"
      "fs_file fs' sk_file = Some (Plain contents)" "b64_decode cd (trim contents) = Some s" by blast
    moreover from this have "gen_sk cd draws' 300 later fs' = (Key key (Some s), fs')"
      by (simp add: gen_sk_read open_file_def)
    ultimately show ?thesis
      using True None s by (auto simp: relay_get_server_sk_def key_of_def)
  qed
qed

subsection \<open>A concrete coding\<close>

text \<open>Two letters per byte: not base64, but a coding that keeps the same promises. For the witnesses.\<close>

definition nib_char :: "nat \<Rightarrow> char" where "nib_char n = char_of (65 + n)"

definition nib_val :: "char \<Rightarrow> nat" where "nib_val c = of_char c - 65"

fun un_hex :: "string \<Rightarrow> bytes option" where
  "un_hex [] = Some []"
| "un_hex [c] = None"
| "un_hex (c # d # s) = map_option (\<lambda>bs. word_of_nat (16 * nib_val c + nib_val d) # bs) (un_hex s)"

definition sample_coding :: coding where
  "sample_coding =
     \<lparr>b64_encode = \<lambda>bs. concat (map (\<lambda>w. [nib_char (unat w div 16), nib_char (unat w mod 16)]) bs),
      b64_decode = un_hex\<rparr>"

lemma nib: "n < 16 \<Longrightarrow> nib_val (nib_char n) = n" "n < 16 \<Longrightarrow> \<not> is_space (nib_char n)"
  by (auto simp: nib_val_def nib_char_def is_space_def dest!: arg_cong [where f = "of_char :: char \<Rightarrow> nat"])

lemma sample_coding_ok: "base64_ok sample_coding"
proof -
  have byte: "unat w div 16 < 16" for w :: byte
    using unsigned_less [of w, where 'a = nat] by (simp add: less_mult_imp_div_less)
  have "un_hex (concat (map (\<lambda>w. [nib_char (unat w div 16), nib_char (unat w mod 16)]) b)) = Some b" for b :: bytes
    by (induction b) (simp_all add: nib byte)
  moreover have "list_all (\<lambda>c. \<not> is_space c)
      (concat (map (\<lambda>w. [nib_char (unat w div 16), nib_char (unat w mod 16)]) b))" for b :: bytes
    by (induction b) (simp_all add: nib byte)
  moreover have "length b \<le> length (concat (map (\<lambda>w. [nib_char (unat w div 16), nib_char (unat w mod 16)]) b))"
    for b :: bytes by (induction b) simp_all
  ultimately show ?thesis by (simp add: base64_ok_def sample_coding_def)
qed

definition sample_draws :: "nat \<Rightarrow> bytes \<times> bytes" where
  "sample_draws i = (replicate 32 (word_of_nat i), replicate 64 (word_of_nat i))"

lemma sample_draws_ok: "ed25519_pairs sample_draws"
  by (simp add: ed25519_pairs_def sample_draws_def SECRETKEYBYTES_def)

definition empty_dir :: files where
  "empty_dir = \<lparr>fs_file = \<lambda>_. None, fs_open = \<lambda>_. True, fs_create = \<lambda>_. True, fs_room = \<lambda>_. 4096\<rparr>"

text \<open>A first start in an empty directory.\<close>

lemma sample_first_start:
  "\<exists>pk sk fs'. gen_sk sample_coding sample_draws 0 empty_dir empty_dir = (Key pk (Some sk), fs') \<and> pk \<noteq> []"
proof -
  obtain j where j: "draw_key sample_coding sample_draws 0 300
      = (b64_encode sample_coding (fst (sample_draws j)), snd (sample_draws j))"
    using draw_key_pair [of 0 300 sample_coding sample_draws] by blast
  have len: "length (b64_encode sample_coding (snd (sample_draws j))) \<le> 4096"
  proof -
    have "length (b64_encode sample_coding b) = 2 * length b" for b
      by (simp add: sample_coding_def) (induction b, simp_all)
    then show ?thesis by (simp add: sample_draws_def)
  qed
  have "b64_encode sample_coding (fst (sample_draws j)) \<noteq> []"
    using base64_okD(3) [OF sample_coding_ok, of "fst (sample_draws j)"] by (simp add: sample_draws_def)
  with len show ?thesis
    by (simp add: gen_sk_def j empty_dir_def open_file_def write_file_def Let_def)
qed

lemma key_survives_restart_witness:
  "\<exists>pk sk fs'. gen_sk sample_coding sample_draws 300 empty_dir fs' = (Key pk (Some sk), fs')"
proof -
  obtain pk sk fs' where g: "gen_sk sample_coding sample_draws 0 empty_dir empty_dir = (Key pk (Some sk), fs')"
    using sample_first_start by blast
  have "fs_open empty_dir sk_file" by (simp add: empty_dir_def)
  from key_survives_restart [OF sample_coding_ok sample_draws_ok this g, of sample_draws 300 empty_dir]
  show ?thesis by blast
qed

lemma servers_agree_on_key_witness:
  "\<exists>key fs'. key_of (fst (relay_get_server_sk sample_coding sample_draws empty_dir fs' ''-'')) = Some key \<and> key \<noteq> []"
proof -
  obtain pk sk fs' where g: "gen_sk sample_coding sample_draws 0 empty_dir empty_dir = (Key pk (Some sk), fs')"
    "pk \<noteq> []" using sample_first_start by blast
  then have "get_server_sk sample_coding sample_draws empty_dir ''-'' = (Key pk (Some sk), fs')"
    by (simp add: get_server_sk_def crypto_arg_def sample_coding_def)
  from servers_agree_on_key [OF sample_coding_ok sample_draws_ok _ _ this g(2), of sample_draws empty_dir] g(2)
  show ?thesis by (auto simp: empty_dir_def)
qed

lemma generated_key_first_plain_witness:
  "draw_key sample_coding sample_draws 0 300 = (b64_encode sample_coding (replicate 32 0), replicate 64 0)"
proof -
  have first: "plain_key (b64_encode sample_coding (fst (sample_draws 0)))"
  proof -
    have "nib_char 0 = CHR ''A''" by code_simp
    then show ?thesis by (simp add: plain_key_def sample_coding_def sample_draws_def)
  qed
  obtain j where "draw_key sample_coding sample_draws 0 300
      = (b64_encode sample_coding (fst (sample_draws j)), snd (sample_draws j))"
    "\<forall>k < j. \<not> plain_key (b64_encode sample_coding (fst (sample_draws k)))"
    using generated_key_first_plain [of sample_coding sample_draws] by blast
  moreover from this(2) first have "j = 0" by blast
  ultimately show ?thesis by (simp add: sample_draws_def)
qed

end
