(* ===== verification/Key_Race.thy ===== *)
theory Key_Race
  imports Keys
begin

text \<open>
  \<open>gen_sk\<close> of \<open>src/common.rs\<close> once more, one file operation at a time, for two servers that start in the same directory at
  the same time. Alone, the operations compute what \<open>Keys.gen_sk\<close> says; interleaved, they need not.
\<close>

text \<open>What a process does next; \<open>Check\<close> with a positive wait sleeps when there is no key file.\<close>

datatype stage =
    Check nat
  | Opening
  | Reading
  | Create_Pub string bytes
  | Write_Pub string bytes
  | Create_Sk string bytes
  | Write_Sk string bytes
  | Done key_result

text \<open>\<open>File::create\<close> empties the file; \<open>write_all\<close> writes over what is there, from the start.\<close>

definition create_file :: "string \<Rightarrow> files \<Rightarrow> files" where
  "create_file name fs = fs\<lparr>fs_file := (fs_file fs)(name \<mapsto> Plain [])\<rparr>"

definition write_over :: "string \<Rightarrow> string \<Rightarrow> files \<Rightarrow> bool \<times> files" where
  "write_over name s fs =
     (let old = (case fs_file fs name of Some (Plain c) \<Rightarrow> c | _ \<Rightarrow> []); new = take (fs_room fs name) s
      in (length s \<le> fs_room fs name,
          fs\<lparr>fs_file := (fs_file fs)(name \<mapsto> Plain (new @ drop (length new) old))\<rparr>))"

fun gen_step :: "coding \<Rightarrow> (nat \<Rightarrow> bytes \<times> bytes) \<Rightarrow> stage \<Rightarrow> files \<Rightarrow> stage \<times> files" where
  "gen_step cd draws (Check wait) fs =
     ((if 0 < wait \<and> fs_file fs sk_file = None then Check 0 else Opening), fs)"
| "gen_step cd draws Opening fs =
     ((case open_file sk_file fs of
         Some _ \<Rightarrow> Reading
       | None \<Rightarrow> (let (pk, sk) = draw_key cd draws 0 300 in Create_Pub pk sk)), fs)"
| "gen_step cd draws Reading fs =
     ((case fs_file fs sk_file of
         Some (Plain contents) \<Rightarrow>
           (let sk = (case b64_decode cd (trim contents) of Some b \<Rightarrow> b | None \<Rightarrow> [])
            in if length sk = SECRETKEYBYTES
               then Done (Key (b64_encode cd (drop (SECRETKEYBYTES div 2) sk)) (Some sk))
               else Done Exit)
       | _ \<Rightarrow> Done (Key [] None)), fs)"
| "gen_step cd draws (Create_Pub pk sk) fs =
     (if fs_create fs pub_file then (Write_Pub pk sk, create_file pub_file fs) else (Done (Key [] None), fs))"
| "gen_step cd draws (Write_Pub pk sk) fs = (Create_Sk pk sk, snd (write_over pub_file pk fs))"
| "gen_step cd draws (Create_Sk pk sk) fs =
     (if fs_create fs sk_file then (Write_Sk pk sk, create_file sk_file fs) else (Done (Key [] None), fs))"
| "gen_step cd draws (Write_Sk pk sk) fs =
     (case write_over sk_file (b64_encode cd sk) fs of
        (ok, fs') \<Rightarrow> (Done (if ok then Key pk (Some sk) else Key [] None), fs'))"
| "gen_step cd draws (Done r) fs = (Done r, fs)"

fun gen_steps :: "coding \<Rightarrow> (nat \<Rightarrow> bytes \<times> bytes) \<Rightarrow> nat \<Rightarrow> stage \<times> files \<Rightarrow> stage \<times> files" where
  "gen_steps cd draws 0 p = p"
| "gen_steps cd draws (Suc n) p = gen_steps cd draws n (gen_step cd draws (fst p) (snd p))"

text \<open>
  A server that has the directory to itself gets what \<open>gen_sk\<close> says: within seven file operations it has its result, key or
  end of the process, and the files are the same, whatever they held and whichever operations fail.
\<close>

theorem alone_as_gen_sk:
  "gen_steps cd draws 7 (Check wait, fs) =
     (Done (fst (gen_sk cd draws wait fs fs)), snd (gen_sk cd draws wait fs fs))"
proof -
  have ne: "sk_file \<noteq> pub_file" by (simp add: sk_file_def pub_file_def)
  obtain pk sk where key: "draw_key cd draws 0 300 = (pk, sk)" by fastforce
  have seven: "(7 :: nat) = Suc (Suc (Suc (Suc (Suc (Suc (Suc 0))))))" by simp
  show ?thesis
    using ne
    by (cases "open_file sk_file fs"; cases "0 < wait \<and> fs_file fs sk_file = None")
      (auto simp: seven key gen_sk_def open_file_def write_file_def write_over_def create_file_def Let_def
        split: if_splits option.splits content.splits)
qed

subsection \<open>Two servers at once\<close>

inductive race ::
  "coding \<Rightarrow> (nat \<Rightarrow> bytes \<times> bytes) \<Rightarrow> (nat \<Rightarrow> bytes \<times> bytes) \<Rightarrow> stage \<times> stage \<times> files \<Rightarrow> stage \<times> stage \<times> files \<Rightarrow> bool"
  for cd :: coding and da :: "nat \<Rightarrow> bytes \<times> bytes" and db :: "nat \<Rightarrow> bytes \<times> bytes" where
  First: "gen_step cd da a fs = (a', fs') \<Longrightarrow> race cd da db (a, b, fs) (a', b, fs')"
| Second: "gen_step cd db b fs = (b', fs') \<Longrightarrow> race cd da db (a, b, fs) (a, b', fs')"

text \<open>A schedule: \<open>True\<close> lets the first process do its next operation.\<close>

fun schedule ::
  "coding \<Rightarrow> (nat \<Rightarrow> bytes \<times> bytes) \<Rightarrow> (nat \<Rightarrow> bytes \<times> bytes) \<Rightarrow> bool list \<Rightarrow> stage \<times> stage \<times> files \<Rightarrow>
     stage \<times> stage \<times> files" where
  "schedule cd da db [] p = p"
| "schedule cd da db (True # ts) (a, b, fs) =
     (case gen_step cd da a fs of (a', fs') \<Rightarrow> schedule cd da db ts (a', b, fs'))"
| "schedule cd da db (False # ts) (a, b, fs) =
     (case gen_step cd db b fs of (b', fs') \<Rightarrow> schedule cd da db ts (a, b', fs'))"

lemma schedule_race: "(race cd da db)\<^sup>*\<^sup>* p (schedule cd da db ts p)"
proof (induction ts arbitrary: p)
  case (Cons t ts)
  obtain a b fs where p: "p = (a, b, fs)" by (cases p)
  show ?case
  proof (cases t)
    case True
    obtain a' fs' where g: "gen_step cd da a fs = (a', fs')" by fastforce
    from converse_rtranclp_into_rtranclp [OF First [where b = b and db = db, OF g] Cons] show ?thesis
      by (simp add: p True g)
  next
    case False
    obtain b' fs' where g: "gen_step cd db b fs = (b', fs')" by fastforce
    from converse_rtranclp_into_rtranclp [OF Second [where a = a and da = da, OF g] Cons] show ?thesis
      by (simp add: p False g)
  qed
qed simp

definition roomy :: "files \<Rightarrow> coding \<Rightarrow> bool" where
  "roomy fs cd \<longleftrightarrow> fs_open fs sk_file \<and> (\<forall>f. fs_create fs f) \<and>
     (\<forall>f b. length b \<le> 64 \<longrightarrow> length (b64_encode cd b) \<le> fs_room fs f)"

text \<open>
  C36. Two servers that start at once without a key file can end with different keys: each has generated a pair and goes on
  with its own, and the two files hold halves of different pairs, the public key of one and the secret key of the
  other, so that both servers answer to the one key after the next start while the public key that was
  published belongs to nobody.
\<close>

theorem key_race:
  assumes "base64_ok cd" and "ed25519_pairs da" and "ed25519_pairs db" and "roomy fs cd" and "fs_file fs sk_file = None"
    and "\<And>b. length (b64_encode cd b) = length (b64_encode cd (replicate (length b) 0))"
    and "fst (draw_key cd da 0 300) \<noteq> fst (draw_key cd db 0 300)"
  shows "\<exists>ka sa kb sb fs'. (race cd da db)\<^sup>*\<^sup>* (Check 0, Check 300, fs)
      (Done (Key ka (Some sa)), Done (Key kb (Some sb)), fs') \<and>
    fs_file fs' pub_file = Some (Plain kb) \<and> ka \<noteq> kb \<and>
    (\<forall>draws wait later. gen_sk cd draws wait later fs' = (Key ka (Some sa), fs'))"
proof -
  obtain i where i: "draw_key cd da 0 300 = (b64_encode cd (fst (da i)), snd (da i))"
    using draw_key_pair [of 0 300 cd da] by blast
  obtain j where j: "draw_key cd db 0 300 = (b64_encode cd (fst (db j)), snd (db j))"
    using draw_key_pair [of 0 300 cd db] by blast
  have len: "length (snd (da i)) = 64" "length (snd (db j)) = 64" and pk: "fst (da i) = drop 32 (snd (da i))" "fst (db j) = drop 32 (snd (db j))"
    using assms(2,3) by (simp_all add: ed25519_pairs_def SECRETKEYBYTES_def)
  have short: "length (fst (da i)) = 32" "length (fst (db j)) = 32" using len by (simp_all add: pk)
  have fits: "length (b64_encode cd b) \<le> fs_room fs f" if "length b \<le> 64" for b f
    using assms(4) that by (simp add: roomy_def)
  have same: "length (b64_encode cd (fst (da i))) = length (b64_encode cd (fst (db j)))"
    "length (b64_encode cd (snd (da i))) = length (b64_encode cd (snd (db j)))"
    using assms(6) len short by metis+
  have ne: "sk_file \<noteq> pub_file" by (simp add: sk_file_def pub_file_def)
  let ?ts = "[True, True, False, False, False, True, True, False, False, False, False, True, True]"
  define fs' where "fs' = fs\<lparr>fs_file := (fs_file fs)(pub_file \<mapsto> Plain (b64_encode cd (fst (db j))),
    sk_file \<mapsto> Plain (b64_encode cd (snd (da i))))\<rparr>"
  have "schedule cd da db ?ts (Check 0, Check 300, fs) =
      (Done (Key (b64_encode cd (fst (da i))) (Some (snd (da i)))), Done (Key (b64_encode cd (fst (db j))) (Some (snd (db j)))), fs')"
    using assms(4,5) fits len short same ne
    by (simp add: i j open_file_def create_file_def write_over_def roomy_def fs'_def fun_upd_twist)
  then have "(race cd da db)\<^sup>*\<^sup>* (Check 0, Check 300, fs)
      (Done (Key (b64_encode cd (fst (da i))) (Some (snd (da i)))), Done (Key (b64_encode cd (fst (db j))) (Some (snd (db j)))), fs')"
    using schedule_race [of cd da db "(Check 0, Check 300, fs)" ?ts] by simp
  moreover have "gen_sk cd draws wait later fs' = (Key (b64_encode cd (fst (da i))) (Some (snd (da i))), fs')" for draws wait later
    unfolding pk by (rule gen_sk_read [where contents = "b64_encode cd (snd (da i))"])
      (use assms(4) ne len base64_okD(1,2) [OF assms(1), of "snd (da i)"] in \<open>simp_all add: open_file_def fs'_def roomy_def SECRETKEYBYTES_def\<close>)
  moreover have "fs_file fs' pub_file = Some (Plain (b64_encode cd (fst (db j))))" using ne by (simp add: fs'_def)
  ultimately show ?thesis using assms(7) i j by (metis fst_conv)
qed

lemma sample_coding_length: "length (b64_encode sample_coding b) = 2 * length b"
  by (simp add: sample_coding_def) (induction b, simp_all)

definition same_draw :: "byte \<Rightarrow> nat \<Rightarrow> bytes \<times> bytes" where
  "same_draw c _ = (replicate 32 c, replicate 64 c)"

lemma key_race_witness:
  "\<exists>ka sa kb sb fs'. (race sample_coding (same_draw 0) (same_draw 1))\<^sup>*\<^sup>* (Check 0, Check 300, empty_dir)
     (Done (Key ka (Some sa)), Done (Key kb (Some sb)), fs') \<and> fs_file fs' pub_file = Some (Plain kb) \<and> ka \<noteq> kb"
proof -
  have ok: "ed25519_pairs (same_draw c)" for c
    by (simp add: ed25519_pairs_def same_draw_def SECRETKEYBYTES_def)
  have key: "fst (draw_key sample_coding (same_draw c) 0 300) = b64_encode sample_coding (replicate 32 c)" for c
    using draw_key_pair [of 0 300 sample_coding "same_draw c"] by (auto simp: same_draw_def)
  have "replicate 32 (0 :: byte) \<noteq> replicate 32 1" by (simp add: replicate_eq_replicate)
  then have "fst (draw_key sample_coding (same_draw 0) 0 300) \<noteq> fst (draw_key sample_coding (same_draw 1) 0 300)"
    unfolding key by (metis base64_okD(1) option.inject sample_coding_ok)
  moreover have "roomy empty_dir sample_coding" by (simp add: roomy_def empty_dir_def sample_coding_length)
  ultimately show ?thesis
    using key_race [OF sample_coding_ok ok ok, of empty_dir 0 1]
    by (auto simp: empty_dir_def sample_coding_length) blast
qed

text \<open>
  A server that looks at the key file after another one has created it and before the key is in it takes it for malformed and ends.
\<close>

theorem half_written_key_ends_server:
  assumes "roomy fs cd" and "fs_file fs sk_file = None" and "b64_decode cd [] = Some []"
  shows "\<exists>pk sk fs'. (race cd da db)\<^sup>*\<^sup>* (Check 0, Check 0, fs) (Write_Sk pk sk, Done Exit, fs')"
proof -
  obtain pk sk where key: "draw_key cd da 0 300 = (pk, sk)" by fastforce
  have "trim [] = []" by (simp add: trim_def)
  then obtain fs' where "schedule cd da db [True, True, True, True, True, False, False, False] (Check 0, Check 0, fs)
      = (Write_Sk pk sk, Done Exit, fs')"
    using assms
    by (auto simp: key open_file_def create_file_def write_over_def roomy_def SECRETKEYBYTES_def Let_def)
  then show ?thesis using schedule_race [of cd da db "(Check 0, Check 0, fs)"] by metis
qed

end
