(* ===== verification/Database_Open.thy ===== *)
theory Database_Open
  imports Peers Text_Parsing
begin

text \<open>
  How a server comes by its table: \<open>PeerMap::new\<close> of \<open>src/peer.rs\<close> names the database, \<open>Database::new\<close> of
  \<open>src/database.rs\<close> makes sure that a file is there, connects and creates the table. The engine (\<open>sqlx\<close>) and
  the pool (\<open>deadpool\<close>) are parameters, with what their documentation promises as the laws \<open>engine_laws\<close>.
\<close>

text \<open>Where the program runs; on Windows, what \<open>Config::icon_path\<close> has for a parent, and that as text.\<close>

datatype platform = Unix_Like | Windows_Debug | Windows_Release "string option option"

definition db_url :: "(string \<Rightarrow> string option) \<Rightarrow> platform \<Rightarrow> string" where
  "db_url var os =
     (case var ''DB_URL'' of
        Some url \<Rightarrow> url
      | None \<Rightarrow>
          (let db = ''db_v2.sqlite3''
           in case os of
                Unix_Like \<Rightarrow> ''./'' @ db
              | Windows_Debug \<Rightarrow> db
              | Windows_Release None \<Rightarrow> db
              | Windows_Release (Some path) \<Rightarrow>
                  (case path of Some p \<Rightarrow> p | None \<Rightarrow> ''.'') @ [CHR 92] @ db))"

text \<open>
  The parts that are not in the repository: which path a URL names (\<^const>\<open>None\<close> is a parse error, on which the code
  panics), what a file holds (\<^const>\<open>None\<close>: not a database; a database with or without the table), the file with
  a table stored in it (or not, when it cannot be written), whether a pool of a size ever hands out a connection, and whether the
  file system lets a file be created.
\<close>

record 'f engine =
  en_path :: "string \<Rightarrow> string option"
  en_table :: "'f \<Rightarrow> db option option"
  en_store :: "db \<Rightarrow> 'f \<Rightarrow> 'f option"
  en_serves :: "usize \<Rightarrow> bool"
  en_creates :: "string \<Rightarrow> bool"
  en_empty :: 'f

type_synonym 'f files = "string \<rightharpoonup> 'f"

datatype db_opening = Opened db | Not_Opened | Panicked | Waits_For_Ever

definition max_connections :: "(string \<Rightarrow> string option) \<Rightarrow> usize" where
  "max_connections var =
     (case parse_usize (case var ''MAX_DATABASE_CONNECTIONS'' of Some s \<Rightarrow> s | None \<Rightarrow> ''1'') of
        Some n \<Rightarrow> n
      | None \<Rightarrow> 1)"

text \<open>The file that is looked for, and created, has the whole URL for its name.\<close>

definition ensure_file :: "'f engine \<Rightarrow> string \<Rightarrow> 'f files \<Rightarrow> 'f files" where
  "ensure_file en url disk =
     (if disk url = None \<and> en_creates en url then disk(url \<mapsto> en_empty en) else disk)"

text \<open>The first connection, \<open>DbPool::create\<close>: only to a file that exists.\<close>

datatype 'f connection = Connected string 'f "db option" | Connect_Error | Connect_Panic

definition db_connect :: "'f engine \<Rightarrow> string \<Rightarrow> 'f files \<Rightarrow> 'f connection" where
  "db_connect en url disk =
     (case en_path en url of
        None \<Rightarrow> Connect_Panic
      | Some p \<Rightarrow>
          (case disk p of
             None \<Rightarrow> Connect_Error
           | Some f \<Rightarrow> (case en_table en f of None \<Rightarrow> Connect_Error | Some t \<Rightarrow> Connected p f t)))"

definition database_new ::
  "'f engine \<Rightarrow> (string \<Rightarrow> string option) \<Rightarrow> string \<Rightarrow> 'f files \<Rightarrow> db_opening \<times> 'f files" where
  "database_new en var url disk =
     (let disk1 = ensure_file en url disk
      in if \<not> en_serves en (max_connections var) then (Waits_For_Ever, disk1)
         else (case db_connect en url disk1 of
                 Connect_Panic \<Rightarrow> (Panicked, disk1)
               | Connect_Error \<Rightarrow> (Not_Opened, disk1)
               | Connected p f (Some rows) \<Rightarrow> (Opened (create_tables (Some rows)), disk1)
               | Connected p f None \<Rightarrow>
                   (case en_store en (create_tables None) f of
                      Some f' \<Rightarrow> (Opened (create_tables None), disk1(p \<mapsto> f'))
                    | None \<Rightarrow> (Not_Opened, disk1))))"

definition peer_map_new ::
  "'f engine \<Rightarrow> (string \<Rightarrow> string option) \<Rightarrow> platform \<Rightarrow> 'f files \<Rightarrow> (db_opening + peer_map) \<times> 'f files" where
  "peer_map_new en var os disk =
     (case database_new en var (db_url var os) disk of
        (Opened db, disk') \<Rightarrow> (Inr (pm_new (Some db)), disk')
      | (r, disk') \<Rightarrow> (Inl r, disk'))"

subsection \<open>What a start finds\<close>

text \<open>
  What the engine promises: a stored table is read back, an empty file is a database without a table, which can be given one, and a
  plain path names itself.
\<close>

definition engine_laws :: "'f engine \<Rightarrow> bool" where
  "engine_laws en \<longleftrightarrow>
     (\<forall>db f f'. en_store en db f = Some f' \<longrightarrow> en_table en f' = Some (Some db)) \<and>
     en_table en (en_empty en) = Some None \<and> en_store en [] (en_empty en) \<noteq> None"

lemma ensure_file_other [simp]: "p \<noteq> url \<Longrightarrow> ensure_file en url disk p = disk p"
  by (simp add: ensure_file_def)

lemma ensure_file_present: "disk url \<noteq> None \<Longrightarrow> ensure_file en url disk = disk"
  by (auto simp add: ensure_file_def)

lemma create_tables_Some [simp]: "create_tables (Some rows) = rows"
  by (simp add: create_tables_def)

text \<open>
  C26. A database outlives the process: on a machine without one the first start gets an empty table, and whatever rows the server
  has stored in the file by the time it ends, the next start gets exactly those, and leaves the file as it is.
\<close>

theorem database_outlives_process:
  assumes "engine_laws en" and "en_path en (db_url var os) = Some (db_url var os)"
    and "en_serves en (max_connections var)" and "en_creates en (db_url var os)" and "disk (db_url var os) = None"
    and "peer_map_new en var os disk = (r, disk1)"
    and "en_store en rows f = Some f'" and "disk2 = disk1(db_url var os \<mapsto> f')"
  shows "r = Inr (pm_new None) \<and>
    peer_map_new en var os disk2 = (Inr (pm_new (Some rows)), disk2)"
proof -
  let ?url = "db_url var os"
  have "en_table en f' = Some (Some rows)" using assms(1,7) by (auto simp: engine_laws_def)
  then have "db_connect en ?url disk2 = Connected ?url f' (Some rows)"
    by (simp add: db_connect_def assms(2,8))
  then have "peer_map_new en var os disk2 = (Inr (pm_new (Some rows)), disk2)"
    by (simp add: peer_map_new_def database_new_def ensure_file_present assms(3,8))
  moreover have "db_connect en ?url (ensure_file en ?url disk) = Connected ?url (en_empty en) None"
    using assms(1) by (simp add: db_connect_def ensure_file_def assms(2,4,5) engine_laws_def)
  then have "r = Inr (pm_new None)"
    using assms(1,3,6)
    by (auto simp: peer_map_new_def database_new_def engine_laws_def pm_new_def create_tables_def Let_def
        split: option.splits)
  ultimately show ?thesis by simp
qed

text \<open>An engine whose files are tables, with and without \<open>sqlite:\<close> before the path.\<close>

definition sample_engine :: "db option engine" where
  "sample_engine =
     \<lparr>en_path = \<lambda>u. Some (if take 7 u = ''sqlite:'' then drop 7 u else u), en_table = Some,
      en_store = \<lambda>rows _. Some (Some rows), en_serves = \<lambda>n. 0 < n, en_creates = \<lambda>_. True, en_empty = None\<rparr>"

lemma sample_engine_laws: "engine_laws sample_engine"
  by (simp add: engine_laws_def sample_engine_def)

lemma max_connections_unset: "var ''MAX_DATABASE_CONNECTIONS'' = None \<Longrightarrow> max_connections var = 1"
  by (simp add: max_connections_def parse_usize_def parse_plain_def is_digit_def) (simp add: read_base_def digit_val_def)

lemma database_outlives_process_witness:
  "\<exists>r disk1. peer_map_new sample_engine (\<lambda>_. None) Unix_Like (\<lambda>_. None) = (r, disk1) \<and> r = Inr (pm_new None) \<and>
    (\<exists>disk. peer_map_new sample_engine (\<lambda>_. None) Unix_Like (disk1(''./db_v2.sqlite3'' \<mapsto>
        Some [\<lparr>r_guid = [1], r_id = ''a'', r_uuid = [2], r_pk = [3], r_user = None, r_info = [], r_status = None\<rparr>]))
      = (Inr (pm_new (Some [\<lparr>r_guid = [1], r_id = ''a'', r_uuid = [2], r_pk = [3], r_user = None, r_info = [],
          r_status = None\<rparr>])), disk))"
proof -
  let ?row = "\<lparr>r_guid = [1], r_id = ''a'', r_uuid = [2], r_pk = [3], r_user = None, r_info = [], r_status = None\<rparr>"
  obtain r disk1 where run: "peer_map_new sample_engine (\<lambda>_. None) Unix_Like (\<lambda>_. None) = (r, disk1)"
    by (metis prod.exhaust)
  have url: "db_url (\<lambda>_. None) Unix_Like = ''./db_v2.sqlite3''" by (simp add: db_url_def)
  have "en_path sample_engine (db_url (\<lambda>_. None) Unix_Like) = Some (db_url (\<lambda>_. None) Unix_Like)"
    "en_serves sample_engine (max_connections (\<lambda>_. None))" "en_creates sample_engine (db_url (\<lambda>_. None) Unix_Like)"
    "en_store sample_engine [?row] None = Some (Some [?row])"
    by (simp_all add: sample_engine_def db_url_def max_connections_unset)
  from database_outlives_process [OF sample_engine_laws this(1-3) refl run this(4) refl] run
  show ?thesis unfolding url by blast
qed

text \<open>
  With a URL that is not the path itself, the code looks for and creates the wrong file: while the file of the database is missing,
  every start fails, although the first leaves an empty file behind that has the URL for its name.
\<close>

theorem url_scheme_never_creates:
  assumes "en_path en (db_url var os) = Some p" and "p \<noteq> db_url var os" and "disk p = None"
    and "en_serves en (max_connections var)"
  shows "peer_map_new en var os disk = (Inl Not_Opened, ensure_file en (db_url var os) disk) \<and>
    ensure_file en (db_url var os) disk p = None"
  using assms by (simp add: peer_map_new_def database_new_def db_connect_def)

text \<open>A pool that serves nobody: with \<open>MAX_DATABASE_CONNECTIONS=0\<close> the start waits for ever and does not fail.\<close>

theorem no_connections_no_start:
  assumes "var ''MAX_DATABASE_CONNECTIONS'' = Some ''0''" and "\<not> en_serves en 0"
  shows "fst (peer_map_new en var os disk) = Inl Waits_For_Ever"
proof -
  have "max_connections var = 0"
    by (simp add: max_connections_def assms(1) parse_usize_def parse_plain_def is_digit_def)
      (simp add: read_base_def digit_val_def)
  then show ?thesis by (simp add: peer_map_new_def database_new_def assms(2))
qed

end
