(* ===== verification/Startup.thy ===== *)
theory Startup
  imports Supervision Life Database_Open Keys
begin

text \<open>
  The rendezvous server from its command line to its first turn: the options of \<open>main\<close> (\<open>src/main.rs\<close>, and those of
  \<open>src/hbbr.rs\<close>), the settings \<open>start\<close> takes from the environment, and \<open>main\<close> with \<open>start\<close> as one
  function over the key files, the database file and the machine. What \<open>clap\<close>, \<open>ipnetwork\<close>, \<open>local_ip_address\<close> and \<open>hbb_common\<close>
  compute are arguments.
\<close>

subsection \<open>The options\<close>

text \<open>The long names of the two usage texts, with their letters; \<open>--mask\<close> has none.\<close>

definition hbbs_options :: "(string \<times> char option) list" where
  "hbbs_options =
     [(''config'', Some CHR ''c''), (''port'', Some CHR ''p''), (''serial'', Some CHR ''s''),
      (''rendezvous-servers'', Some CHR ''R''), (''software-url'', Some CHR ''u''), (''relay-servers'', Some CHR ''r''),
      (''rmem'', Some CHR ''M''), (''mask'', None), (''key'', Some CHR ''k'')]"

definition hbbr_options :: "(string \<times> char option) list" where
  "hbbr_options = [(''port'', Some CHR ''p''), (''key'', Some CHR ''k'')]"

text \<open>What \<open>clap\<close> promises of its matches: a table from declared names, in no particular order.\<close>

definition matches_of :: "(string \<times> char option) list \<Rightarrow> (string \<times> string list) list \<Rightarrow> bool" where
  "matches_of opts matches \<longleftrightarrow> distinct (map fst matches) \<and> fst ` set matches \<subseteq> fst ` set opts"

lemma map_of_order:
  assumes "mset xs = mset ys" and "distinct (map fst xs)"
  shows "map_of xs = map_of ys"
proof
  fix k
  have "mset (map fst ys) = mset (map fst xs)" using assms(1) by simp
  with assms(2) have "distinct (map fst ys)" by (metis mset_eq_imp_distinct_iff)
  moreover have "set xs = set ys" using assms(1) by (rule mset_eq_setD)
  ultimately show "map_of xs k = map_of ys k"
    using assms(2) by (metis map_of_eq_Some_iff not_None_eq)
qed

lemma hbbs_names:
  "map (arg_name \<circ> fst) hbbs_options =
     [''CONFIG'', ''PORT'', ''SERIAL'', ''RENDEZVOUS-SERVERS'', ''SOFTWARE-URL'', ''RELAY-SERVERS'', ''RMEM'', ''MASK'', ''KEY'']"
  "arg_name ''local-ip'' = ''LOCAL-IP''"
  by code_simp+

lemma hbbs_names_inj: "inj_on arg_name (fst ` set hbbs_options)"
proof -
  have "distinct (map (arg_name \<circ> fst) hbbs_options)" unfolding hbbs_names by simp
  then have "distinct (map arg_name (map fst hbbs_options))" by simp
  then have "inj_on arg_name (set (map fst hbbs_options))" by (simp only: distinct_map)
  then show ?thesis by simp
qed

lemma from_line_order:
  assumes "matches_of hbbs_options matches" and "mset matches' = mset matches"
  shows "from_line name matches' = from_line name matches"
proof -
  let ?line = "\<lambda>ms. map (\<lambda>(k, vs). (arg_name k, hd vs)) (filter (\<lambda>m. snd m \<noteq> []) ms)"
  have fsts: "map fst (?line ms) = map (arg_name \<circ> fst) (filter (\<lambda>m. snd m \<noteq> []) ms)" for ms
    by (simp add: case_prod_beta comp_def)
  have "inj_on arg_name (fst ` set matches)"
    using assms(1) hbbs_names_inj inj_on_subset unfolding matches_of_def by blast
  then have "distinct (map (arg_name \<circ> fst) matches)"
    using assms(1) by (simp add: matches_of_def distinct_map comp_inj_on)
  then have "distinct (map fst (?line matches))" unfolding fsts by (simp add: distinct_map_filter)
  moreover have "mset (?line matches) = mset (?line matches')" using assms(2) by simp
  ultimately have "map_of (rev (?line matches)) = map_of (rev (?line matches'))"
    by (intro map_of_order) (simp_all add: rev_map [symmetric])
  then show ?thesis by (simp add: from_line_def)
qed

text \<open>The order in which the table of matches is walked does not matter.\<close>

lemma init_args_order:
  assumes "matches_of hbbs_options matches" and "mset matches' = mset matches"
  shows "init_args load matches' env = init_args load matches env"
proof -
  have "map_of matches = map_of matches'"
    by (rule map_of_order) (use assms in \<open>simp_all add: matches_of_def\<close>)
  then have "value_of name matches' = value_of name matches" for name by (simp add: value_of_def)
  with from_line_order [OF assms] show ?thesis
    by (simp add: fun_eq_iff init_args_def line_lookup Let_def)
qed

text \<open>An address that is not among the options can come from a file or the environment alone.\<close>

lemma undeclared_not_from_line:
  assumes "matches_of opts matches" and "name \<notin> arg_name ` fst ` set opts"
  shows "from_line name matches = None"
proof -
  have "arg_name (fst m) \<noteq> name" if "m \<in> set matches" for m
    using assms that unfolding matches_of_def by blast
  then show ?thesis by (auto simp: from_line_def map_of_eq_None_iff; blast)
qed

theorem local_ip_not_an_option:
  assumes "matches_of hbbs_options matches"
  shows "get_arg_or ''local-ip'' dflt (init_args load matches env)
    = get_arg_or ''local-ip'' dflt (init_args load (filter (\<lambda>m. fst m = ''config'') matches) env)"
proof -
  have no: "from_line (arg_name ''local-ip'') ms = None" if "matches_of hbbs_options ms" for ms
  proof (rule undeclared_not_from_line [OF that])
    have "arg_name ` fst ` set hbbs_options = set (map (arg_name \<circ> fst) hbbs_options)" by (simp add: image_image)
    then show "arg_name ''local-ip'' \<notin> arg_name ` fst ` set hbbs_options" by (simp only: hbbs_names) simp
  qed
  have "value_of ''config'' (filter (\<lambda>m. fst m = ''config'') matches) = value_of ''config'' matches"
    by (induction matches) (auto simp: value_of_def)
  moreover have "matches_of hbbs_options (filter (\<lambda>m. fst m = ''config'') matches)"
    using assms unfolding matches_of_def by (auto simp: distinct_map_filter image_subset_iff dest!: bspec intro: rev_image_eqI)
  ultimately show ?thesis using no assms by (simp add: setting_precedence)
qed

subsection \<open>From the command line to the first turn\<close>

text \<open>
  Everything of the machine that stays the same from one start to the next: sockets, coding, database engine, platform, the default
  port, and what \<open>hbb_common\<close> makes of a URL, \<open>ipnetwork\<close> of a mask and \<open>local_ip_address\<close> of the machine.
\<close>

record ('w, 'u, 'l, 'f) host =
  ho_net :: "('w, 'u, 'l) network"
  ho_ext :: externals
  ho_coding :: coding
  ho_engine :: "'f engine"
  ho_platform :: platform
  ho_port :: nat
  ho_version :: "string \<Rightarrow> string"
  ho_mask :: "string \<Rightarrow> (32 word \<Rightarrow> bool) option"
  ho_local_ip :: "string option"

text \<open>The local address is looked for only when there is a mask.\<close>

definition hbbs_inner :: "('w, 'u, 'l, 'f) host \<Rightarrow> variables \<Rightarrow> i32 \<Rightarrow> bytes option \<Rightarrow> inner" where
  "hbbs_inner ho env serial sk =
     (let software_url = get_arg ''software-url'' env; mask = ho_mask ho (get_arg ''mask'' env)
      in \<lparr>in_serial = serial, in_version = ho_version ho software_url, in_software_url = software_url, in_mask = mask,
          in_local_ip =
            (case mask of
               None \<Rightarrow> []
             | Some _ \<Rightarrow> get_arg_or ''local-ip'' (case ho_local_ip ho of Some ip \<Rightarrow> ip | None \<Rightarrow> []) env),
          in_sk = sk\<rparr>)"

datatype ('w, 'u, 'l) boot =
    Bad_Arguments start_error
  | Bad_Key_File
  | No_Database db_opening
  | Not_Serving startup_error
  | Booted "('w, 'u, 'l) hbbs" string "socket_addr option"

definition env_or_empty :: "variables \<Rightarrow> string \<Rightarrow> string" where
  "env_or_empty env name = (case env name of Some v \<Rightarrow> v | None \<Rightarrow> [])"

text \<open>\<open>main\<close> after \<open>init_args\<close>, then \<open>start\<close>: first the key, then the database, then the sockets.\<close>

definition hbbs_boot ::
  "('w, 'u, 'l, 'f) host \<Rightarrow> (nat \<Rightarrow> bytes \<times> bytes) \<Rightarrow> variables \<Rightarrow> Keys.files \<Rightarrow> 'f Database_Open.files \<Rightarrow> 'w \<Rightarrow>
     ('w, 'u, 'l) boot \<times> Keys.files \<times> 'f Database_Open.files" where
  "hbbs_boot ho draws env fs disk w =
     (case hbbs_main (ho_port ho) env of
        Inl err \<Rightarrow> (Bad_Arguments err, fs, disk)
      | Inr (port, serial, key_arg, rmem) \<Rightarrow>
          (case get_server_sk (ho_coding ho) draws fs key_arg of
             (Exit, fs') \<Rightarrow> (Bad_Key_File, fs', disk)
           | (Key key sk, fs') \<Rightarrow>
               (case database_new (ho_engine ho) env (db_url env (ho_platform ho)) disk of
                  (Opened rows, disk') \<Rightarrow>
                    (case hbbs_start (ho_net ho) (ho_ext ho) (Some (Some rows)) (hbbs_inner ho env (word_of_int serial) sk)
                            (get_arg ''rendezvous-servers'' env) (get_arg ''relay-servers'' env)
                            (env_or_empty env ''ALWAYS_USE_RELAY'') (env_or_empty env ''TEST_HBBS'')
                            (word_of_int port) rmem w of
                       Inl err \<Rightarrow> (Not_Serving err, fs', disk')
                     | Inr (p, target) \<Rightarrow> (Booted p key target, fs', disk'))
                | (r, disk') \<Rightarrow> (No_Database r, fs', disk'))))"

text \<open>The whole program, with the command line as \<open>clap\<close> splits it.\<close>

definition hbbs_program ::
  "('w, 'u, 'l, 'f) host \<Rightarrow> (nat \<Rightarrow> bytes \<times> bytes) \<Rightarrow> (string \<Rightarrow> ini_section option) \<Rightarrow> (string \<times> string list) list \<Rightarrow>
     variables \<Rightarrow> Keys.files \<Rightarrow> 'f Database_Open.files \<Rightarrow> 'w \<Rightarrow>
     ('w, 'u, 'l) boot \<times> Keys.files \<times> 'f Database_Open.files" where
  "hbbs_program ho draws load matches env0 fs disk w = hbbs_boot ho draws (init_args load matches env0) fs disk w"

lemma hbbs_boot_Booted:
  assumes "hbbs_boot ho draws env fs disk w = (Booted p key target, fs', disk')"
  obtains port serial key_arg rmem sk rows where
    "hbbs_main (ho_port ho) env = Inr (port, serial, key_arg, rmem)"
    "get_server_sk (ho_coding ho) draws fs key_arg = (Key key sk, fs')"
    "database_new (ho_engine ho) env (db_url env (ho_platform ho)) disk = (Opened rows, disk')"
    "hbbs_start (ho_net ho) (ho_ext ho) (Some (Some rows)) (hbbs_inner ho env (word_of_int serial) sk)
       (get_arg ''rendezvous-servers'' env) (get_arg ''relay-servers'' env)
       (env_or_empty env ''ALWAYS_USE_RELAY'') (env_or_empty env ''TEST_HBBS'') (word_of_int port) rmem w = Inr (p, target)"
  using assms
  by (auto simp: hbbs_boot_def split: sum.splits prod.splits key_result.splits db_opening.splits)

lemma hbbs_boot_Not_Serving:
  assumes "hbbs_boot ho draws env fs disk w = (Not_Serving err, fs', disk')"
  obtains rows cfg ra rl port rmem where
    "hbbs_start (ho_net ho) (ho_ext ho) (Some (Some rows)) cfg ra rl (env_or_empty env ''ALWAYS_USE_RELAY'')
       (env_or_empty env ''TEST_HBBS'') port rmem w = Inl err"
  using assms
  by (auto simp: hbbs_boot_def split: sum.splits prod.splits key_result.splits db_opening.splits)

lemma database_new_fresh:
  assumes "database_new en var url disk = (Opened rows, disk')" and "engine_laws en" and "en_path en url = Some url"
    and "disk url = None"
  shows "rows = [] \<and> en_serves en (max_connections var)"
  using assms
  by (auto simp: database_new_def Let_def db_connect_def ensure_file_def engine_laws_def create_tables_def
      split: if_splits option.splits)

lemma database_new_stored:
  assumes "engine_laws en" and "en_path en url = Some url" and "en_serves en (max_connections var)"
    and "en_store en rows f = Some f'"
  shows "database_new en var url (disk(url \<mapsto> f')) = (Opened rows, disk(url \<mapsto> f'))"
  using assms by (auto simp: database_new_def Let_def db_connect_def ensure_file_present engine_laws_def)

text \<open>
  What a start that fails has done by then: with bad arguments nothing; with a malformed key file nothing either; without a
  database it may have written a key. Only when a socket or the address of the self test is at fault has the database been opened.
\<close>

theorem failed_boot_effects:
  assumes "hbbs_boot ho draws env fs disk w = (r, fs', disk')"
  shows "case r of
      Bad_Arguments err \<Rightarrow> fs' = fs \<and> disk' = disk \<and> hbbs_main (ho_port ho) env = Inl err
    | Bad_Key_File \<Rightarrow> fs' = fs \<and> disk' = disk \<and> (\<exists>contents. open_file sk_file fs = Some (Plain contents))
    | No_Database d \<Rightarrow> disk' = snd (database_new (ho_engine ho) env (db_url env (ho_platform ho)) disk)
    | _ \<Rightarrow> \<exists>rows. database_new (ho_engine ho) env (db_url env (ho_platform ho)) disk = (Opened rows, disk')"
proof -
  have "fs1 = fs \<and> (\<exists>contents. open_file sk_file fs = Some (Plain contents))"
    if "get_server_sk (ho_coding ho) draws fs key = (Exit, fs1)" for key fs1
    using that by (auto simp: get_server_sk_def gen_sk_def Let_def
        split: if_splits option.splits prod.splits key_result.splits content.splits)
  with assms show ?thesis
    by (auto simp: hbbs_boot_def split: sum.splits prod.splits key_result.splits db_opening.splits boot.splits)
qed

subsection \<open>Started again\<close>

lemma server_key_again:
  assumes "base64_ok cd" and "ed25519_pairs draws" and "fs_open fs sk_file"
    and "get_server_sk cd draws fs key0 = (Key key (Some sk), fs')"
  shows "get_server_sk cd draws' fs' key0 = (Key key (Some sk), fs')"
proof (cases "crypto_arg cd key0")
  case (Some s)
  have "b64_encode cd (drop 32 s) \<notin> {[], ''-'', ''_''}"
    using base64_okD [OF assms(1), of "drop 32 s"] crypto_arg_length [OF Some] by simp
  with assms(4) Some show ?thesis by (auto simp: get_server_sk_def SECRETKEYBYTES_def Let_def)
next
  case None
  with assms(4) have arg: "key0 \<in> {[], ''-'', ''_''}" by (auto simp: get_server_sk_def split: if_splits)
  with assms(4) None obtain pk where gen: "gen_sk cd draws 0 fs fs = (Key pk (Some sk), fs')"
    and key: "key = (if key0 \<noteq> [] then pk else key0)"
    by (auto simp: get_server_sk_def split: prod.splits key_result.splits)
  have "gen_sk cd draws' 0 fs' fs' = (Key pk (Some sk), fs')"
    by (rule key_survives_restart [OF assms(1-3) gen])
  with None arg key show ?thesis by (auto simp: get_server_sk_def)
qed

lemma start_server_handle: "in_sk (h_inner (sv_handle (start_server x file cfg ra rl av))) = in_sk cfg"
  by (simp add: start_server_def parse_relay_servers_def Let_def)

lemma hbbs_start_outcome:
  assumes "(case hbbs_start net x (Some file) cfg ra rl av tv port rmem w of
      Inl err \<Rightarrow> (Not_Serving err, fs, disk) | Inr (p, target) \<Rightarrow> (Booted p key target, fs, disk)) = (r, fs', disk')"
  shows "fs' = fs \<and> disk' = disk \<and>
    (case r of
       Booted p key2 _ \<Rightarrow> key2 = key \<and> (\<exists>ss w. p = Serving (start_server x file cfg ra rl av) ss w)
     | Not_Serving _ \<Rightarrow> True
     | _ \<Rightarrow> False)"
  using assms by (auto simp: hbbs_start_def split: prod.splits option.splits sum.splits)

text \<open>What the second start finds: the key in its file, the table in the database.\<close>

lemma boot_after_boot:
  assumes "base64_ok (ho_coding ho)" and "ed25519_pairs draws" and "fs_open fs sk_file"
    and "engine_laws (ho_engine ho)" and "url = db_url env (ho_platform ho)" and "en_path (ho_engine ho) url = Some url"
    and "disk url = None"
    and "hbbs_boot ho draws env fs disk w = (Booted (Serving v0 ss0 w0) key target, fs1, disk1)"
    and "in_sk (h_inner (sv_handle v0)) = Some sk" and "en_store (ho_engine ho) rows f = Some f'"
    and "hbbs_boot ho draws' env fs1 (disk1(url \<mapsto> f')) w' = (again, fs2, disk2)"
  shows "(\<exists>cfg ra rl av. v0 = start_server (ho_ext ho) (Some []) cfg ra rl av) \<and>
    fs2 = fs1 \<and> disk2 = disk1(url \<mapsto> f') \<and>
    (case again of
       Booted p key2 _ \<Rightarrow> key2 = key \<and> (\<exists>v ss w cfg ra rl av. p = Serving v ss w \<and>
         v = start_server (ho_ext ho) (Some rows) cfg ra rl av \<and> in_sk (h_inner (sv_handle v)) = Some sk)
     | Not_Serving _ \<Rightarrow> True
     | _ \<Rightarrow> False)"
proof -
  let ?en = "ho_engine ho" and ?cd = "ho_coding ho"
  from assms(8) obtain port serial key_arg rmem sk0 rows0 where first:
    "hbbs_main (ho_port ho) env = Inr (port, serial, key_arg, rmem)"
    "get_server_sk ?cd draws fs key_arg = (Key key sk0, fs1)" "database_new ?en env url disk = (Opened rows0, disk1)"
    "hbbs_start (ho_net ho) (ho_ext ho) (Some (Some rows0)) (hbbs_inner ho env (word_of_int serial) sk0)
       (get_arg ''rendezvous-servers'' env) (get_arg ''relay-servers'' env)
       (env_or_empty env ''ALWAYS_USE_RELAY'') (env_or_empty env ''TEST_HBBS'') (word_of_int port) rmem w
       = Inr (Serving v0 ss0 w0, target)"
    by (rule hbbs_boot_Booted) (simp add: assms(5))
  note v0 = hbbs_start_parts(1) [OF first(4)]
  note db = database_new_fresh [OF first(3) assms(4,6,7)]
  have "sk0 = Some sk" using assms(9) by (simp add: v0 start_server_handle hbbs_inner_def Let_def)
  with server_key_again [OF assms(1-3)] first(2)
  have key: "get_server_sk ?cd draws' fs1 key_arg = (Key key (Some sk), fs1)" by blast
  have "database_new ?en env url (disk1(url \<mapsto> f')) = (Opened rows, disk1(url \<mapsto> f'))"
    by (rule database_new_stored [OF assms(4,6) _ assms(10)]) (use db in simp)
  with first(1) key have again:
    "hbbs_boot ho draws' env fs1 (disk1(url \<mapsto> f')) w' =
       (case hbbs_start (ho_net ho) (ho_ext ho) (Some (Some rows)) (hbbs_inner ho env (word_of_int serial) (Some sk))
               (get_arg ''rendezvous-servers'' env) (get_arg ''relay-servers'' env)
               (env_or_empty env ''ALWAYS_USE_RELAY'') (env_or_empty env ''TEST_HBBS'') (word_of_int port) rmem w' of
          Inl err \<Rightarrow> (Not_Serving err, fs1, disk1(url \<mapsto> f'))
        | Inr (p, target) \<Rightarrow> (Booted p key target, fs1, disk1(url \<mapsto> f')))"
    by (simp add: hbbs_boot_def assms(5) [symmetric])
  have "in_sk (h_inner (sv_handle (start_server x db0 (hbbs_inner ho env serial (Some sk)) ra rl av))) = Some sk"
    for x db0 ra rl av serial by (simp add: start_server_handle hbbs_inner_def Let_def)
  moreover have "\<exists>cfg ra rl av. v0 = start_server (ho_ext ho) (Some []) cfg ra rl av" using v0 db by blast
  ultimately show ?thesis
    using hbbs_start_outcome [OF trans [OF again [symmetric] assms(11)]] by (fastforce split: boot.splits)
qed

text \<open>
  C19. A program that is started again goes on where it ended, as long as its database works. On a machine without a database it is started and gets a
  signing key; it then runs through anything - restarts and lookups that overlap registrations included - while its database answers every
  statement; and its rows are in the file when it ends. Started again with the same settings it requires the same public key, signs with
  the same secret one and knows the same ids with the same \<open>uuid\<close>s, each with a key and address that had been accepted for it, and exactly what the
  old process knew if no lookup overlapped a registration; or it says that a socket or the address of its self test is to blame. The key
  files and the database are left as they were.
\<close>

theorem started_again:
  assumes "base64_ok (ho_coding ho)" and "ed25519_pairs draws" and "fs_open fs sk_file"
    and "engine_laws (ho_engine ho)" and "url = db_url env (ho_platform ho)" and "en_path (ho_engine ho) url = Some url"
    and "disk url = None" and "json_roundtrip (ho_ext ho)"
    and "hbbs_boot ho draws env fs disk w = (Booted (Serving v0 ss0 w0) key target, fs1, disk1)"
    and "in_sk (h_inner (sv_handle v0)) = Some sk"
    and "(long_life_step (ho_ext ho) key)\<^sup>*\<^sup>* (v0, []) (v, L)"
    and "en_store (ho_engine ho) (pm_db (pmap (sv_shared v))) f = Some f'"
    and "hbbs_boot ho draws' env fs1 (disk1(url \<mapsto> f')) w' = (again, fs2, disk2)"
  shows "fs2 = fs1 \<and> disk2 = disk1(url \<mapsto> f') \<and>
    (case again of
       Booted p key2 _ \<Rightarrow> key2 = key \<and>
         (\<exists>v2 ss2 w2. p = Serving v2 ss2 w2 \<and> in_sk (h_inner (sv_handle v2)) = Some sk \<and>
            (\<forall>i. map_option fst (registry_of (ho_ext ho) v2 i) = map_option fst (registry_of (ho_ext ho) v i)) \<and>
            (\<exists>a. archive_step\<^sup>*\<^sup>* (archive_of (\<lambda>_. None)) a \<and>
               (\<forall>i k. registry_of (ho_ext ho) v2 i = Some k \<longrightarrow> k \<in> ar_accepted a i)) \<and>
            ((life_step (ho_ext ho) key)\<^sup>*\<^sup>* v0 v \<longrightarrow> registry_of (ho_ext ho) v2 = registry_of (ho_ext ho) v))
     | Not_Serving _ \<Rightarrow> True
     | _ \<Rightarrow> False)"
proof -
  let ?x = "ho_ext ho"
  note boots = boot_after_boot [OF assms(1-7,9,10,12,13)]
  then obtain cfg ra rl av where v0: "v0 = start_server ?x (Some []) cfg ra rl av" by blast
  have "registry_of ?x v0 = (\<lambda>_. None)"
    by (simp add: v0 fun_eq_iff registry_of_def start_server_pmap known_identity_def peer_of_def find_row_def)
      (simp add: pm_new_def create_tables_def)
  note know = long_life_again [OF _ _ assms(8) v0 assms(11) refl, unfolded this]
  have ok: "file_ok (Some [])" "\<forall>r \<in> set (create_tables (Some [])). r_guid r \<noteq> []" by (simp_all add: file_ok_def db_wf_def)
  show ?thesis
  proof (cases again)
    case (Booted p key2 addr)
    with boots obtain v2 ss2 w2 cfg ra rl av where "key2 = key" "p = Serving v2 ss2 w2" "in_sk (h_inner (sv_handle v2)) = Some sk"
      and v2: "v2 = start_server ?x (Some (pm_db (pmap (sv_shared v)))) cfg ra rl av" by auto
    with boots Booted know [OF ok, of cfg ra rl av, folded v2] show ?thesis by simp
  qed (use boots in auto)
qed

definition sample_host :: "externals \<Rightarrow> (unit, u16, u16, db option) host" where
  "sample_host x =
     \<lparr>ho_net = open_net, ho_ext = x, ho_coding = sample_coding, ho_engine = sample_engine, ho_platform = Unix_Like,
      ho_port = 21116, ho_version = \<lambda>_. [], ho_mask = \<lambda>_. None, ho_local_ip = None\<rparr>"

lemma sample_host_fields [simp]:
  "ho_net (sample_host x) = open_net" "ho_ext (sample_host x) = x" "ho_coding (sample_host x) = sample_coding"
  "ho_engine (sample_host x) = sample_engine" "ho_platform (sample_host x) = Unix_Like" "ho_port (sample_host x) = 21116"
  by (simp_all add: sample_host_def)

text \<open>Nothing of what a start reads is set, apart from the relay and rendezvous servers.\<close>

definition nothing_set :: "variables \<Rightarrow> bool" where
  "nothing_set env \<longleftrightarrow> hbbs_main 21116 env = Inr (21116, 0, ''-'', 0) \<and>
     list_all (\<lambda>name. env name = None) [''DB_URL'', ''MAX_DATABASE_CONNECTIONS'', ''ALWAYS_USE_RELAY'', ''TEST_HBBS'']"

lemma nothing_set_empty: "nothing_set (\<lambda>_. None)"
  by (simp add: nothing_set_def hbbs_main_default)

lemma nothing_setD:
  assumes "nothing_set env"
  shows "hbbs_main 21116 env = Inr (21116, 0, ''-'', 0)" "db_url env Unix_Like = ''./db_v2.sqlite3''" "max_connections env = 1"
    "env_or_empty env ''ALWAYS_USE_RELAY'' = []" "env_or_empty env ''TEST_HBBS'' = []"
  using assms max_connections_unset [of env] by (simp_all add: nothing_set_def db_url_def env_or_empty_def)

lemma sample_database:
  assumes "nothing_set env"
  shows "database_new sample_engine env (db_url env Unix_Like) (\<lambda>_. None) = (Opened [], [db_url env Unix_Like \<mapsto> Some []])"
  by (simp add: database_new_def nothing_setD [OF assms] db_connect_def ensure_file_def Let_def)
    (simp add: sample_engine_def create_tables_def)

text \<open>A server without any settings, in an empty directory, on a machine where every socket opens.\<close>

lemma sample_boot:
  assumes "nothing_set env"
  obtains cfg ra rl ss0 key sk target fs1 where
    "hbbs_boot (sample_host x) sample_draws env empty_dir (\<lambda>_. None) ()
       = (Booted (Serving (start_server x (Some []) cfg ra rl []) ss0 ()) key target, fs1,
          [db_url env Unix_Like \<mapsto> Some []])" "in_sk cfg = Some sk"
proof -
  note env = nothing_setD [OF assms]
  let ?cfg = "\<lambda>sk. hbbs_inner (sample_host x) env (word_of_int 0) (Some sk)"
    and ?ra = "get_arg ''rendezvous-servers'' env" and ?rl = "get_arg ''relay-servers'' env"
  obtain pk sk fs1 where g: "gen_sk sample_coding sample_draws 0 empty_dir empty_dir = (Key pk (Some sk), fs1)"
    using sample_first_start by blast
  then have key: "get_server_sk sample_coding sample_draws empty_dir ''-'' = (Key pk (Some sk), fs1)"
    by (simp add: get_server_sk_def crypto_arg_def sample_coding_def)
  obtain p target where start: "hbbs_start open_net x (Some (Some [])) (?cfg sk) ?ra ?rl [] [] (word_of_int 21116) 0 () = Inr (p, target)"
    by (simp add: hbbs_start_def open_net_sockets test_target_def to_lowercase_def) (simp add: open_net_def)
  obtain ss0 where "p = Serving (start_server x (Some []) (?cfg sk) ?ra ?rl []) ss0 ()"
    using start by (auto simp: hbbs_start_def split: prod.splits option.splits sum.splits)
  moreover have "hbbs_boot (sample_host x) sample_draws env empty_dir (\<lambda>_. None) ()
       = (Booted p pk target, fs1, [db_url env Unix_Like \<mapsto> Some []])"
    using start by (simp add: hbbs_boot_def key sample_database [OF assms] env(1,4,5))
  ultimately show ?thesis
    using that by (simp add: hbbs_inner_def Let_def)
qed

lemma sample_boot_serves: "fst (hbbs_boot (sample_host x) draws (\<lambda>_. None) fs disk ()) \<noteq> Not_Serving err"
proof -
  have "hbbs_start open_net x (Some db0) cfg ra rl av [] port rmem () \<noteq> Inl e" for db0 cfg ra rl av port rmem e
    by (simp add: hbbs_start_def open_net_sockets test_target_def to_lowercase_def) (simp add: open_net_def)
  note starts = this
  show ?thesis
  proof
    assume "fst (hbbs_boot (sample_host x) draws (\<lambda>_. None) fs disk ()) = Not_Serving err"
    then obtain fs' disk' where "hbbs_boot (sample_host x) draws (\<lambda>_. None) fs disk () = (Not_Serving err, fs', disk')"
      by (metis prod.exhaust_sel)
    then show False by (rule hbbs_boot_Not_Serving) (simp add: env_or_empty_def starts)
  qed
qed

lemma started_again_witness:
  "\<exists>again fs1 fs2 disk disk2 key.
     hbbs_boot (sample_host (attack_ext sample_rk)) sample_draws (\<lambda>_. None) fs1 disk () = (again, fs2, disk2) \<and>
     fs2 = fs1 \<and> disk2 = disk \<and>
     (\<exists>v2 ss2 w2 target. again = Booted (Serving v2 ss2 w2) key target \<and>
        registry_of (attack_ext sample_rk) v2 ''123456'' = Some ([1], [2], show_ip (IpV4 1)))"
proof -
  let ?x = "attack_ext sample_rk" and ?url = "db_url (\<lambda>_. None) Unix_Like"
  obtain cfg ra rl ss0 key sk target fs1 where boot: "hbbs_boot (sample_host ?x) sample_draws (\<lambda>_. None) empty_dir (\<lambda>_. None) ()
      = (Booted (Serving (start_server ?x (Some []) cfg ra rl []) ss0 ()) key target, fs1, [?url \<mapsto> Some []])"
    and sk: "in_sk cfg = Some sk" by (rule sample_boot [OF nothing_set_empty])
  obtain v where run: "life_step ?x key (start_server ?x (Some []) cfg ra rl []) v"
    and v: "registry_of ?x v ''123456'' = Some ([1], [2], show_ip (IpV4 1))"
    by (rule sample_registered [of "Some []"]) simp
  obtain again fs2 disk2 where second: "hbbs_boot (sample_host ?x) sample_draws (\<lambda>_. None) fs1
      ([?url \<mapsto> Some []](?url \<mapsto> Some (pm_db (pmap (sv_shared v))))) () = (again, fs2, disk2)"
    by (metis prod_cases3)
  have pre: "fs_open empty_dir sk_file" "en_path sample_engine ?url = Some ?url"
    "en_store sample_engine (pm_db (pmap (sv_shared v))) None = Some (Some (pm_db (pmap (sv_shared v))))"
    by (simp_all add: empty_dir_def sample_engine_def db_url_def)
  have "in_sk (h_inner (sv_handle (start_server ?x (Some []) cfg ra rl []))) = Some sk"
    by (simp add: start_server_handle sk)
  note after = started_again [of "sample_host ?x" sample_draws empty_dir ?url "\<lambda>_. None" "\<lambda>_. None" "()",
      simplified sample_host_fields, OF sample_coding_ok sample_draws_ok pre(1) sample_engine_laws refl pre(2) refl
        attack_json boot this r_into_rtranclp [of "long_life_step _ _", OF life_is_long [OF run]] pre(3) second]
  have served: "again \<noteq> Not_Serving err" for err
    using sample_boot_serves [of ?x sample_draws fs1 "[?url \<mapsto> Some []](?url \<mapsto> Some (pm_db (pmap (sv_shared v))))" err]
    unfolding second by simp
  have "(life_step ?x key)\<^sup>*\<^sup>* (start_server ?x (Some []) cfg ra rl []) v" using run by blast
  with after v have "\<exists>v2 ss2 w2 target. again = Booted (Serving v2 ss2 w2) key target \<and>
      registry_of ?x v2 ''123456'' = Some ([1], [2], show_ip (IpV4 1))"
    by (cases again) (auto simp: served)
  with second after show ?thesis by blast
qed

end
