(* ===== verification/Key_Loss.thy ===== *)
theory Key_Loss
  imports Keys Punch_Hole Relay_Pairing
begin

text \<open>
  What a server does when it was told to use the key file and cannot: \<open>gen_sk\<close> returns an empty key, and an
  empty key is how both servers are told to check none.
\<close>

definition key_unavailable :: "files \<Rightarrow> bool" where
  "key_unavailable fs \<longleftrightarrow>
     open_file sk_file fs = Some Garbled \<or>
     open_file sk_file fs = None \<and> \<not> (fs_create fs pub_file \<and> fs_create fs sk_file)"

lemma gen_sk_unavailable:
  assumes "key_unavailable fs"
  shows "fst (gen_sk cd draws wait fs fs) = Key [] None"
  using assms by (auto simp: key_unavailable_def gen_sk_def write_file_def Let_def split: prod.split)

lemma phr_fail_inj: "phr_fail f = phr_fail g \<longleftrightarrow> f = g"
  by (simp add: phr_fail_def phr_default_def)

lemma punch_message_no_failure: "fst (punch_message x e h a b nat_type ws s) \<noteq> phr_fail f"
  by (simp add: punch_message_def phr_fail_def Let_def case_prod_beta)

lemma broker_without_key:
  "fst (fst (handle_punch_hole_request x e h a ph [] ws s)) \<noteq> phr_fail LICENSE_MISMATCH"
  by (simp add: handle_punch_hole_request_def phr_fail_inj punch_message_no_failure Let_def case_prod_beta
      split: prod.split option.split)

lemma relay_without_key:
  assumes "x_decode x bs = Some (Some (RequestRelay rf))" and "rf_uuid rf \<noteq> []"
  shows "rl_asked (first_message x [] n addr st (Some bs) s) n = Some (rf_uuid rf)"
  using assms by (auto simp: first_message_def remove_peer_def set_task_def Let_def raw_pair_def split: option.split)

text \<open>
  C35. A key that cannot be had is no key: started with \<open>-k -\<close> where the key file cannot be read as text, or can neither be
  opened nor created, both servers go on without a key, so that no punch-hole request is refused for its licence key and
  the relay serves every request, whatever key it shows.
\<close>

theorem lost_key_opens_servers:
  assumes "key_unavailable fs" and "b64_decode cd ''-'' = None"
    and "get_server_sk cd draws fs ''-'' = (Key key sk, fs')"
    and "relay_get_server_sk cd draws fs fs ''-'' = (Key rkey rsk, fs'')"
    and "x_decode x bs = Some (Some (RequestRelay rf))" and "rf_uuid rf \<noteq> []"
  shows "fst (fst (handle_punch_hole_request x e h a ph key ws s)) \<noteq> phr_fail LICENSE_MISMATCH \<and>
    rl_asked (first_message x rkey n addr st (Some bs) r) n = Some (rf_uuid rf) \<and> sk = None"
proof -
  have "crypto_arg cd ''-'' = None" using assms(2) by (simp add: crypto_arg_def)
  moreover obtain fs1 where "gen_sk cd draws 0 fs fs = (Key [] None, fs1)"
    using gen_sk_unavailable [OF assms(1), of cd draws 0] by (metis prod.collapse)
  moreover obtain fs2 where "gen_sk cd draws 300 fs fs = (Key [] None, fs2)"
    using gen_sk_unavailable [OF assms(1), of cd draws 300] by (metis prod.collapse)
  ultimately have "key = [] \<and> sk = None" "rkey = []"
    using assms(3,4) by (simp_all add: get_server_sk_def relay_get_server_sk_def)
  with broker_without_key relay_without_key [OF assms(5,6)] show ?thesis by blast
qed

definition keyed_request :: request_relay where
  "keyed_request = \<lparr>rf_id = [], rf_uuid = ''u1'', rf_socket_addr = [], rf_licence_key = ''wrong'', rf_rest = []\<rparr>"

lemma lost_key_opens_servers_witness:
  "\<exists>rkey rsk fs''. relay_get_server_sk sample_coding sample_draws (empty_dir\<lparr>fs_create := \<lambda>_. False\<rparr>)
       (empty_dir\<lparr>fs_create := \<lambda>_. False\<rparr>) ''-'' = (Key rkey rsk, fs'') \<and>
     rl_asked (first_message (sample_ext\<lparr>x_decode := \<lambda>_. Some (Some (RequestRelay keyed_request))\<rparr>) rkey 0
       (SocketV4 1 2) \<lparr>rs_task = 0, rs_is_ws = False, rs_raw = False\<rparr> (Some []) relay_init) 0 = Some ''u1''"
proof -
  let ?fs = "empty_dir\<lparr>fs_create := \<lambda>_. False\<rparr>"
  let ?x = "sample_ext\<lparr>x_decode := \<lambda>_. Some (Some (RequestRelay keyed_request))\<rparr>"
  have un: "key_unavailable ?fs" by (simp add: key_unavailable_def open_file_def empty_dir_def)
  have no: "b64_decode sample_coding ''-'' = None" by (simp add: sample_coding_def)
  then have arg: "crypto_arg sample_coding ''-'' = None" by (simp add: crypto_arg_def)
  have gen: "gen_sk sample_coding sample_draws w ?fs ?fs = (Key [] None, ?fs)" for w
    by (simp add: gen_sk_def open_file_def empty_dir_def Let_def case_prod_beta)
  have start: "get_server_sk sample_coding sample_draws ?fs ''-'' = (Key [] None, ?fs)"
    "relay_get_server_sk sample_coding sample_draws ?fs ?fs ''-'' = (Key [] None, ?fs)"
    using gen arg by (simp_all add: get_server_sk_def relay_get_server_sk_def)
  have rf: "x_decode ?x [] = Some (Some (RequestRelay keyed_request))" "rf_uuid keyed_request \<noteq> []"
    "rf_uuid keyed_request = ''u1''" by (simp_all add: keyed_request_def)
  show ?thesis
    using lost_key_opens_servers [OF un no start rf(1,2)] start(2) unfolding rf(3) by blast
qed

end
