(* ===== verification/Relay_Startup.thy ===== *)
theory Relay_Startup
  imports Startup Key_Loss
begin

text \<open>
  The relay server from its command line to its listeners (\<open>main\<close> of \<open>src/hbbr.rs\<close>, \<open>start\<close> of \<open>src/relay_server.rs\<close>), and what the two
  programs do side by side as the unit files of \<open>deploy/systemd\<close> start them.
\<close>

definition text_file :: "string \<Rightarrow> Keys.files \<Rightarrow> string option" where
  "text_file name fs = (case open_file name fs of Some (Plain contents) \<Rightarrow> Some contents | _ \<Rightarrow> None)"

datatype ('w, 'l) relay_boot =
    Relay_Key_File
  | Relay_Bad_Port start_error
  | Relay_Booted "('w, 'l) hbbr" string

text \<open>The key comes first, which may wait for the other server's file; then the lists; the port is read last.\<close>

definition hbbr_program ::
  "('w, 'u, 'l, 'f) host \<Rightarrow> float_ops \<Rightarrow> nat \<Rightarrow> (nat \<Rightarrow> bytes \<times> bytes) \<Rightarrow> (string \<Rightarrow> ini_section option) \<Rightarrow>
     (string \<times> string list) list \<Rightarrow> variables \<Rightarrow> Keys.files \<Rightarrow> Keys.files \<Rightarrow> 'w \<Rightarrow> ('w, 'l) relay_boot \<times> Keys.files" where
  "hbbr_program ho fo relay_port draws load matches env0 later fs w =
     (let (port, key_arg) = hbbr_main relay_port load matches env0; env = hbbr_env (load ''.env'') env0
      in case relay_get_server_sk (ho_coding ho) draws later fs key_arg of
           (Exit, fs') \<Rightarrow> (Relay_Key_File, fs')
         | (Key key _, fs') \<Rightarrow>
             (case hbbr_start (ho_net ho) fo env (text_file ''blacklist.txt'' fs') (text_file ''blocklist.txt'' fs') port w of
                Inl err \<Rightarrow> (Relay_Bad_Port err, fs')
              | Inr p \<Rightarrow> (Relay_Booted p key, fs')))"

text \<open>Without \<open>-k\<close> and \<open>KEY\<close> the relay has an empty key, and the rendezvous server the one in its key file.\<close>

lemma hbbr_key_unset:
  assumes "value_of ''key'' matches = None" and "hbbr_env (load ''.env'') env0 ''KEY'' = None"
  shows "snd (hbbr_main d load matches env0) = []"
  using assms by (simp add: hbbr_main_def Let_def)

lemma key_names: "arg_name ''key'' = ''KEY''" "arg_name ''relay-servers'' = ''RELAY-SERVERS''"
  by code_simp+

lemma hbbs_key_unset:
  assumes "load ''.env'' = None" and "env0 ''KEY'' = None"
  shows "get_arg_or ''key'' ''-'' (init_args load [(''relay-servers'', [r])] env0) = ''-''"
  using assms
  by (simp add: setting_precedence key_names from_line_def from_ini_def value_of_def)

lemma own_key_not_empty:
  assumes "base64_ok cd" and "ed25519_pairs draws" and "fs_open fs sk_file"
    and "get_server_sk cd draws fs ''-'' = (Key key (Some sk), fs')"
  shows "key \<noteq> []"
proof (cases "crypto_arg cd ''-''")
  case None
  with assms(4) have gen: "gen_sk cd draws 0 fs fs = (Key key (Some sk), fs')"
    by (auto simp: get_server_sk_def split: prod.splits key_result.splits)
  then obtain "length sk = SECRETKEYBYTES" "key = b64_encode cd (drop 32 sk)"
    using gen_sk_stored [OF assms(1-3)] by blast
  with base64_okD(3) [OF assms(1), of "drop 32 sk"] show ?thesis by (simp add: SECRETKEYBYTES_def)
next
  case (Some s)
  with assms(4) base64_okD(3) [OF assms(1), of "drop 32 s"] crypto_arg_length [OF Some] show ?thesis
    by (auto simp: get_server_sk_def SECRETKEYBYTES_def Let_def)
qed

text \<open>
  As they are deployed, the two servers ask for different things: the rendezvous server, started with relay servers only, refuses a
  punch-hole request without its own key, while the relay, started with nothing at all, serves every request whatever key it shows.
\<close>

theorem deployed_relay_is_open:
  assumes "base64_ok (ho_coding ho)" and "ed25519_pairs draws" and "fs_open fs sk_file"
    and "load ''.env'' = None" and "env0 ''KEY'' = None"
    and "hbbs_program ho draws load [(''relay-servers'', [r])] env0 fs disk w = (Booted (Serving v ss w') key target, fs1, disk1)"
    and "in_sk (h_inner (sv_handle v)) = Some sk"
    and "hbbr_program ho fo relay_port draws' load [] env0 later fs1 w' = (Relay_Booted p rkey, fs2)"
    and "b64_decode (ho_coding ho) [] = Some []"
  shows "(ph_licence_key ph \<noteq> key \<longrightarrow>
      fst (handle_punch_hole_request x e h a ph key ws s) = (phr_fail LICENSE_MISMATCH, None)) \<and> key \<noteq> [] \<and>
    (x_decode x bs = Some (Some (RequestRelay rf)) \<and> rf_uuid rf \<noteq> [] \<longrightarrow>
      rl_asked (first_message x rkey n addr st (Some bs) q) n = Some (rf_uuid rf)) \<and> fs2 = fs1"
proof -
  let ?env = "init_args load [(''relay-servers'', [r])] env0"
  from assms(6) obtain port serial key_arg rmem sk0 rows where first:
    "hbbs_main (ho_port ho) ?env = Inr (port, serial, key_arg, rmem)"
    "get_server_sk (ho_coding ho) draws fs key_arg = (Key key sk0, fs1)"
    "hbbs_start (ho_net ho) (ho_ext ho) (Some (Some rows)) (hbbs_inner ho ?env (word_of_int serial) sk0)
       (get_arg ''rendezvous-servers'' ?env) (get_arg ''relay-servers'' ?env)
       (env_or_empty ?env ''ALWAYS_USE_RELAY'') (env_or_empty ?env ''TEST_HBBS'') (word_of_int port) rmem w
       = Inr (Serving v ss w', target)"
    unfolding hbbs_program_def by (rule hbbs_boot_Booted)
  have "key_arg = ''-''"
    using first(1) hbbs_key_unset [of load env0 r] assms(4,5) by (auto simp: hbbs_main_def split: option.splits if_splits)
  moreover have "sk0 = Some sk"
    using assms(7) hbbs_start_parts(1) [OF first(3)] by (simp add: start_server_handle hbbs_inner_def Let_def)
  ultimately have "key \<noteq> []" using own_key_not_empty [OF assms(1-3)] first(2) by blast
  moreover have "rkey = [] \<and> fs2 = fs1"
  proof -
    have "snd (hbbr_main relay_port load [] env0) = []"
      by (rule hbbr_key_unset) (simp_all add: value_of_def hbbr_env_def assms(4,5))
    moreover have "crypto_arg (ho_coding ho) [] = None" by (simp add: crypto_arg_def assms(9) SECRETKEYBYTES_def)
    ultimately show ?thesis
      using assms(8) by (auto simp: hbbr_program_def relay_get_server_sk_def Let_def split: prod.splits sum.splits)
  qed
  ultimately show ?thesis
    using relay_without_key [of x bs rf] by (auto simp: handle_punch_hole_request_def)
qed

lemma relay_ports_show: "n < 65536 \<Longrightarrow> relay_ports (show_nat n) = Inr (word_of_nat n, word_of_nat n + 2)"
proof -
  assume "n < 65536"
  moreover obtain c cs where s: "show_nat n = c # cs" "is_digit c" by (rule show_nat_Cons)
  moreover have "c \<noteq> CHR ''+''" using s(2) by (auto simp: is_digit_def)
  moreover have "parse_plain (c # cs) = Some n" using parse_plain_show [of n] s(1) by simp
  ultimately show ?thesis by (simp add: relay_ports_def)
qed

lemma deployed_relay_is_open_witness:
  "\<exists>fs1 rkey key p. hbbr_program (sample_host sample_ext) sample_floats 21117 sample_draws (\<lambda>_. None) [] (\<lambda>_. None) fs1 fs1 ()
      = (Relay_Booted p rkey, fs1) \<and> key \<noteq> [] \<and>
     rl_asked (first_message (sample_ext\<lparr>x_decode := \<lambda>_. Some (Some (RequestRelay keyed_request))\<rparr>) rkey 0
       (SocketV4 1 2) \<lparr>rs_task = 0, rs_is_ws = False, rs_raw = False\<rparr> (Some []) relay_init) 0 = Some ''u1''"
proof -
  let ?line = "[(''relay-servers'', [''r''])]" and ?none = "\<lambda>_. None"
  let ?env = "init_args ?none ?line ?none" and ?rf = "\<lambda>_. Some (Some (RequestRelay keyed_request))"
  have unset: "?env name = None" if "name \<noteq> ''RELAY-SERVERS''" for name
    using that by (simp add: init_args_def value_of_def load_ini_def key_names)
  have names: "arg_name ''port'' = ''PORT''" "arg_name ''serial'' = ''SERIAL''" "arg_name ''rmem'' = ''RMEM''" by code_simp+
  have same: "get_arg_or name dflt ?env = get_arg_or name dflt ?none" if "arg_name name \<noteq> ''RELAY-SERVERS''" for name dflt
    using that by (simp add: get_arg_or_def unset)
  have "get_arg_or ''port'' d ?env = get_arg_or ''port'' d ?none" "get_arg_or ''serial'' d ?env = get_arg_or ''serial'' d ?none"
    "get_arg_or ''key'' d ?env = get_arg_or ''key'' d ?none" "get_arg_or ''rmem'' d ?env = get_arg_or ''rmem'' d ?none" for d
    by (rule same, simp add: names key_names)+
  then have "hbbs_main 21116 ?env = hbbs_main 21116 ?none" unfolding hbbs_main_def get_arg_def by presburger
  then have env: "nothing_set ?env" by (simp add: nothing_set_def hbbs_main_default unset)
  obtain cfg ra rl ss0 key sk target fs1 where
    boot: "hbbs_boot (sample_host sample_ext) sample_draws ?env empty_dir ?none ()
      = (Booted (Serving (start_server sample_ext (Some []) cfg ra rl []) ss0 ()) key target, fs1, [db_url ?env Unix_Like \<mapsto> Some []])"
    and sk: "in_sk cfg = Some sk" by (rule sample_boot [OF env])
  have empty: "b64_decode (ho_coding (sample_host sample_ext)) [] = Some []" by (simp add: sample_coding_def)
  have port: "relay_ports (show_int 21117) = Inr (21117, 21119)" using relay_ports_show [of 21117] by (simp add: show_int_def)
  obtain p where relay: "hbbr_program (sample_host sample_ext) sample_floats 21117 sample_draws ?none [] ?none fs1 fs1 ()
      = (Relay_Booted p [], fs1)"
    using empty
    by (simp add: hbbr_program_def hbbr_main_def hbbr_env_def hbbr_port_def value_of_def relay_get_server_sk_def crypto_arg_def
        SECRETKEYBYTES_def port hbbr_start_def)
  have pre: "fs_open empty_dir sk_file" "in_sk (h_inner (sv_handle (start_server sample_ext (Some []) cfg ra rl []))) = Some sk"
    by (simp_all add: empty_dir_def start_server_handle sk)
  have rf: "rf_uuid keyed_request = ''u1''" by (simp add: keyed_request_def)
  from deployed_relay_is_open [of "sample_host sample_ext" sample_draws empty_dir ?none ?none "''r''", unfolded hbbs_program_def sample_host_fields,
      OF sample_coding_ok sample_draws_ok pre(1) refl refl boot pre(2) relay [unfolded sample_host_fields] empty [unfolded sample_host_fields],
      of undefined "sample_ext\<lparr>x_decode := ?rf\<rparr>" undefined undefined undefined undefined undefined "[]" keyed_request 0 "SocketV4 1 2"
        "\<lparr>rs_task = 0, rs_is_ws = False, rs_raw = False\<rparr>" relay_init]
  show ?thesis using relay by (auto simp: rf)
qed

end
