(* ===== verification/Update_Check.thy ===== *)
theory Update_Check
  imports Text_Parsing
begin

text \<open>
  The update check of \<open>src/common.rs\<close> (\<open>check_software_update\<close>): once a day the address of the latest release is asked for, and its last
  part compared with the running version. The request, and the number of a version text, are not part of the
  repository: the model takes what the request returned (\<^const>\<open>None\<close> for any error on the way) and that function.
\<close>

definition latest_version :: "string \<Rightarrow> string" where
  "latest_version url = last (split_on CHR ''/'' url)"

text \<open>One check: the version it announces in the log, if any.\<close>

definition check_once :: "(string \<Rightarrow> int) \<Rightarrow> string \<Rightarrow> string option \<Rightarrow> string option" where
  "check_once number version response =
     (case response of
        None \<Rightarrow> None
      | Some url \<Rightarrow>
          (let latest = latest_version url
           in if number version < number latest then Some latest else None))"

text \<open>The checks of successive days are independent threads: one that fails keeps no later one from running.\<close>

definition check_software_update :: "(string \<Rightarrow> int) \<Rightarrow> string \<Rightarrow> string option list \<Rightarrow> string list" where
  "check_software_update number version days = List.map_filter (check_once number version) days"

lemma latest_version_tag: "CHR ''/'' \<notin> set v \<Longrightarrow> latest_version (base @ CHR ''/'' # v) = v"
proof -
  assume v: "CHR ''/'' \<notin> set v"
  have "split_on c (xs @ c # ys) = split_on c xs @ split_on c ys" for c :: char and xs ys
  proof (induction xs)
    case (Cons x xs)
    then show ?case by (cases "split_on c xs") simp_all
  qed simp
  then show ?thesis using v by (simp add: latest_version_def split_on_free)
qed

text \<open>A release is announced on exactly the days on which its address came and it is newer.\<close>

lemma check_once_Some:
  "check_once number version response = Some v \<longleftrightarrow>
     number version < number v \<and> (\<exists>url. response = Some url \<and> latest_version url = v)"
  by (cases response) (auto simp: check_once_def Let_def)

lemma update_announced:
  "v \<in> set (check_software_update number version days) \<longleftrightarrow>
     number version < number v \<and> (\<exists>url. Some url \<in> set days \<and> latest_version url = v)"
proof -
  have "v \<in> set (check_software_update number version days) \<longleftrightarrow>
      (\<exists>r \<in> set days. check_once number version r = Some v)"
    unfolding check_software_update_def by (induction days) (auto split: option.splits)
  then show ?thesis unfolding check_once_Some by blast
qed

end
