(* ===== verification/Key_Utility.thy ===== *)
theory Key_Utility
  imports Keys Net_Parse
begin

text \<open>
  The command-line utility \<open>src/utils.rs\<close>: generating and validating key pairs, and the \<open>doctor\<close> that probes a
  server. Signing, name lookup and the network are parameters; what is printed is a list of lines, and a run returns, exits
  with a code, or panics where the code unwraps a failed lookup.
\<close>

record world =
  w_sign :: "bytes \<Rightarrow> bytes \<Rightarrow> bytes"
  w_verify :: "bytes \<Rightarrow> bytes \<Rightarrow> bytes option"
  w_lookup_addr :: "ip_addr \<Rightarrow> string option"
  w_lookup_host :: "string \<Rightarrow> ip_addr list option"
  w_connect :: "string \<Rightarrow> nat option"

datatype ending = Returned | Exited nat | Panicked

type_synonym run = "string list \<times> ending"

definition also_run :: "run \<Rightarrow> run \<Rightarrow> run" where
  "also_run r q = (case r of (out, Returned) \<Rightarrow> (out @ fst q, snd q) | (out, e) \<Rightarrow> (out, e))"

definition help_text :: "string list" where
  "help_text =
     [''Usage:'', ''    rustdesk-utils [command]'', [], ''Available Commands:'',
      ''    genkeypair                                   Generate a new keypair'',
      ''    validatekeypair [public key] [secret key]    Validate an existing keypair'',
      ''    doctor [rustdesk-server]                     Check for server connection problems'']"

definition print_help :: run where "print_help = (help_text, Exited 1)"

definition error_then_help :: "string \<Rightarrow> run" where
  "error_then_help msg = also_run ([''ERROR: '' @ msg, []], Returned) print_help"

definition gen_keypair :: "coding \<Rightarrow> (nat \<Rightarrow> bytes \<times> bytes) \<Rightarrow> run" where
  "gen_keypair cd draws =
     ([''Public Key:  '' @ b64_encode cd (fst (draws 0)), ''Secret Key:  '' @ b64_encode cd (snd (draws 0))],
      Returned)"

definition PUBLICKEYBYTES :: nat where "PUBLICKEYBYTES = 32"

text \<open>\<open>This is meh.\<close>\<close>

definition test_data :: bytes where
  "test_data = [84, 104, 105, 115, 32, 105, 115, 32, 109, 101, 104, 46]"

definition validate_keypair :: "world \<Rightarrow> coding \<Rightarrow> string \<Rightarrow> string \<Rightarrow> string + unit" where
  "validate_keypair w cd pk sk =
     (case b64_decode cd sk of
        None \<Rightarrow> Inl ''Invalid secret key''
      | Some sk1 \<Rightarrow>
          if length sk1 \<noteq> SECRETKEYBYTES then Inl ''Invalid Secret key''
          else (case b64_decode cd pk of
            None \<Rightarrow> Inl ''Invalid public key''
          | Some pk1 \<Rightarrow>
              if length pk1 \<noteq> PUBLICKEYBYTES then Inl ''Invalid Public key''
              else (case w_verify w (w_sign w test_data sk1) pk1 of
                None \<Rightarrow> Inl ''Key pair is INVALID''
              | Some d \<Rightarrow> if test_data \<noteq> d then Inl ''Key pair is INVALID'' else Inr ())))"

subsection \<open>The doctor\<close>

definition doctor_tcp :: "world \<Rightarrow> ip_addr \<Rightarrow> string \<Rightarrow> string \<Rightarrow> string" where
  "doctor_tcp w address port desc =
     (case w_connect w (show_ip address @ CHR '':'' # port) of
        Some ms \<Rightarrow> ''TCP Port '' @ port @ '' ('' @ desc @ ''): OK in '' @ show_nat ms @ '' ms''
      | None \<Rightarrow> ''TCP Port '' @ port @ '' ('' @ desc @ ''): ERROR'')"

definition probed_ports :: "(string \<times> string) list" where
  "probed_ports =
     [(''21114'', ''API''), (''21115'', ''hbbs extra port for nat test''), (''21116'', ''hbbs''),
      (''21117'', ''hbbr tcp''), (''21118'', ''hbbs websocket''), (''21119'', ''hbbr websocket'')]"

fun is_ipv4 :: "ip_addr \<Rightarrow> bool" where
  "is_ipv4 (IpV4 _) = True"
| "is_ipv4 (IpV6 _) = False"

definition doctor_ip :: "world \<Rightarrow> ip_addr \<Rightarrow> string option \<Rightarrow> run" where
  "doctor_ip w ip server =
     (let head = [[], ''Checking IP address: '' @ show_ip ip, ''Is IPV4: '' @ show_bool (is_ipv4 ip),
                  ''Is IPV6: '' @ show_bool (\<not> is_ipv4 ip)]
      in case w_lookup_addr w ip of
           None \<Rightarrow> (head, Panicked)
         | Some rname \<Rightarrow>
             (head @
              (case server of
                 Some s \<Rightarrow>
                   [if rname = s then ''Reverse DNS lookup: '' @ [CHR 39] @ rname @ [CHR 39] @ '' MATCHES server address''
                    else ''Reverse DNS lookup: '' @ [CHR 39] @ rname @ [CHR 39] @ '' DOESN'' @ [CHR 39] @
                      ''T MATCH server address '' @ [CHR 39] @ s @ [CHR 39]]
               | None \<Rightarrow> []) @
              map (\<lambda>(port, desc). doctor_tcp w ip port desc) probed_ports, Returned))"

definition doctor :: "world \<Rightarrow> string \<Rightarrow> run" where
  "doctor w unclean =
     (let server = to_lowercase (trim unclean);
          head = ([''Checking server:  '' @ server, []], Returned)
      in case parse_ip server of
           Some ip \<Rightarrow> also_run head (doctor_ip w ip None)
         | None \<Rightarrow>
             (case w_lookup_host w server of
                None \<Rightarrow> also_run head ([], Panicked)
              | Some ips \<Rightarrow>
                  also_run head
                    (foldl also_run
                       ((''Found '' @ show_nat (length ips) @ '' IP addresses: '') # map (\<lambda>ip. '' - '' @ show_ip ip) ips, Returned)
                       (map (\<lambda>ip. doctor_ip w ip (Some server)) ips))))"

text \<open>\<open>main\<close>; the first argument is the program's name.\<close>

definition utils_main ::
  "world \<Rightarrow> coding \<Rightarrow> (nat \<Rightarrow> bytes \<times> bytes) \<Rightarrow> string list \<Rightarrow> run" where
  "utils_main w cd draws args =
     (if length args \<le> 1 then print_help
      else let command = to_lowercase (args ! 1)
       in if command = ''genkeypair'' then gen_keypair cd draws
          else if command = ''validatekeypair'' then
            (if length args \<le> 3 then error_then_help ''You must supply both the public and the secret key''
             else (case validate_keypair w cd (args ! 2) (args ! 3) of
                     Inl err \<Rightarrow> ([err], Exited 1)
                   | Inr _ \<Rightarrow> ([''Key pair is VALID''], Returned)))
          else if command = ''doctor'' then
            (if length args \<le> 2 then error_then_help ''You must supply the rustdesk-server address''
             else doctor w (args ! 2))
          else print_help)"

subsection \<open>The pairs it makes\<close>

text \<open>What signing promises: a signature made with a secret key verifies under the key that belongs to it.\<close>

definition signing_ok :: "world \<Rightarrow> (nat \<Rightarrow> bytes \<times> bytes) \<Rightarrow> bool" where
  "signing_ok w draws \<longleftrightarrow> (\<forall>i d. w_verify w (w_sign w d (snd (draws i))) (fst (draws i)) = Some d)"

text \<open>
  The pair that \<open>genkeypair\<close> prints is one that \<open>validatekeypair\<close> accepts, in any case of the command, and one that runs a server: given the
  secret half as its key the rendezvous server asks clients for the public half and signs with the secret one, and the
  relay server asks for the same.
\<close>

theorem generated_pair_works:
  assumes "base64_ok cd" and "ed25519_pairs draws" and "signing_ok w draws"
    and "fst (utils_main w cd draws [prog, ''genkeypair'']) = [''Public Key:  '' @ pk, ''Secret Key:  '' @ sk]"
    and "to_lowercase cmd = ''validatekeypair''"
  shows "utils_main w cd draws [prog, cmd, pk, sk] = ([''Key pair is VALID''], Returned) \<and>
    get_server_sk cd draws' fs sk = (Key pk (Some (snd (draws 0))), fs) \<and>
    relay_get_server_sk cd draws' later fs sk = (Key pk None, fs)"
proof -
  have low: "to_lowercase ''genkeypair'' = ''genkeypair''" by (simp add: to_lowercase_def lower_char_def)
  have pk: "pk = b64_encode cd (fst (draws 0))" and sk: "sk = b64_encode cd (snd (draws 0))"
    using assms(4) by (simp_all add: utils_main_def low gen_keypair_def)
  have len: "length (snd (draws 0)) = 64" "fst (draws 0) = drop 32 (snd (draws 0))"
    using assms(2) by (simp_all add: ed25519_pairs_def SECRETKEYBYTES_def)
  have l32: "length (fst (draws 0)) = 32" using len by simp
  have "validate_keypair w cd pk sk = Inr ()"
    using assms(3) len(1) l32 by (simp add: validate_keypair_def pk sk base64_okD(1) [OF assms(1)] signing_ok_def
        SECRETKEYBYTES_def PUBLICKEYBYTES_def)
  moreover have "crypto_arg cd sk = Some (snd (draws 0))"
    using len by (simp add: crypto_arg_def sk base64_okD(1) [OF assms(1)] SECRETKEYBYTES_def)
  moreover have "pk \<notin> {[], ''-'', ''_''}"
    unfolding pk by (rule base64_okD(3) [OF assms(1)]) (simp add: len)
  ultimately show ?thesis
    by (auto simp: utils_main_def assms(5) get_server_sk_def relay_get_server_sk_def SECRETKEYBYTES_def pk len(2))
qed

definition sample_world :: world where
  "sample_world =
     \<lparr>w_sign = \<lambda>d sk. drop 32 sk @ d, w_verify = \<lambda>s pk. if take 32 s = pk then Some (drop 32 s) else None,
      w_lookup_addr = \<lambda>_. None, w_lookup_host = \<lambda>_. None, w_connect = \<lambda>_. None\<rparr>"

lemma generated_pair_works_witness:
  "utils_main sample_world sample_coding sample_draws [''utils'', ''ValidateKeyPair'',
     b64_encode sample_coding (fst (sample_draws 0)), b64_encode sample_coding (snd (sample_draws 0))]
     = ([''Key pair is VALID''], Returned)"
proof -
  have sign: "signing_ok sample_world sample_draws"
    by (simp add: signing_ok_def sample_world_def sample_draws_def)
  have low: "to_lowercase ''ValidateKeyPair'' = ''validatekeypair''" "to_lowercase ''genkeypair'' = ''genkeypair''"
    by code_simp+
  show ?thesis
    by (rule generated_pair_works [OF sample_coding_ok sample_draws_ok sign _ low(1), THEN conjunct1])
      (simp add: utils_main_def low(2) gen_keypair_def)
qed

end
