(* ===== verification/Desktop.thy ===== *)
theory Desktop
  imports Text_Parsing
begin

text \<open>
  The tray program under \<open>ui/\<close>: the service it controls (\<open>usecase/service.rs\<close>, \<open>adapter/service/windows.rs\<close>), the
  presenter (\<open>usecase/presenter.rs\<close>) and the view (\<open>adapter/view/desktop.rs\<close>), with the events they exchange
  (\<open>usecase/view.rs\<close>), and the watcher of the log files (\<open>usecase/watcher.rs\<close>). Windows itself is a parameter: what running a program
  does to the machine and prints, and what the service manager reports. The command interpreter is taken to start, where the code would panic.
\<close>

datatype service_state = Paused | Started | Stopped | Unknown

fun show_state :: "service_state \<Rightarrow> string" where
  "show_state Paused = ''Paused''"
| "show_state Started = ''Started''"
| "show_state Stopped = ''Stopped''"
| "show_state Unknown = ''Unknown''"

datatype event =
    BrowserAction string
  | BrowserInit
  | BrowserUpdate string string
  | BrowserRender string
  | FileChange string
  | ViewAction string
  | ViewInit
  | ViewUpdate string
  | ViewRender string
  | ViewRenderAppExit
  | ViewRenderServiceState service_state

subsection \<open>The service\<close>

text \<open>
  Running a program, in a directory and with variables set or not: what it printed, if that is UTF-8, or why it could not be run. The
  service manager answers in three stages, each of which can fail with a text.
\<close>

datatype outcome = Output "string option" | Not_Run string

record 'w windows =
  os_exec :: "string option \<Rightarrow> (string \<times> string) list \<Rightarrow> string \<Rightarrow> string list \<Rightarrow> 'w \<Rightarrow> outcome \<times> 'w"
  os_path :: string
  os_manager :: "'w \<Rightarrow> string + unit"
  os_open :: "string \<Rightarrow> 'w \<Rightarrow> string + unit"
  os_query :: "string \<Rightarrow> 'w \<Rightarrow> string + string"

definition in_service_dir :: "string \<Rightarrow> string" where
  "in_service_dir name = ''service'' @ [CHR 92] @ name"

definition os_call :: "'w windows \<Rightarrow> string \<Rightarrow> 'w \<Rightarrow> 'w" where
  "os_call os cmd w =
     snd (os_exec os (Some (os_path os)) [(''nssm'', in_service_dir ''nssm.exe'')] ''cmd''
       [''/c'', ''start'', ''cmd'', ''/c'', cmd] w)"

definition exec :: "'w windows \<Rightarrow> string \<Rightarrow> string list \<Rightarrow> 'w \<Rightarrow> string \<times> 'w" where
  "exec os program args w =
     (case os_exec os None [] program args w of
        (Output out, w') \<Rightarrow> ((case out of Some s \<Rightarrow> s | None \<Rightarrow> []), w')
      | (Not_Run err, w') \<Rightarrow> (err, w'))"

definition nssm :: "'w windows \<Rightarrow> string list \<Rightarrow> 'w \<Rightarrow> string \<times> 'w" where
  "nssm os args w =
     (case exec os (os_path os @ [CHR 92] @ in_service_dir ''nssm.exe'') args w of
        (s, w') \<Rightarrow> (trim (filter (\<lambda>c. c \<noteq> CHR 0x00) s), w'))"

definition os_nssm :: "'w windows \<Rightarrow> string list \<Rightarrow> 'w \<Rightarrow> 'w" where
  "os_nssm os args w = snd (nssm os args w)"

definition os_status :: "'w windows \<Rightarrow> string \<Rightarrow> 'w \<Rightarrow> string" where
  "os_status os name w =
     (case os_manager os w of
        Inl err \<Rightarrow> err
      | Inr _ \<Rightarrow>
          (case os_open os name w of
             Inl err \<Rightarrow> err
           | Inr _ \<Rightarrow> (case os_query os name w of Inl err \<Rightarrow> err | Inr st \<Rightarrow> st)))"

record 'w desktop_service =
  ds_state :: service_state
  ds_world :: 'w

definition service_new :: "'w \<Rightarrow> 'w desktop_service" where
  "service_new w = \<lparr>ds_state = Stopped, ds_world = w\<rparr>"

definition service_check :: "'w windows \<Rightarrow> 'w desktop_service \<Rightarrow> service_state \<times> 'w desktop_service" where
  "service_check os s =
     (let st = (if os_status os ''hbbs'' (ds_world s) = ''Running'' then Started else Stopped)
      in (st, s\<lparr>ds_state := st\<rparr>))"

definition join_amp :: "string list \<Rightarrow> string" where
  "join_amp ps = (case ps of [] \<Rightarrow> [] | p # qs \<Rightarrow> p @ concat (map (\<lambda>q. '' & '' @ q) qs))"

definition run_script :: "string \<Rightarrow> string" where
  "run_script name = in_service_dir ''run.cmd '' @ name"

definition stop_and_remove :: "string \<Rightarrow> string list" where
  "stop_and_remove name = [''%nssm% stop '' @ name, ''%nssm% remove '' @ name @ '' confirm'']"

definition wait_line :: string where "wait_line = ''@ping 127.1 -n 3 >nul''"

definition service_start :: "'w windows \<Rightarrow> 'w desktop_service \<Rightarrow> 'w desktop_service" where
  "service_start os s =
     snd (service_check os (s\<lparr>ds_world := os_call os (join_amp
       ([''echo.''] @ stop_and_remove ''hbbr'' @ stop_and_remove ''hbbs'' @ [''mkdir logs'', ''echo.''] @
        [run_script ''hbbs'', ''echo.'', run_script ''hbbr'', ''echo.'', wait_line])) (ds_world s)\<rparr>))"

definition service_stop :: "'w windows \<Rightarrow> 'w desktop_service \<Rightarrow> 'w desktop_service" where
  "service_stop os s =
     snd (service_check os (s\<lparr>ds_world := os_call os (join_amp
       ([''echo.''] @ stop_and_remove ''hbbr'' @ [''echo.''] @ stop_and_remove ''hbbs'' @
        [''echo.'', wait_line])) (ds_world s)\<rparr>))"

definition service_restart :: "'w windows \<Rightarrow> 'w desktop_service \<Rightarrow> 'w desktop_service" where
  "service_restart os s =
     snd (service_check os (s\<lparr>ds_world :=
       os_nssm os [''restart'', ''hbbr''] (os_nssm os [''restart'', ''hbbs''] (ds_world s))\<rparr>))"

definition service_pause :: "'w windows \<Rightarrow> 'w desktop_service \<Rightarrow> 'w desktop_service" where
  "service_pause os s =
     snd (service_check os (s\<lparr>ds_world := os_call os (join_amp
       [''echo.'', ''%nssm% stop hbbr'', ''echo.'', ''%nssm% stop hbbs'', ''echo.'', wait_line]) (ds_world s)\<rparr>))"

text \<open>
  The contract of \<open>IDesktopService\<close>: every operation leaves the recorded state as a check would find it, so a
  check right after an operation changes nothing and reports what is recorded.
\<close>

locale checked_service =
  fixes check :: "'s \<Rightarrow> service_state \<times> 's" and recorded :: "'s \<Rightarrow> service_state" and ops :: "('s \<Rightarrow> 's) set"
  assumes check_records: "recorded (snd (check s)) = fst (check s)"
    and check_again: "check (snd (check s)) = check s"
    and op_checks: "f \<in> ops \<Longrightarrow> \<exists>t. f s = snd (check t)"
begin

lemma op_recorded:
  assumes "f \<in> ops"
  shows "check (f s) = (recorded (f s), f s)"
proof -
  obtain t where "f s = snd (check t)" using op_checks [OF assms] by blast
  then show ?thesis using check_again [of t] check_records [of t] by (metis prod.collapse)
qed

lemma ops_recorded:
  assumes "fs \<noteq> []" and "set fs \<subseteq> ops"
  shows "check (fold (\<lambda>f. f) fs s) = (recorded (fold (\<lambda>f. f) fs s), fold (\<lambda>f. f) fs s)"
  using assms op_recorded by (cases fs rule: rev_cases) auto

end

lemma service_op_checks:
  "f \<in> {service_start os, service_stop os, service_restart os, service_pause os} \<Longrightarrow>
     \<exists>t. f s = snd (service_check os t)"
  unfolding insert_iff empty_iff
  by (elim disjE FalseE) (simp only: service_start_def service_stop_def service_restart_def service_pause_def; blast)+

interpretation windows_service:
  checked_service "service_check os" ds_state "{service_start os, service_stop os, service_restart os, service_pause os}"
  by unfold_locales (simp add: service_check_def Let_def, simp add: service_check_def Let_def, rule service_op_checks)

subsection \<open>The presenter\<close>

record 'w presenter =
  pr_service :: "'w desktop_service"
  pr_state :: service_state
  pr_file :: string

definition presenter_start :: "'w \<Rightarrow> 'w presenter \<times> event list" where
  "presenter_start w =
     (\<lparr>pr_service = service_new w, pr_state = Unknown, pr_file = ''hbbs.out''\<rparr>, [ViewRenderServiceState Unknown])"

definition on_service :: "('w desktop_service \<Rightarrow> 'w desktop_service) \<Rightarrow> 'w presenter \<Rightarrow> 'w presenter" where
  "on_service f p = p\<lparr>pr_service := f (pr_service p)\<rparr>"

text \<open>One event received: the new presenter and what it sends to the view, in order.\<close>

fun presenter_event :: "'w windows \<Rightarrow> event \<Rightarrow> 'w presenter \<Rightarrow> 'w presenter \<times> event list" where
  "presenter_event os BrowserInit p = (p, [BrowserUpdate ''file'' (pr_file p)])"
| "presenter_event os (BrowserAction action) p =
     (if action = ''restart'' then (on_service (service_restart os) p, []) else (p, []))"
| "presenter_event os (FileChange path) p =
     (if path = pr_file p then (p, [BrowserUpdate ''file'' (pr_file p)]) else (p, []))"
| "presenter_event os (ViewAction action) p =
     (if action = ''start'' then (on_service (service_start os) p, [])
      else if action = ''stop'' then (on_service (service_stop os) p, [])
      else if action = ''restart'' then (on_service (service_restart os) p, [])
      else if action = ''pause'' then (on_service (service_pause os) p, [])
      else if action = ''exit'' then (p, [ViewRenderAppExit])
      else (p\<lparr>pr_file := action\<rparr>, [BrowserUpdate ''file'' action]))"
| "presenter_event os _ p = (p, [])"

text \<open>The check of every second.\<close>

definition presenter_check :: "'w windows \<Rightarrow> 'w presenter \<Rightarrow> 'w presenter \<times> event list" where
  "presenter_check os p =
     (case service_check os (pr_service p) of
        (st, svc) \<Rightarrow>
          if st \<noteq> pr_state p
          then (p\<lparr>pr_service := svc, pr_state := st\<rparr>, [ViewRenderServiceState st])
          else (p\<lparr>pr_service := svc\<rparr>, []))"

subsection \<open>The view\<close>

text \<open>
  \<open>vw_title\<close> is the text kept, \<open>vw_caption\<close> what the window shows, and \<open>vw_span\<close> the time of the current blink in microseconds.
\<close>

record view =
  vw_enabled :: "string \<Rightarrow> bool"
  vw_selected :: "string \<Rightarrow> bool"
  vw_title :: string
  vw_caption :: string
  vw_span :: nat
  vw_visible :: bool
  vw_minimized :: bool
  vw_blink :: bool
  vw_emitted :: "(string \<times> string) list"
  vw_exited :: bool

definition product :: string where "product = ''RustDesk Server''"

definition view_start :: view where
  "view_start =
     \<lparr>vw_enabled = \<lambda>_. True, vw_selected = \<lambda>_. False, vw_title = [], vw_caption = product, vw_span = 0,
      vw_visible = True, vw_minimized = False, vw_blink = False, vw_emitted = [],
      vw_exited = False\<rparr>"

definition log_files :: "string list" where
  "log_files = [''hbbs.out'', ''hbbs.err'', ''hbbr.out'', ''hbbr.err'', ''.env'']"

definition enable :: "bool \<Rightarrow> bool \<Rightarrow> bool \<Rightarrow> view \<Rightarrow> view" where
  "enable start stop restart v =
     v\<lparr>vw_enabled := (vw_enabled v)(''start'' := start, ''stop'' := stop, ''restart'' := restart)\<rparr>"

definition render_state :: "service_state \<Rightarrow> view \<Rightarrow> view" where
  "render_state st v =
     (let title = product @ '' '' @ show_state st;
          v' = v\<lparr>vw_title := title, vw_caption := title\<rparr>
      in case st of
           Started \<Rightarrow> (enable False True True v')\<lparr>vw_blink := False\<rparr>
         | Stopped \<Rightarrow> (enable True False False v')\<lparr>vw_blink := True\<rparr>
         | _ \<Rightarrow> (enable False False False v')\<lparr>vw_blink := True\<rparr>)"

fun view_event :: "event \<Rightarrow> view \<Rightarrow> view" where
  "view_event (BrowserUpdate action data) v =
     (if action = ''file'' \<and> data \<in> set log_files
      then v\<lparr>vw_selected := (\<lambda>f. if f \<in> set log_files then f = data else vw_selected v f),
             vw_emitted := vw_emitted v @ [(action, data)]\<rparr>
      else v)"
| "view_event ViewRenderAppExit v = v\<lparr>vw_exited := True\<rparr>"
| "view_event (ViewRenderServiceState st) v = render_state st v"
| "view_event _ v = v"

text \<open>The menus: what a click sends is the item's first name.\<close>

datatype menu_item = Item string string | Separator

definition service_menu :: "menu_item list" where
  "service_menu = [Item ''restart'' ''Restart'', Separator, Item ''start'' ''Start'', Item ''stop'' ''Stop'']"

definition logs_menu :: "menu_item list" where
  "logs_menu =
     [Item ''hbbs.out'' ''hbbs.out'', Item ''hbbs.err'' ''hbbs.err'', Separator, Item ''hbbr.out'' ''hbbr.out'',
      Item ''hbbr.err'' ''hbbr.err'']"

definition configuration_menu :: "menu_item list" where "configuration_menu = [Item ''.env'' ''.env'']"

definition tray_menu :: "menu_item list" where
  "tray_menu =
     [Item ''restart'' ''Restart'', Separator, Item ''start'' ''Start'', Item ''stop'' ''Stop'', Separator,
      Item ''exit'' ''Exit GUI'']"

fun item_ids :: "menu_item list \<Rightarrow> string list" where
  "item_ids [] = []"
| "item_ids (Item i _ # ms) = i # item_ids ms"
| "item_ids (Separator # ms) = item_ids ms"

definition menu_ids :: "string list" where
  "menu_ids = item_ids (service_menu @ logs_menu @ configuration_menu @ tray_menu)"

text \<open>The close button hides the window, a click on the tray icon hides it or brings it back.\<close>

datatype gui = Close_Requested | Tray_Click

fun gui_event :: "gui \<Rightarrow> view \<Rightarrow> view" where
  "gui_event Close_Requested v = v\<lparr>vw_minimized := True, vw_visible := False\<rparr>"
| "gui_event Tray_Click v =
     (if vw_visible v then v\<lparr>vw_visible := False\<rparr> else v\<lparr>vw_visible := True, vw_minimized := False\<rparr>)"

text \<open>
  The end of a turn of the view's loop, \<open>elapsed\<close> microseconds after the last: every 16.7 ms the windows are served, the
  loop ends when there is none, and a title that blinks changes between the two texts.
\<close>

definition view_iteration :: "nat \<Rightarrow> nat \<Rightarrow> view \<Rightarrow> view option" where
  "view_iteration windows elapsed v =
     (if 16666 < elapsed then
        (if windows = 0 then None
         else if vw_blink v then
           (if 1000000 < vw_span v then Some (v\<lparr>vw_span := 0, vw_caption := vw_title v\<rparr>)
            else (let v' = v\<lparr>vw_span := vw_span v + elapsed\<rparr>
                  in Some (if 500000 < vw_span v' then v'\<lparr>vw_caption := product\<rparr> else v')))
         else Some v)
      else Some v)"

subsection \<open>The watcher\<close>

text \<open>
  What the file system reports: an error, or the names of the files that changed (none for a path without a name, or
  one that is not UTF-8). An error ends the watch, and a new one begins a second later.
\<close>

datatype notice = Watch_Error | Changed "string option list"

definition file_change :: "string option \<Rightarrow> event list" where
  "file_change p = (let path = (case p of Some name \<Rightarrow> name | None \<Rightarrow> []) in if path \<noteq> [] then [FileChange path] else [])"

fun watch :: "notice list \<Rightarrow> event list" where
  "watch [] = []"
| "watch (Watch_Error # ns) = []"
| "watch (Changed ps # ns) = concat (map file_change ps) @ watch ns"

text \<open>One entry per attempt; one that could not be started sees nothing.\<close>

definition watcher_create :: "(bool \<times> notice list) list \<Rightarrow> event list" where
  "watcher_create attempts = concat (map (\<lambda>(started, ns). if started then watch ns else []) attempts)"

lemma watcher_sends: "ev \<in> set (watcher_create as) \<Longrightarrow> \<exists>path. ev = FileChange path \<and> path \<noteq> []"
proof -
  have "ev \<in> set (watch ns) \<Longrightarrow> \<exists>path. ev = FileChange path \<and> path \<noteq> []" for ns
    by (induction ns rule: watch.induct) (auto simp: file_change_def Let_def split: if_splits)
  then show "ev \<in> set (watcher_create as) \<Longrightarrow> \<exists>path. ev = FileChange path \<and> path \<noteq> []"
    by (auto simp: watcher_create_def split: if_splits)
qed

subsection \<open>What is shown\<close>

text \<open>What the buttons and the title have to say in a state.\<close>

definition displays :: "service_state \<Rightarrow> view \<Rightarrow> bool" where
  "displays st v \<longleftrightarrow>
     vw_title v = product @ '' '' @ show_state st \<and> (vw_enabled v ''start'' \<longleftrightarrow> st = Stopped) \<and>
     (vw_enabled v ''stop'' \<longleftrightarrow> st = Started) \<and> (vw_enabled v ''restart'' \<longleftrightarrow> st = Started) \<and>
     (vw_blink v \<longleftrightarrow> st \<noteq> Started) \<and>
     (vw_caption v = vw_title v \<or> st \<noteq> Started \<and> vw_caption v = product)"

lemma render_displays: "displays st (render_state st v)"
  by (cases st) (simp_all add: displays_def render_state_def enable_def Let_def)

lemma view_event_keeps: "\<forall>st. ev \<noteq> ViewRenderServiceState st \<Longrightarrow> displays st v \<Longrightarrow> displays st (view_event ev v)"
  by (cases ev) (auto simp: displays_def)

lemma gui_event_keeps [simp]:
  "displays st (gui_event g v) = displays st v" "vw_exited (gui_event g v) = vw_exited v"
  "vw_emitted (gui_event g v) = vw_emitted v" "vw_selected (gui_event g v) = vw_selected v"
  by (cases g; simp add: displays_def)+

lemma view_iteration_keeps:
  assumes "view_iteration n t v = Some v'"
  shows "displays st v \<Longrightarrow> displays st v'" and "vw_exited v' = vw_exited v"
    and "vw_emitted v' = vw_emitted v" and "vw_selected v' = vw_selected v"
  using assms by (auto simp: view_iteration_def displays_def Let_def split: if_splits)

lemma menu_ids_set:
  "set menu_ids = {''restart'', ''start'', ''stop'', ''exit''} \<union> set log_files"
  by (auto simp: menu_ids_def service_menu_def logs_menu_def configuration_menu_def tray_menu_def log_files_def)

end
