(* ===== verification/Desktop_Channels.thy ===== *)
theory Desktop_Channels
  imports Desktop
begin

text \<open>
  The three tasks of the tray program (\<open>ui/src/main.rs\<close>): the view, the presenter and the watcher of the log
  directory, joined by two bounded channels. A send waits while its channel is full. What a task has
  still to send is kept with it; it receives nothing in the meantime.
\<close>

record 'w ui =
  ui_presenter :: "'w presenter"
  ui_view :: view
  ui_presenter_out :: "event list"
  ui_view_out :: "event list"
  ui_to_presenter :: "event list"
  ui_to_view :: "event list"

text \<open>What the callbacks of the view send: the names of menu items, and what the page asks for.\<close>

fun from_user :: "event \<Rightarrow> bool" where
  "from_user (ViewAction i) = (i \<in> set menu_ids)"
| "from_user (BrowserAction a) = (a = ''restart'')"
| "from_user BrowserInit = True"
| "from_user ViewInit = True"
| "from_user _ = False"

definition ui_start :: "'w \<Rightarrow> 'w ui" where
  "ui_start w =
     \<lparr>ui_presenter = fst (presenter_start w), ui_view = view_start, ui_presenter_out = snd (presenter_start w),
      ui_view_out = [], ui_to_presenter = [], ui_to_view = []\<rparr>"

text \<open>
  The steps of the three tasks, until the view ends the process; a change of a file is reported when
  the file has a name (\<open>watch\<close>). The one window is hidden and never closed, so the view's loop finds it in each turn.
\<close>

definition running :: "'w ui \<Rightarrow> bool" where
  "running u \<longleftrightarrow> \<not> vw_exited (ui_view u)"

inductive ui_step :: "'w windows \<Rightarrow> nat \<Rightarrow> 'w ui \<Rightarrow> 'w ui \<Rightarrow> bool" for os :: "'w windows" and cap :: nat where
  User: "running u \<Longrightarrow> ui_view_out u = [] \<Longrightarrow> from_user ev \<Longrightarrow> ui_step os cap u (u\<lparr>ui_view_out := [ev]\<rparr>)"
| View_Send: "running u \<Longrightarrow> ui_view_out u = ev # evs \<Longrightarrow> length (ui_to_presenter u) < cap \<Longrightarrow>
    ui_step os cap u (u\<lparr>ui_view_out := evs, ui_to_presenter := ui_to_presenter u @ [ev]\<rparr>)"
| View_Recv: "running u \<Longrightarrow> ui_view_out u = [] \<Longrightarrow> ui_to_view u = ev # evs \<Longrightarrow>
    ui_step os cap u (u\<lparr>ui_view := view_event ev (ui_view u), ui_to_view := evs\<rparr>)"
| Gui: "running u \<Longrightarrow> ui_view_out u = [] \<Longrightarrow> ui_step os cap u (u\<lparr>ui_view := gui_event g (ui_view u)\<rparr>)"
| Tick: "running u \<Longrightarrow> ui_view_out u = [] \<Longrightarrow> view_iteration (Suc n) elapsed (ui_view u) = Some v \<Longrightarrow>
    ui_step os cap u (u\<lparr>ui_view := v\<rparr>)"
| Watch: "running u \<Longrightarrow> path \<noteq> [] \<Longrightarrow> length (ui_to_presenter u) < cap \<Longrightarrow>
    ui_step os cap u (u\<lparr>ui_to_presenter := ui_to_presenter u @ [FileChange path]\<rparr>)"
| Presenter_Recv: "running u \<Longrightarrow> ui_presenter_out u = [] \<Longrightarrow> ui_to_presenter u = ev # evs \<Longrightarrow>
    presenter_event os ev (ui_presenter u) = (p, out) \<Longrightarrow>
    ui_step os cap u (u\<lparr>ui_presenter := p, ui_presenter_out := out, ui_to_presenter := evs\<rparr>)"
| Presenter_Check: "running u \<Longrightarrow> ui_presenter_out u = [] \<Longrightarrow> presenter_check os (ui_presenter u) = (p, out) \<Longrightarrow>
    ui_step os cap u (u\<lparr>ui_presenter := p, ui_presenter_out := out\<rparr>)"
| Presenter_Send: "running u \<Longrightarrow> ui_presenter_out u = ev # evs \<Longrightarrow> length (ui_to_view u) < cap \<Longrightarrow>
    ui_step os cap u (u\<lparr>ui_presenter_out := evs, ui_to_view := ui_to_view u @ [ev]\<rparr>)"

text \<open>Between two steps the machine may change by itself.\<close>

definition set_world :: "'w \<Rightarrow> 'w ui \<Rightarrow> 'w ui" where
  "set_world w u =
     u\<lparr>ui_presenter := on_service (\<lambda>svc. svc\<lparr>ds_world := w\<rparr>) (ui_presenter u)\<rparr>"

inductive ui_reaches :: "'w windows \<Rightarrow> nat \<Rightarrow> 'w ui \<Rightarrow> 'w ui \<Rightarrow> bool"
  for os :: "'w windows" and cap :: nat and u0 :: "'w ui" where
  Start: "ui_reaches os cap u0 u0"
| Step: "ui_reaches os cap u0 u \<Longrightarrow> ui_step os cap u u' \<Longrightarrow> ui_reaches os cap u0 u'"
| Outside: "ui_reaches os cap u0 u \<Longrightarrow> ui_reaches os cap u0 (set_world w u)"

inductive_cases ui_stepE: "ui_step os cap u u'"

subsection \<open>The view follows the presenter\<close>

text \<open>What of one kind is on its way to the view, oldest first.\<close>

definition on_the_way :: "(event \<Rightarrow> 'a option) \<Rightarrow> 'w ui \<Rightarrow> 'a list" where
  "on_the_way f u = List.map_filter f (ui_to_view u @ ui_presenter_out u)"

definition follows :: "(event \<Rightarrow> 'a option) \<Rightarrow> ('w presenter \<Rightarrow> 'a) \<Rightarrow> ('a \<Rightarrow> view \<Rightarrow> bool) \<Rightarrow> 'w ui \<Rightarrow> bool" where
  "follows f cur disp u \<longleftrightarrow>
     (if on_the_way f u = [] then disp (cur (ui_presenter u)) (ui_view u)
      else last (on_the_way f u) = cur (ui_presenter u))"

lemma map_filter_simps [simp]:
  "List.map_filter f [] = []"
  "List.map_filter f (x # xs) = (case f x of None \<Rightarrow> List.map_filter f xs | Some y \<Rightarrow> y # List.map_filter f xs)"
  "List.map_filter f (xs @ ys) = List.map_filter f xs @ List.map_filter f ys"
  by (simp_all add: List.map_filter_def split: option.split)

text \<open>The presenter sent its value at last, or neither sent nor changed it.\<close>

definition announced :: "(event \<Rightarrow> 'a option) \<Rightarrow> ('p \<Rightarrow> 'a) \<Rightarrow> 'p \<Rightarrow> 'p \<times> event list \<Rightarrow> bool" where
  "announced f cur p r \<longleftrightarrow>
     (if List.map_filter f (snd r) = [] then cur (fst r) = cur p else last (List.map_filter f (snd r)) = cur (fst r))"

text \<open>
  The contract of a value that the presenter holds and the view displays: every change is announced, what arrives is
  displayed, and nothing else disturbs the display.
\<close>

locale announced_value =
  fixes f :: "event \<Rightarrow> 'a option" and cur :: "'w presenter \<Rightarrow> 'a" and disp :: "'a \<Rightarrow> view \<Rightarrow> bool"
  assumes event_announced: "announced f cur p (presenter_event os ev p)"
    and check_announced: "announced f cur p (presenter_check os p)"
    and world_apart: "cur (on_service h p) = cur p"
    and arrives: "f ev = Some a \<Longrightarrow> disp a (view_event ev v)"
    and apart: "f ev = None \<Longrightarrow> disp a v \<Longrightarrow> disp a (view_event ev v)"
    and gui_apart: "disp a (gui_event g v) = disp a v"
    and iteration_apart: "view_iteration n t v = Some v' \<Longrightarrow> disp a v \<Longrightarrow> disp a v'"
begin

lemma step_follows: "ui_step os cap u u' \<Longrightarrow> follows f cur disp u \<Longrightarrow> follows f cur disp u'"
proof (induction rule: ui_step.induct)
  case (View_Recv u ev evs)
  then show ?case
    using arrives [of ev] apart [of ev] by (cases "f ev") (auto simp: follows_def on_the_way_def split: if_splits)
next
  case (Presenter_Recv u ev evs p out)
  with event_announced [of "ui_presenter u" os ev] show ?case
    by (auto simp: follows_def on_the_way_def announced_def split: if_splits)
next
  case (Presenter_Check u p out)
  with check_announced [of "ui_presenter u" os] show ?case
    by (auto simp: follows_def on_the_way_def announced_def split: if_splits)
next
  case (Tick u n elapsed v)
  with iteration_apart [OF Tick(3)] show ?case by (auto simp: follows_def on_the_way_def)
qed (auto simp: follows_def on_the_way_def gui_apart split: option.splits if_splits)

lemma reaches_follows: "ui_reaches os cap u0 u \<Longrightarrow> follows f cur disp u0 \<Longrightarrow> follows f cur disp u"
proof (induction rule: ui_reaches.induct)
  case (Outside u w)
  then have "follows f cur disp u" by blast
  then show ?case by (auto simp: follows_def on_the_way_def set_world_def world_apart split: if_splits)
qed (auto intro: step_follows)

end

fun render_of :: "event \<Rightarrow> service_state option" where
  "render_of (ViewRenderServiceState st) = Some st"
| "render_of _ = None"

fun file_of :: "event \<Rightarrow> string option" where
  "file_of (BrowserUpdate action data) = (if action = ''file'' then Some data else None)"
| "file_of _ = None"

text \<open>Once a file has been announced, its menu entry is the one that is ticked.\<close>

definition ticks :: "string \<Rightarrow> view \<Rightarrow> bool" where
  "ticks file v \<longleftrightarrow>
     vw_emitted v = [] \<or> file \<notin> set log_files \<or> (\<forall>g \<in> set log_files. vw_selected v g \<longleftrightarrow> g = file)"

interpretation state_value: announced_value render_of pr_state displays
proof unfold_locales
  fix p :: "'w presenter" and os ev
  show "announced render_of pr_state p (presenter_event os ev p)"
    by (cases ev) (simp_all add: announced_def on_service_def)
  show "announced render_of pr_state p (presenter_check os p)"
    by (simp add: announced_def presenter_check_def split: prod.split)
next
  fix ev a v assume "render_of ev = Some a"
  then show "displays a (view_event ev v)" by (cases ev) (simp_all add: render_displays)
next
  fix ev a v assume "render_of ev = None" "displays a v"
  then show "displays a (view_event ev v)" using view_event_keeps [of ev] by (cases ev) auto
qed (auto simp: on_service_def intro: view_iteration_keeps)

interpretation file_value: announced_value file_of pr_file ticks
proof unfold_locales
  fix p :: "'w presenter" and os ev
  show "announced file_of pr_file p (presenter_event os ev p)"
    by (cases ev) (simp_all add: announced_def on_service_def)
  show "announced file_of pr_file p (presenter_check os p)"
    by (simp add: announced_def presenter_check_def split: prod.split)
next
  fix ev a v assume "file_of ev = Some a"
  then show "ticks a (view_event ev v)" by (cases ev) (auto simp: ticks_def split: if_splits)
next
  fix ev a v assume "file_of ev = None" "ticks a v"
  then show "ticks a (view_event ev v)"
    by (cases ev) (auto simp: ticks_def render_state_def enable_def Let_def split: if_splits service_state.splits)
next
  fix n t v v' a assume "view_iteration n t v = Some v'" "ticks a v"
  then show "ticks a v'" using view_iteration_keeps(3,4) by (simp add: ticks_def)
qed (auto simp: on_service_def ticks_def)

text \<open>A menu action leaves the service as a check finds it.\<close>

lemma action_checked:
  assumes "action \<in> {''start'', ''stop'', ''restart'', ''pause''}"
  shows "service_check os (pr_service (fst (presenter_event os (ViewAction action) p)))
    = (ds_state (pr_service (fst (presenter_event os (ViewAction action) p))),
       pr_service (fst (presenter_event os (ViewAction action) p)))"
proof -
  obtain f where f: "f \<in> {service_start os, service_stop os, service_restart os, service_pause os}"
    and "fst (presenter_event os (ViewAction action) p) = on_service f p"
    using assms by fastforce
  then have "pr_service (fst (presenter_event os (ViewAction action) p)) = f (pr_service p)"
    by (simp add: on_service_def)
  then show ?thesis using windows_service.op_recorded [OF f] by (simp only:)
qed

text \<open>
  C25. The window shows the service's state: in every reachable state of the tray program, once the states on their way to the view
  have arrived, the title names the state the presenter last found, the start button works exactly when the
  service is stopped, the stop and restart buttons exactly when it runs, and the title blinks exactly when it does not. And
  the check that follows a menu action finds the state that the action left.
\<close>

theorem view_shows_service:
  assumes "ui_reaches os cap (ui_start w) u" and "on_the_way render_of u = []"
    and "action \<in> {''start'', ''stop'', ''restart'', ''pause''}"
    and "p1 = fst (presenter_event os (ViewAction action) (ui_presenter u))"
  shows "displays (pr_state (ui_presenter u)) (ui_view u) \<and>
    pr_state (fst (presenter_check os p1)) = ds_state (pr_service p1) \<and>
    pr_service (fst (presenter_check os p1)) = pr_service p1"
proof -
  have "follows render_of pr_state displays (ui_start w)"
    by (simp add: follows_def on_the_way_def ui_start_def presenter_start_def)
  with state_value.reaches_follows [OF assms(1)] assms(2) have "displays (pr_state (ui_presenter u)) (ui_view u)"
    by (simp add: follows_def)
  moreover have "service_check os (pr_service p1) = (ds_state (pr_service p1), pr_service p1)"
    unfolding assms(4) by (rule action_checked [OF assms(3)])
  ultimately show ?thesis by (simp add: presenter_check_def)
qed

definition idle_windows :: "unit windows" where
  "idle_windows =
     \<lparr>os_exec = \<lambda>_ _ _ _ w. (Output (Some []), w), os_path = [], os_manager = \<lambda>_. Inr (), os_open = \<lambda>_ _. Inr (),
      os_query = \<lambda>_ _. Inr ''Running''\<rparr>"

lemma ui_trans:
  "ui_reaches os cap v w \<Longrightarrow> ui_reaches os cap u v \<Longrightarrow> ui_reaches os cap u w"
  by (induction rule: ui_reaches.induct) (auto intro: ui_reaches.Step ui_reaches.Outside)

lemma ui_step_reaches: "ui_step os cap u v \<Longrightarrow> ui_reaches os cap u v"
  by (rule ui_reaches.Step [OF ui_reaches.Start])

text \<open>The first state has been sent and drawn.\<close>

definition ui_drawn :: "'w \<Rightarrow> 'w ui" where
  "ui_drawn w = (ui_start w)\<lparr>ui_presenter_out := [], ui_view := render_state Unknown view_start\<rparr>"

lemma ui_reaches_drawn:
  assumes "0 < cap"
  shows "ui_reaches os cap (ui_start w) (ui_drawn w)"
proof -
  let ?u = "(ui_start w)\<lparr>ui_presenter_out := [], ui_to_view := [ViewRenderServiceState Unknown]\<rparr>"
  have 1: "ui_step os cap (ui_start w) ?u"
    using ui_step.Presenter_Send [of "ui_start w" "ViewRenderServiceState Unknown" "[]" cap os] assms
    by (simp add: running_def view_start_def ui_start_def presenter_start_def)
  have 2: "ui_step os cap ?u (ui_drawn w)"
    using ui_step.View_Recv [of ?u "ViewRenderServiceState Unknown" "[]" os cap]
    by (simp add: running_def view_start_def ui_drawn_def ui_start_def)
  show ?thesis by (rule ui_reaches.Step [OF ui_step_reaches [OF 1] 2])
qed

lemma view_shows_service_witness:
  "displays Unknown (ui_view (ui_drawn ())) \<and>
   pr_state (fst (presenter_check idle_windows
     (fst (presenter_event idle_windows (ViewAction ''start'') (ui_presenter (ui_drawn ())))))) = Started"
proof -
  have "on_the_way render_of (ui_drawn ()) = []" "pr_state (ui_presenter (ui_drawn ())) = Unknown"
    by (simp_all add: on_the_way_def ui_drawn_def ui_start_def presenter_start_def)
  with view_shows_service [OF ui_reaches_drawn [of 10 idle_windows "()"] _ _ refl, of "''start''"] show ?thesis
    by (simp add: on_service_def service_start_def service_check_def os_status_def idle_windows_def)
qed

text \<open>Only names from the menus reach the presenter, so the file it shows is one of the five.\<close>

definition from_menus :: "event \<Rightarrow> bool" where
  "from_menus ev \<longleftrightarrow> (\<forall>i. ev = ViewAction i \<longrightarrow> i \<in> set menu_ids)"

definition files_only :: "'w ui \<Rightarrow> bool" where
  "files_only u \<longleftrightarrow> pr_file (ui_presenter u) \<in> set log_files \<and>
     (\<forall>ev \<in> set (ui_view_out u) \<union> set (ui_to_presenter u). from_menus ev)"

lemma presenter_event_file:
  assumes "presenter_event os ev p = (p', out)" and "from_menus ev" and "pr_file p \<in> set log_files"
  shows "pr_file p' \<in> set log_files"
  using assms by (cases ev) (auto simp: from_menus_def menu_ids_set on_service_def split: if_splits)

lemma presenter_check_file: "pr_file (fst (presenter_check os p)) = pr_file p"
  by (simp add: presenter_check_def split: prod.split)

lemma ui_step_files: "ui_step os cap u u' \<Longrightarrow> files_only u \<Longrightarrow> files_only u'"
proof (induction rule: ui_step.induct)
  case (User u ev)
  then show ?case by (cases ev) (auto simp: files_only_def from_menus_def)
next
  case (Presenter_Recv u ev evs p out)
  with presenter_event_file [OF Presenter_Recv(4)] show ?case by (simp add: files_only_def)
next
  case (Presenter_Check u p out)
  with presenter_check_file [of os "ui_presenter u"] show ?case by (simp add: files_only_def)
qed (auto simp: files_only_def from_menus_def)

lemma ui_reaches_files: "ui_reaches os cap u0 u \<Longrightarrow> files_only u0 \<Longrightarrow> files_only u"
proof (induction rule: ui_reaches.induct)
  case (Outside u w)
  then have "files_only u" by blast
  then show ?case by (simp add: files_only_def set_world_def on_service_def)
qed (auto intro: ui_step_files)

text \<open>
  The menu shows which log file is open: in every reachable state the presenter's file is one of the five of the menu, and once the
  announcements on their way have arrived, and there has been one, exactly its menu entry is ticked.
\<close>

theorem menu_ticks_open_file:
  assumes "ui_reaches os cap (ui_start w) u"
  shows "pr_file (ui_presenter u) \<in> set log_files \<and>
    (on_the_way file_of u = [] \<longrightarrow> vw_emitted (ui_view u) \<noteq> [] \<longrightarrow>
      (\<forall>g \<in> set log_files. vw_selected (ui_view u) g \<longleftrightarrow> g = pr_file (ui_presenter u)))"
proof -
  have "files_only (ui_start w)" "follows file_of pr_file ticks (ui_start w)"
    by (simp_all add: files_only_def follows_def on_the_way_def ui_start_def presenter_start_def log_files_def ticks_def
        view_start_def)
  with ui_reaches_files [OF assms] file_value.reaches_follows [OF assms] show ?thesis
    by (auto simp: files_only_def follows_def ticks_def)
qed

text \<open>A click on \<open>.env\<close> that has made its way to the view.\<close>

lemma menu_ticks_open_file_witness:
  "\<exists>u. ui_reaches idle_windows 10 (ui_start ()) u \<and> vw_selected (ui_view u) ''.env'' \<and> \<not> vw_selected (ui_view u) ''hbbs.out''"
proof -
  let ?d = "ui_drawn ()" and ?a = "ViewAction ''.env''" and ?b = "BrowserUpdate ''file'' ''.env''"
  define p where "p = (ui_presenter ?d)\<lparr>pr_file := ''.env''\<rparr>"
  define u1 where "u1 = ?d\<lparr>ui_view_out := [?a]\<rparr>"
  define u2 where "u2 = u1\<lparr>ui_view_out := [], ui_to_presenter := ui_to_presenter u1 @ [?a]\<rparr>"
  define u3 where "u3 = u2\<lparr>ui_presenter := p, ui_presenter_out := [?b], ui_to_presenter := []\<rparr>"
  define u4 where "u4 = u3\<lparr>ui_presenter_out := [], ui_to_view := ui_to_view u3 @ [?b]\<rparr>"
  define u5 where "u5 = u4\<lparr>ui_view := view_event ?b (ui_view u4), ui_to_view := []\<rparr>"
  note defs = u1_def u2_def u3_def u4_def u5_def p_def
  have d: "ui_to_presenter ?d = []" "ui_presenter_out ?d = []" "ui_to_view ?d = []" "ui_view_out ?d = []" "running ?d"
    by (simp_all add: ui_drawn_def ui_start_def running_def render_state_def enable_def view_start_def Let_def)
  have "ui_step idle_windows 10 ?d u1" unfolding u1_def
    by (rule ui_step.User) (use d in \<open>simp_all add: menu_ids_set log_files_def\<close>)
  moreover have "ui_step idle_windows 10 u1 u2" unfolding u2_def
    by (rule ui_step.View_Send) (use d in \<open>simp_all add: defs running_def\<close>)
  moreover have "ui_step idle_windows 10 u2 u3" unfolding u3_def
    by (rule ui_step.Presenter_Recv [where ev = ?a and evs = "[]"]) (use d in \<open>simp_all add: defs running_def\<close>)
  moreover have "ui_step idle_windows 10 u3 u4" unfolding u4_def
    by (rule ui_step.Presenter_Send) (use d in \<open>simp_all add: defs running_def\<close>)
  moreover have "ui_step idle_windows 10 u4 u5" unfolding u5_def
    by (rule ui_step.View_Recv) (use d in \<open>simp_all add: defs running_def\<close>)
  ultimately have r: "ui_reaches idle_windows 10 (ui_start ()) u5"
    using ui_reaches_drawn [of 10 idle_windows "()"] ui_reaches.Step by (metis zero_less_numeral)
  have "on_the_way file_of u5 = []" "vw_emitted (ui_view u5) \<noteq> []" "pr_file (ui_presenter u5) = ''.env''"
    using d by (simp_all add: defs on_the_way_def log_files_def)
  with menu_ticks_open_file [OF r] r show ?thesis by (auto simp: log_files_def)
qed

subsection \<open>Both sides wait for each other\<close>

definition stuck :: "nat \<Rightarrow> 'w ui \<Rightarrow> bool" where
  "stuck cap u \<longleftrightarrow>
     ui_view_out u \<noteq> [] \<and> ui_presenter_out u \<noteq> [] \<and> length (ui_to_presenter u) = cap \<and> length (ui_to_view u) = cap"

lemma stuck_no_step: "stuck cap u \<Longrightarrow> \<not> ui_step os cap u u'"
  by (auto simp: stuck_def elim: ui_stepE)

text \<open>A change of the shown file puts one update on the way to the view.\<close>

definition update :: event where "update = BrowserUpdate ''file'' ''hbbs.out''"

lemma file_change_queued:
  assumes "0 < cap" and "running u" and "ui_to_presenter u = []" and "ui_presenter_out u = []" and "pr_file (ui_presenter u) = ''hbbs.out''"
  shows "ui_reaches os cap u (u\<lparr>ui_presenter_out := [update]\<rparr>)"
proof -
  let ?v = "u\<lparr>ui_to_presenter := [FileChange ''hbbs.out'']\<rparr>"
  have 1: "ui_step os cap u ?v" using ui_step.Watch [where path = "''hbbs.out''" and u = u and cap = cap and os = os] assms by (simp add: running_def)
  have 2: "ui_step os cap ?v (u\<lparr>ui_presenter_out := [update]\<rparr>)"
    using ui_step.Presenter_Recv [of ?v "FileChange ''hbbs.out''" "[]" os "ui_presenter u" "[update]" cap] assms
    by (cases u) (simp add: running_def update_def)
  show ?thesis by (rule ui_reaches.Step [OF ui_step_reaches [OF 1] 2])
qed

lemma view_queue_fills:
  assumes "0 < cap" and "running u" and "ui_to_presenter u = []" and "ui_presenter_out u = []" and "pr_file (ui_presenter u) = ''hbbs.out''"
    and "length (ui_to_view u) + n \<le> cap"
  shows "ui_reaches os cap u (u\<lparr>ui_to_view := ui_to_view u @ replicate n update\<rparr>)"
  using assms(6)
proof (induction n)
  case (Suc n)
  let ?v = "u\<lparr>ui_to_view := ui_to_view u @ replicate n update\<rparr>"
  have 1: "ui_reaches os cap ?v (?v\<lparr>ui_presenter_out := [update]\<rparr>)"
    by (rule file_change_queued) (use assms in \<open>simp_all add: running_def\<close>)
  have 2: "ui_step os cap (?v\<lparr>ui_presenter_out := [update]\<rparr>)
      (u\<lparr>ui_to_view := ui_to_view u @ replicate (Suc n) update\<rparr>)"
    using ui_step.Presenter_Send [of "?v\<lparr>ui_presenter_out := [update]\<rparr>" update "[]" cap os] Suc(2) assms(2,4)
    by (cases u) (simp add: running_def replicate_append_same)
  from ui_reaches.Step [OF ui_trans [OF 1] 2] Suc show ?case by simp
qed (simp add: ui_reaches.Start)

lemma presenter_queue_fills:
  "n \<le> cap \<Longrightarrow> running u \<Longrightarrow> ui_to_presenter u = [] \<Longrightarrow>
     ui_reaches os cap u (u\<lparr>ui_to_presenter := replicate n (FileChange ''hbbs.out'')\<rparr>)"
proof (induction n)
  case (Suc n)
  let ?v = "u\<lparr>ui_to_presenter := replicate n (FileChange ''hbbs.out'')\<rparr>"
  have "ui_step os cap ?v (u\<lparr>ui_to_presenter := replicate (Suc n) (FileChange ''hbbs.out'')\<rparr>)"
    using ui_step.Watch [where path = "''hbbs.out''" and u = ?v and cap = cap and os = os] Suc(2,3) by (simp add: running_def replicate_append_same)
  with Suc show ?case by (auto intro: ui_reaches.Step)
qed (metis replicate_0 ui.surjective ui.update_convs(5) ui_reaches.Start)

text \<open>
  C40. The tray program can stop for good: with channels of any size, a burst of changes to the log file fills both channels, and when the
  user then picks a menu item, the view waits for room to the presenter and the presenter waits
  for room to the view, and no task has a step left.
\<close>

theorem channels_can_deadlock:
  assumes "0 < cap"
  shows "\<exists>u. ui_reaches os cap (ui_start w) u \<and> ui_view_out u = [ViewAction ''stop''] \<and> (\<forall>u'. \<not> ui_step os cap u u')"
proof -
  define u1 where "u1 = (ui_drawn w)\<lparr>ui_to_view := replicate cap update\<rparr>"
  define u2 where "u2 = u1\<lparr>ui_presenter_out := [update]\<rparr>"
  define u3 where "u3 = u2\<lparr>ui_to_presenter := replicate cap (FileChange ''hbbs.out'')\<rparr>"
  define u4 where "u4 = u3\<lparr>ui_view_out := [ViewAction ''stop'']\<rparr>"
  have run: "running (ui_drawn w)"
    by (simp add: running_def ui_drawn_def ui_start_def render_state_def enable_def view_start_def Let_def)
  have idle: "ui_to_presenter (ui_drawn w) = []" "ui_presenter_out (ui_drawn w) = []" "ui_to_view (ui_drawn w) = []"
    "ui_view_out (ui_drawn w) = []" "pr_file (ui_presenter (ui_drawn w)) = ''hbbs.out''"
    by (simp_all add: ui_drawn_def ui_start_def presenter_start_def)
  have "ui_reaches os cap (ui_drawn w) u1"
    using view_queue_fills [OF assms run idle(1,2,5), of cap os] idle(3) by (simp add: u1_def)
  moreover have "ui_reaches os cap u1 u2"
    unfolding u2_def by (rule file_change_queued) (use assms idle run in \<open>simp_all add: running_def u1_def\<close>)
  moreover have "ui_reaches os cap u2 u3"
    unfolding u3_def by (rule presenter_queue_fills) (use idle run in \<open>simp_all add: running_def u2_def u1_def\<close>)
  moreover have "ui_step os cap u3 u4"
    unfolding u4_def by (rule ui_step.User) (use idle run in \<open>simp_all add: running_def u3_def u2_def u1_def menu_ids_set\<close>)
  ultimately have "ui_reaches os cap (ui_start w) u4"
    using ui_reaches_drawn [OF assms, of os w] ui_trans ui_step_reaches by metis
  moreover have "stuck cap u4" by (simp add: stuck_def u4_def u3_def u2_def u1_def)
  ultimately show ?thesis using stuck_no_step by (intro exI [of _ u4]) (auto simp: u4_def)
qed

lemma channels_can_deadlock_witness:
  "\<exists>u. ui_reaches idle_windows 10 (ui_start ()) u \<and> (\<forall>u'. \<not> ui_step idle_windows 10 u u')"
  using channels_can_deadlock [of 10 idle_windows "()"] by auto

end
