(* ===== verification/Desktop_Turns.thy ===== *)
theory Desktop_Turns
  imports Desktop_Channels
begin

text \<open>
  The loops of the tray program turn by turn: the view (\<open>ui/src/adapter/view/desktop.rs\<close>) and the presenter
  (\<open>ui/src/usecase/presenter.rs\<close>) take at most \<open>BUFFER - 1\<close> events from their channel and then look at the clock. A turn is a run of
  the single steps of \<open>Desktop_Channels\<close>, so what holds of every reachable state there holds between any two turns.
\<close>

subsection \<open>The view\<close>

text \<open>\<open>for _ in 1..buffer\<close>, until the channel is empty or the process exits.\<close>

fun view_drain :: "nat \<Rightarrow> event list \<Rightarrow> view \<Rightarrow> view \<times> event list" where
  "view_drain 0 queue v = (v, queue)"
| "view_drain (Suc k) [] v = (v, [])"
| "view_drain (Suc k) (ev # queue) v =
     (let v' = view_event ev v in if vw_exited v' then (v', queue) else view_drain k queue v')"

definition view_turn :: "nat \<Rightarrow> nat \<Rightarrow> nat \<Rightarrow> event list \<Rightarrow> view \<Rightarrow> (view \<times> event list) option" where
  "view_turn buffer windows elapsed queue v =
     (case view_drain (buffer - 1) queue v of (v', queue') \<Rightarrow>
        if vw_exited v' then Some (v', queue') else map_option (\<lambda>v''. (v'', queue')) (view_iteration windows elapsed v'))"

lemma view_drain_steps:
  assumes "running u" and "ui_view_out u = []" and "view_drain k (ui_to_view u) (ui_view u) = (v, queue)"
  shows "(ui_step os cap)\<^sup>*\<^sup>* u (u\<lparr>ui_view := v, ui_to_view := queue\<rparr>)"
  using assms
proof (induction k arbitrary: u)
  case (Suc k)
  show ?case
  proof (cases "ui_to_view u")
    case Nil
    with Suc.prems(3) have "u\<lparr>ui_view := v, ui_to_view := queue\<rparr> = u" by simp
    then show ?thesis by simp
  next
    case (Cons ev evs)
    let ?v = "view_event ev (ui_view u)" and ?u = "u\<lparr>ui_view := view_event ev (ui_view u), ui_to_view := evs\<rparr>"
    have step: "ui_step os cap u ?u" by (rule ui_step.View_Recv [OF Suc.prems(1,2) Cons])
    have "(ui_step os cap)\<^sup>*\<^sup>* ?u (u\<lparr>ui_view := v, ui_to_view := queue\<rparr>)"
    proof (cases "vw_exited ?v")
      case True
      then show ?thesis using Suc.prems(3) Cons by simp
    next
      case False
      then show ?thesis using Suc.IH [of ?u] Suc.prems Cons by (simp add: running_def)
    qed
    with step show ?thesis by (rule converse_rtranclp_into_rtranclp)
  qed
next
  case 0
  then show ?case by (cases u) simp
qed

text \<open>A turn is a run of steps: receive, receive, \<open>\<dots>\<close>, tick.\<close>

theorem view_turn_steps:
  assumes "running u" and "ui_view_out u = []"
    and "view_turn cap (Suc n) elapsed (ui_to_view u) (ui_view u) = Some (v, queue)"
  shows "(ui_step os cap)\<^sup>*\<^sup>* u (u\<lparr>ui_view := v, ui_to_view := queue\<rparr>)"
proof -
  obtain v1 queue1 where drain: "view_drain (cap - 1) (ui_to_view u) (ui_view u) = (v1, queue1)" by fastforce
  let ?u = "u\<lparr>ui_view := v1, ui_to_view := queue1\<rparr>"
  have run: "(ui_step os cap)\<^sup>*\<^sup>* u ?u" by (rule view_drain_steps [OF assms(1,2) drain])
  show ?thesis
  proof (cases "vw_exited v1")
    case True
    with assms(3) drain run show ?thesis by (simp add: view_turn_def)
  next
    case False
    with assms(3) drain have it: "view_iteration (Suc n) elapsed v1 = Some v" and "queue = queue1"
      by (auto simp: view_turn_def)
    have "ui_step os cap ?u (?u\<lparr>ui_view := v\<rparr>)"
      by (rule ui_step.Tick) (use assms(2) False it in \<open>simp_all add: running_def\<close>)
    moreover have "?u\<lparr>ui_view := v\<rparr> = u\<lparr>ui_view := v, ui_to_view := queue\<rparr>" using \<open>queue = queue1\<close> by (cases u) simp
    ultimately show ?thesis using run by (metis rtranclp.rtrancl_into_rtrancl)
  qed
qed

lemma view_turn_steps_witness:
  "\<exists>u. (ui_step idle_windows 10)\<^sup>*\<^sup>* (ui_drawn ()) u \<and> ui_to_view u = []"
proof -
  obtain v queue where turn: "view_turn 10 1 0 (ui_to_view (ui_drawn ())) (ui_view (ui_drawn ())) = Some (v, queue)" and "queue = []"
    by (simp add: view_turn_def ui_drawn_def view_iteration_def running_def ui_start_def render_state_def enable_def
        view_start_def Let_def eval_nat_numeral)
  with view_turn_steps [of "ui_drawn ()" 10 0 0 v queue idle_windows] show ?thesis
    by (intro exI [of _ "(ui_drawn ())\<lparr>ui_view := v, ui_to_view := queue\<rparr>"])
      (simp add: ui_drawn_def running_def ui_start_def render_state_def enable_def view_start_def Let_def)
qed

text \<open>A turn leaves what does not fit into it, and nothing else; with a buffer of one nothing would ever be taken.\<close>

lemma view_drain_rest:
  "view_drain k queue v = (v', rest) \<Longrightarrow> \<not> vw_exited v' \<Longrightarrow> rest = drop k queue \<and> v' = fold view_event (take k queue) v"
  by (induction k queue v rule: view_drain.induct) (auto simp: Let_def split: if_splits)

lemma view_turn_rest:
  assumes "view_turn buffer windows elapsed queue v = Some (v', rest)" and "\<not> vw_exited v'"
  shows "rest = drop (buffer - 1) queue"
proof -
  obtain v1 queue1 where drain: "view_drain (buffer - 1) queue v = (v1, queue1)" by fastforce
  with assms have "rest = queue1" "\<not> vw_exited v1"
    by (auto simp: view_turn_def view_iteration_keeps(2) split: if_splits)
  with view_drain_rest [OF drain] show ?thesis by simp
qed

subsection \<open>The presenter\<close>

text \<open>What is sent, in order, beside the events that are left.\<close>

fun presenter_drain ::
  "'w windows \<Rightarrow> nat \<Rightarrow> event list \<Rightarrow> 'w presenter \<Rightarrow> 'w presenter \<times> event list \<times> event list" where
  "presenter_drain os 0 queue p = (p, [], queue)"
| "presenter_drain os (Suc k) [] p = (p, [], [])"
| "presenter_drain os (Suc k) (ev # queue) p =
     (let (p1, out1) = presenter_event os ev p; (p2, out2, rest) = presenter_drain os k queue p1
      in (p2, out1 @ out2, rest))"

definition presenter_turn ::
  "'w windows \<Rightarrow> nat \<Rightarrow> nat \<Rightarrow> event list \<Rightarrow> 'w presenter \<Rightarrow> 'w presenter \<times> event list \<times> event list" where
  "presenter_turn os buffer elapsed_ms queue p =
     (let (p1, out1, rest) = presenter_drain os (buffer - 1) queue p
      in if 999 < elapsed_ms then (let (p2, out2) = presenter_check os p1 in (p2, out1 @ out2, rest))
         else (p1, out1, rest))"

text \<open>With room for them, what the presenter has to send gets into the channel.\<close>

lemma presenter_sends:
  assumes "running u" and "length (ui_to_view u @ ui_presenter_out u) \<le> cap"
  shows "(ui_step os cap)\<^sup>*\<^sup>* u (u\<lparr>ui_presenter_out := [], ui_to_view := ui_to_view u @ ui_presenter_out u\<rparr>)"
  using assms
proof (induction "ui_presenter_out u" arbitrary: u)
  case Nil
  from Nil(1) have "u\<lparr>ui_presenter_out := [], ui_to_view := ui_to_view u @ ui_presenter_out u\<rparr> = u" by (cases u) simp
  then show ?case by simp
next
  case (Cons ev evs)
  let ?u = "u\<lparr>ui_presenter_out := evs, ui_to_view := ui_to_view u @ [ev]\<rparr>"
  have "ui_step os cap u ?u"
    by (rule ui_step.Presenter_Send) (use Cons.prems Cons.hyps(2) [symmetric] in simp_all)
  moreover have "(ui_step os cap)\<^sup>*\<^sup>* ?u (u\<lparr>ui_presenter_out := [], ui_to_view := ui_to_view u @ ui_presenter_out u\<rparr>)"
    using Cons.hyps(1) [of ?u] Cons.prems Cons.hyps(2) [symmetric] by (simp add: running_def)
  ultimately show ?case by (rule converse_rtranclp_into_rtranclp)
qed

lemma presenter_drain_steps:
  assumes "running u" and "ui_presenter_out u = []"
    and "presenter_drain os k (ui_to_presenter u) (ui_presenter u) = (p, out, rest)" and "length (ui_to_view u @ out) \<le> cap"
  shows "(ui_step os cap)\<^sup>*\<^sup>* u (u\<lparr>ui_presenter := p, ui_to_presenter := rest, ui_to_view := ui_to_view u @ out\<rparr>)"
  using assms
proof (induction k arbitrary: u out)
  case 0
  then show ?case by (cases u) simp
next
  case (Suc k)
  show ?case
  proof (cases "ui_to_presenter u")
    case Nil
    with Suc.prems have "u\<lparr>ui_presenter := p, ui_to_presenter := rest, ui_to_view := ui_to_view u @ out\<rparr> = u" by (cases u) simp
    then show ?thesis by simp
  next
    case (Cons ev evs)
    obtain p1 out1 where ev: "presenter_event os ev (ui_presenter u) = (p1, out1)" by fastforce
    obtain out2 where drain: "presenter_drain os k evs p1 = (p, out2, rest)" and out: "out = out1 @ out2"
      using Suc.prems(3) Cons ev by (auto split: prod.splits)
    let ?u1 = "u\<lparr>ui_presenter := p1, ui_presenter_out := out1, ui_to_presenter := evs\<rparr>"
    let ?u2 = "u\<lparr>ui_presenter := p1, ui_to_presenter := evs, ui_to_view := ui_to_view u @ out1\<rparr>"
    have "ui_step os cap u ?u1" by (rule ui_step.Presenter_Recv [OF Suc.prems(1,2) Cons ev])
    moreover have "?u1\<lparr>ui_presenter_out := [], ui_to_view := ui_to_view ?u1 @ ui_presenter_out ?u1\<rparr> = ?u2"
      using Suc.prems(2) by (cases u) simp
    then have "(ui_step os cap)\<^sup>*\<^sup>* ?u1 ?u2"
      using presenter_sends [of ?u1 cap os] Suc.prems(1,4) out by (simp add: running_def)
    moreover have "(ui_step os cap)\<^sup>*\<^sup>* ?u2 (u\<lparr>ui_presenter := p, ui_to_presenter := rest, ui_to_view := ui_to_view u @ out\<rparr>)"
      using Suc.IH [of ?u2 out2] drain out Suc.prems by (simp add: running_def)
    ultimately show ?thesis by (meson converse_rtranclp_into_rtranclp rtranclp_trans)
  qed
qed

theorem presenter_turn_steps:
  assumes "running u" and "ui_presenter_out u = []"
    and "presenter_turn os cap elapsed_ms (ui_to_presenter u) (ui_presenter u) = (p, out, rest)"
    and "length (ui_to_view u @ out) \<le> cap"
  shows "(ui_step os cap)\<^sup>*\<^sup>* u (u\<lparr>ui_presenter := p, ui_to_presenter := rest, ui_to_view := ui_to_view u @ out\<rparr>)"
proof -
  obtain p1 out1 rest1 where drain: "presenter_drain os (cap - 1) (ui_to_presenter u) (ui_presenter u) = (p1, out1, rest1)"
    by (metis prod_cases3)
  obtain p2 out2 where check: "presenter_check os p1 = (p2, out2)" by fastforce
  let ?u1 = "u\<lparr>ui_presenter := p1, ui_to_presenter := rest1, ui_to_view := ui_to_view u @ out1\<rparr>"
  let ?u2 = "?u1\<lparr>ui_presenter := p2, ui_presenter_out := out2\<rparr>" and ?u3 = "u\<lparr>ui_presenter := p, ui_to_presenter := rest, ui_to_view := ui_to_view u @ out\<rparr>"
  have out: "rest = rest1" "out = out1 @ (if 999 < elapsed_ms then out2 else [])" "p = (if 999 < elapsed_ms then p2 else p1)"
    using assms(3) drain check by (auto simp: presenter_turn_def split: if_splits)
  have run: "(ui_step os cap)\<^sup>*\<^sup>* u ?u1"
    by (rule presenter_drain_steps [OF assms(1,2) drain]) (use assms(4) out(2) in \<open>simp split: if_splits\<close>)
  show ?thesis
  proof (cases "999 < elapsed_ms")
    case True
    have "ui_step os cap ?u1 ?u2"
      by (rule ui_step.Presenter_Check) (use assms(1,2) check in \<open>simp_all add: running_def\<close>)
    moreover have "?u2\<lparr>ui_presenter_out := [], ui_to_view := ui_to_view ?u2 @ ui_presenter_out ?u2\<rparr> = ?u3"
      using assms(2) out True by (cases u) simp
    then have "(ui_step os cap)\<^sup>*\<^sup>* ?u2 ?u3"
      using presenter_sends [of ?u2 cap os] assms(1,4) out(2) True by (simp add: running_def)
    ultimately show ?thesis using run by (meson rtranclp.rtrancl_into_rtrancl rtranclp_trans)
  qed (use run out in simp)
qed

end
