(* ===== verification/Database_Test.thy ===== *)
theory Database_Test
  imports Database_Open "HOL-Library.Multiset"
begin

text \<open>
  The test of \<open>src/database.rs\<close>: 10000 insertions and 10000 lookups as tasks that run in any order, each with an \<open>unwrap\<close> that
  panics in its own task. What the tasks come to is collected and dropped, so the test passes whenever the database opens.
\<close>

datatype test_job = Insert_Job nat | Get_Job nat

definition test_jobs :: "test_job list" where
  "test_jobs = map Insert_Job [0..<10000] @ map Get_Job [0..<10000]"

text \<open>A job as it is run: whether the database answers it, and the \<open>guid\<close> it draws. The result says that it did not panic.\<close>

type_synonym job_run = "bool \<times> bytes \<times> test_job"

fun run_job :: "job_run \<Rightarrow> db \<Rightarrow> db \<times> bool" where
  "run_job (up, guid, Insert_Job i) rows =
     (case insert_peer up guid (show_nat i) [] [] [] rows of (rows', r) \<Rightarrow> (rows', case r of Inr _ \<Rightarrow> True | Inl _ \<Rightarrow> False))"
| "run_job (up, guid, Get_Job i) rows = (rows, case get_peer up rows (show_nat i) of Inr _ \<Rightarrow> True | Inl _ \<Rightarrow> False)"

fun run_jobs :: "job_run list \<Rightarrow> db \<Rightarrow> db \<times> bool list" where
  "run_jobs [] rows = (rows, [])"
| "run_jobs (j # js) rows =
     (case run_job j rows of (rows', ok) \<Rightarrow> (case run_jobs js rows' of (rows'', oks) \<Rightarrow> (rows'', ok # oks)))"

text \<open>The test, with the order its tasks happen to run in: whether it passes, and the table it leaves.\<close>

definition test_insert ::
  "'f engine \<Rightarrow> (string \<Rightarrow> string option) \<Rightarrow> 'f files \<Rightarrow> job_run list \<Rightarrow> (bool \<times> db option) \<times> 'f files" where
  "test_insert en var disk sched =
     (case database_new en var ''test.sqlite3'' disk of
        (Opened rows, disk') \<Rightarrow> (case run_jobs sched rows of (rows', oks) \<Rightarrow> ((True, Some rows'), disk'))
      | (_, disk') \<Rightarrow> ((False, None), disk'))"

definition a_schedule :: "job_run list \<Rightarrow> bool" where
  "a_schedule sched \<longleftrightarrow> mset (map (snd \<circ> snd) sched) = mset test_jobs"

definition inserts :: "job_run list \<Rightarrow> nat set" where
  "inserts sched = {i. \<exists>up guid. (up, guid, Insert_Job i) \<in> set sched}"

lemma run_job_other: "r_guid ` set (fst (run_job (up, guid, j) rows)) \<subseteq> insert guid (r_guid ` set rows)"
  by (cases j) (auto simp: insert_peer_def split: prod.split)

lemma run_job_ids:
  "guid \<notin> r_guid ` set rows \<Longrightarrow>
     r_id ` set (fst (run_job (True, guid, job) rows)) = r_id ` set rows \<union> show_nat ` {i. job = Insert_Job i}"
  by (cases job) (auto simp: insert_peer_def image_iff, metis)

text \<open>With a database that answers and new \<open>guid\<close>s every id is in the table afterwards.\<close>

lemma run_jobs_stores:
  assumes "list_all fst sched" and "distinct (map (fst \<circ> snd) sched)" and "(fst \<circ> snd) ` set sched \<inter> r_guid ` set rows = {}"
  shows "r_id ` set (fst (run_jobs sched rows)) = r_id ` set rows \<union> show_nat ` inserts sched"
  using assms
proof (induction sched arbitrary: rows)
  case (Cons j js)
  obtain guid job where j: "j = (True, guid, job)" using Cons.prems(1) by (cases j) auto
  obtain rows1 ok where run: "run_job j rows = (rows1, ok)" by fastforce
  have "r_guid ` set rows1 \<subseteq> insert guid (r_guid ` set rows)"
    using run_job_other [of True guid job rows] run by (simp add: j)
  moreover have "guid \<notin> (fst \<circ> snd) ` set js" "distinct (map (fst \<circ> snd) js)"
    "(fst \<circ> snd) ` set js \<inter> r_guid ` set rows = {}" using Cons.prems(2,3) by (auto simp: j comp_def)
  ultimately have "r_id ` set (fst (run_jobs js rows1)) = r_id ` set rows1 \<union> show_nat ` inserts js"
    using Cons.prems(1) by (intro Cons.IH) (auto simp: comp_def)
  moreover have "r_id ` set rows1 = r_id ` set rows \<union> show_nat ` {i. job = Insert_Job i}"
    using run run_job_ids [of guid rows job] Cons.prems(3) by (simp add: j)
  moreover have "inserts (j # js) = {i. job = Insert_Job i} \<union> inserts js" by (auto simp: inserts_def j)
  ultimately show ?case using run by (auto split: prod.split)
qed (simp add: inserts_def)

lemma run_jobs_taken:
  assumes "show_nat ` inserts sched \<subseteq> r_id ` set rows"
  shows "fst (run_jobs sched rows) = rows \<and>
    list_all2 (\<lambda>j ok. (\<exists>i. snd (snd j) = Insert_Job i) \<longrightarrow> \<not> ok) sched (snd (run_jobs sched rows))"
  using assms
proof (induction sched)
  case (Cons j js)
  obtain up guid job where j: "j = (up, guid, job)" by (cases j)
  have js: "inserts js \<subseteq> inserts (j # js)" by (auto simp: inserts_def)
  have "run_job j rows = (rows, snd (run_job j rows)) \<and> ((\<exists>i. job = Insert_Job i) \<longrightarrow> \<not> snd (run_job j rows))"
  proof (cases job)
    case (Insert_Job i)
    then have "i \<in> inserts (j # js)" by (auto simp: inserts_def j)
    then have "show_nat i \<in> r_id ` set rows" using Cons.prems by blast
    then show ?thesis by (auto simp: j Insert_Job insert_peer_def)
  qed (simp add: j)
  moreover have "fst (run_jobs js rows) = rows \<and>
      list_all2 (\<lambda>j ok. (\<exists>i. snd (snd j) = Insert_Job i) \<longrightarrow> \<not> ok) js (snd (run_jobs js rows))"
    by (rule Cons.IH) (use Cons.prems js in blast)
  ultimately show ?case by (cases "run_job j rows"; cases "run_jobs js rows") (auto simp: j)
qed simp

lemma schedule_inserts: "a_schedule sched \<Longrightarrow> inserts sched = {..<10000}"
proof -
  assume "a_schedule sched"
  then have "set (map (snd \<circ> snd) sched) = set test_jobs" unfolding a_schedule_def by (rule mset_eq_setD)
  then have "Insert_Job i \<in> (snd \<circ> snd) ` set sched \<longleftrightarrow> i < 10000" for i
    by (auto simp: test_jobs_def)
  moreover have "i \<in> inserts sched \<longleftrightarrow> Insert_Job i \<in> (snd \<circ> snd) ` set sched" for i
    by (force simp: inserts_def image_iff)
  ultimately show "inserts sched = {..<10000}" by auto
qed

text \<open>
  The test cannot fail on its database calls: it passes exactly when the database opens. Once a run has stored its rows in
  \<open>test.sqlite3\<close>, every insertion of every later run fails and nothing is stored, and the test still passes.
\<close>

theorem later_tests_insert_nothing:
  assumes "engine_laws en" and "en_path en ''test.sqlite3'' = Some ''test.sqlite3''" and "en_serves en (max_connections var)"
    and "a_schedule sched1" and "a_schedule sched2"
    and "list_all fst sched1" and "distinct (map (fst \<circ> snd) sched1)" and "disk ''test.sqlite3'' = None" and "en_creates en ''test.sqlite3''"
    and "test_insert en var disk sched1 = ((passed1, Some rows), disk1)"
    and "en_store en rows f = Some f'" and "test_insert en var (disk1(''test.sqlite3'' \<mapsto> f')) sched2 = ((passed2, rows2), disk2)"
  shows "passed1 \<and> r_id ` set rows = show_nat ` {..<10000} \<and> passed2 \<and> rows2 = Some rows \<and>
    list_all2 (\<lambda>j ok. (\<exists>i. snd (snd j) = Insert_Job i) \<longrightarrow> \<not> ok) sched2 (snd (run_jobs sched2 rows))"
proof -
  let ?url = "''test.sqlite3''"
  have "database_new en var ?url disk = (Opened [], snd (database_new en var ?url disk))"
    using assms(1-3,8,9) by (auto simp: database_new_def Let_def db_connect_def ensure_file_def engine_laws_def create_tables_def)
  with assms(10) have first: "passed1" "rows = fst (run_jobs sched1 [])"
    by (auto simp: test_insert_def split: prod.splits db_opening.splits)
  have ids: "r_id ` set rows = show_nat ` {..<10000}"
    using run_jobs_stores [OF assms(6,7), of "[]"] schedule_inserts [OF assms(4)] by (simp add: first(2))
  have "database_new en var ?url (disk1(?url \<mapsto> f')) = (Opened rows, disk1(?url \<mapsto> f'))"
    using assms(1-3,11) by (auto simp: database_new_def Let_def db_connect_def ensure_file_present engine_laws_def)
  moreover have again: "fst (run_jobs sched2 rows) = rows \<and>
      list_all2 (\<lambda>j ok. (\<exists>i. snd (snd j) = Insert_Job i) \<longrightarrow> \<not> ok) sched2 (snd (run_jobs sched2 rows))"
    by (rule run_jobs_taken) (simp add: schedule_inserts [OF assms(5)] ids)
  ultimately show ?thesis
    using assms(12) first(1) ids by (auto simp: test_insert_def split: prod.splits)
qed

end
