(* ===== verification/Spec2Isabelle.thy ===== *)
theory Spec2Isabelle
  imports Life Wire_Types Whereabouts Punch_Session Relay_Refresh Peer_Race Punch_Race Nat_Port Listener Relay_Streams
    Relay_Process Relayed_Session Key_Race Relay_Startup Update_Check
    Key_Utility Desktop_Turns Database_Test
begin

text \<open>
  A model of the programs of this repository, and what makes them correct. The
  rendezvous server (\<open>hbbs\<close>, \<open>src/rendezvous_server.rs\<close> with \<open>src/peer.rs\<close> and
  \<open>src/database.rs\<close>) keeps a registry of peers by id and brokers connections between them; the relay server
  (\<open>hbbr\<close>, \<open>src/relay_server.rs\<close>) joins two streams that ask for the same \<open>uuid\<close> and copies between them. Around them stand the key and argument handling both share
  (\<open>src/common.rs\<close>), the command-line utility (\<open>src/utils.rs\<close>) and the Windows tray program (\<open>ui/\<close>).

  The theories, in the order of the code's calls:

  \<^item> \<open>Prelude\<close>: bytes, \<open>i32\<close> and \<open>usize\<close> as words, the clock (an \<open>Instant\<close> is a number of
    nanoseconds, elapsed times saturate at zero and round down), splitting, joining and printing.
  \<^item> \<open>Net\<close>: socket addresses and their \<open>Display\<close>, which is proved injective because it keys the throttle, the lists and
    the records.
  \<^item> \<open>Text_Parsing\<close>, \<open>Net_Parse\<close>: trimming, case, numbers, \<open>Debug\<close> text; \<open>FromStr\<close> of addresses as \<open>std::net\<close> parses them.
  \<^item> \<open>Messages\<close>: the protobuf messages, and the record \<open>externals\<close> of all functions whose
    code is not here (the \<open>hbb_common\<close> submodule: address mangling, message coding, v4 conversion; signing; JSON;
    name resolution). Every definition that uses one takes the record as an argument.
  \<^item> \<open>Systems\<close>, \<open>Rate_Window\<close>, \<open>Slots\<close>: the contracts (locales) of a system with an invariant, of one that refines another and of one that simulates another, of a
    windowed counter, and of a table whose entries come out at most once; \<open>Database\<close> holds the contract of a peer store, \<open>Relay_Lists\<close> that
    of an edited list, \<open>Desktop_Channels\<close> that of a value announced over a channel.
    Each is interpreted on the model's own definitions in the theory that provides them.
  \<^item> \<open>Database\<close>: the table \<open>peer\<close> and its statements (\<open>get_peer\<close>, \<open>insert_peer\<close>, \<open>update_pk\<close>).
    \<open>Database_Open\<close>: how a start names, creates and opens it. \<open>Database_Test\<close>: the test of \<open>src/database.rs\<close>.
  \<^item> \<open>Peers\<close>: \<open>Peer\<close> and \<open>PeerMap\<close>; a \<open>LockPeer\<close> is an index into a heap, so that a write through one handle is seen through all.
  \<^item> \<open>Ip_Guard\<close>: \<open>check_ip_blocker\<close>, the \<open>reg_pk\<close> counter, the log of address changes.
  \<^item> \<open>Server_State\<close>: the value every clone of \<open>RendezvousServer\<close> carries (\<open>handle\<close>), what all clones share (\<open>shared\<close>), the
    world a handler call meets (\<open>env\<close>), and the helpers (\<open>send_to_tcp\<close>, \<open>get_relay_server\<close>, \<open>get_pk\<close>, \<open>is_lan\<close>).
  \<^item> \<open>Registration\<close>: \<open>update_addr\<close> and the \<open>RegisterPk\<close> arm of \<open>handle_udp\<close>, with the
    specification \<open>tofu\<close> (trust on first use) it refines. \<open>Persistence\<close>: what a restart keeps. \<open>Peer_Race\<close>:
    \<open>PeerMap::get\<close> as the two steps it takes, with a registration in between.
  \<^item> \<open>Punch_Hole\<close>: \<open>handle_punch_hole_request\<close> and its callers, \<open>handle_hole_sent\<close>, \<open>handle_local_addr\<close>, \<open>handle_online_request\<close>.
    \<open>Punch_Race\<close>: a punch-hole request as the up to eight accesses it takes to what it shares, and requests in parallel, beside all that the
    other handlers do; what is posted to the channel and to connections is accounted for request by request.
  \<^item> \<open>Udp_Server\<close>, \<open>Tcp_Server\<close>: \<open>handle_udp\<close>, spawned tasks, the channel; \<open>handle_tcp\<close>, the connection loop, replies on the NAT-test port. \<open>Sinks\<close>:
    who may write to a connection, in every interleaving of table accesses and writes.
  \<^item> \<open>Handshake\<close>: the header that names a websocket client (the callback both servers use).
  \<^item> \<open>Server_Admin\<close>: the commands of \<open>RendezvousServer::check_cmd\<close>. \<open>Health_Check\<close>: \<open>check_relay_servers\<close> and \<open>test_hbbs\<close>.
  \<^item> \<open>Server\<close>: the whole rendezvous server as a step relation over datagrams, channel messages, tasks, connections, timer ticks, health
    checks and commands, with the invariants of every reachable state. \<open>Relay_Refresh\<close>: a change of the relay servers during a check.
  \<^item> \<open>Registry\<close>: a server's life, restarts included, in which no lookup overlaps a registration, refines an abstract registry of identities.
    \<open>Life\<close>: the same with overlapping lookups (the two phases of \<open>Peer_Race\<close> as steps of their own), which an archive of identities simulates. \<open>Wire_Types\<close>: which
    messages the server ever sends, on datagrams, streams and the NAT-test port, and what their address fields hold. \<open>Whereabouts\<close>: runs with every datagram that names an id on record, and where peers are found.
    \<open>Punch_Session\<close>: heartbeat, request, invitation, answer, from end to end over the server's runs.
    \<open>Nat_Port\<close>: \<open>handle_listener2\<close>, administrators' sessions and NAT tests by the address they come from.
    \<open>Listener\<close>: \<open>handle_listener_inner\<close>, a connection from its accept to its end, as a run of the server.
  \<^item> \<open>Supervision\<close>: the sockets of both servers, their \<open>start\<close>, and the loops that open a failed socket again. \<open>Process\<close>: the
    main task beside the self test (with its second try) and the signals that are delivered, and the three ways in which the process ends. \<open>Relay_Process\<close>: the same for the relay. \<open>Utf8\<close>: what an administrator's
    connection hands to \<open>check_cmd\<close>.
  \<^item> \<open>Relay_Lists\<close>, \<open>Relay_Admin\<close>, \<open>Relay_Pairing\<close>, \<open>Relay_Loop\<close>: the relay's address lists and admission (\<open>handle_connection\<close>), its settings
    and text commands (\<open>check_params\<close>, \<open>check_cmd\<close>), pairing
    (\<open>make_pair_\<close>) as interleaved tasks, and the copying loop (\<open>relay\<close>). \<open>Relay_Streams\<close>: the two kinds of stream behind
    \<open>StreamTrait\<close>. \<open>Relay_Server\<close>: admission, sessions, commands, tasks and failing listeners together.
  \<^item> \<open>Relayed_Session\<close>: a relayed session from end to end, across both servers.
  \<^item> \<open>Keys\<close>, \<open>Key_Loss\<close>: \<open>gen_sk\<close> and \<open>get_server_sk\<close> of both servers over a small file system; what an unavailable key file leads to.
    \<open>Key_Race\<close>: \<open>gen_sk\<close> as single file operations, and two servers that start at once.
  \<^item> \<open>Arguments\<close>: \<open>init_args\<close>, \<open>get_arg\<close>, and \<open>main\<close> of both servers. \<open>Key_Utility\<close>: \<open>src/utils.rs\<close>.
    \<open>Update_Check\<close>: the daily look at the latest release.
  \<^item> \<open>Startup\<close>: \<open>hbbs\<close> from its command line to its first turn, over the key files, the database file and the machine.
    \<open>Relay_Startup\<close>: the same for \<open>hbbr\<close>, and the two side by side.
  \<^item> \<open>Desktop\<close>, \<open>Desktop_Channels\<close>: service control, presenter, view (menus, windows, title) and file watcher of the tray program; the three
    tasks and their bounded channels. \<open>Desktop_Turns\<close>: whole turns of the loops, as runs of those steps.
  \<^item> \<open>Samples\<close>: concrete instances for the witnesses; they model nothing.

  What the lemmas show. Registration: a handler call refines \<open>tofu\<close>, and the whole life of a server a registry whose identities
  were all accepted by it, so an id stays bound to its \<open>uuid\<close> while the database answers; heartbeats take over nothing; memory and table stay in step while the database answers, so a restart
  loses nothing, and a failed write is shown to be reported as success. Throttles: bounds on bursts and on the
  size of the tables. Brokering: every request gets the specified verdict, only live peers are contacted by punch-hole requests, at an address a datagram for their id came
  from, a peer whose heartbeat was accepted is found there, the answer
  finds its way back, a stream connection is answered at most once (also when tasks interleave between single accesses), a relayed
  session comes about from end to end, the log has no recent duplicates (both also when requests interleave between single accesses), relay servers rotate, the
  online bitmap is exact, and no message of the wrong kind or with a client's address is ever sent. Relay: the last list command that names
  an address decides its admission, a typed number is the number shown, the usage report is complete and sorted, only matching requests are joined, no stream twice, copying keeps messages whole and is
  accounted for, and a block holds through failures. Process: it ends for a known cause only, its database outlives it, and the whole program started again with the same settings
  has the same key and knows the same ids with the same \<open>uuid\<close>s. Keys: a relay server started after the rendezvous server arrives at its key. Commands: none touches peers or connections, and the pages of a listing cover the table. Tray program: the window shows the
  service's state, between any two turns of its loops. Other theorems exhibit defects of the code as it is written: the lost database write, the key a slow load puts back, two ways
  in which pairing loses a stream, the list lookup that misses mapped addresses, the answer that goes to another client behind the same address, the
  old relay servers a late health check puts back, the server that runs open without its key file, the relay that is open as deployed, settings no file can reach, the heartbeat that costs the
  server its socket, the deadlock of the tray program, servers started at once that end with different keys, the database
  URL for which no file is created, the test that cannot fail, the command that misses the limiter in force, pings that hold a relay for nothing; another states exactly when a wrapped age counts as online.

  Modelling decisions. A handler of the rendezvous server is one atomic step that reads the clock once; connections, tasks and datagrams interleave between
  steps. The relay's pairing is finer: each access to \<open>PEERS\<close> is a step; so are the accesses to \<open>tcp_punch\<close> in
  \<open>Sinks\<close>, those to the peer map in \<open>Peer_Race\<close> and all those of a punch-hole request in \<open>Punch_Race\<close>, which run without interruption are shown to
  be the handler. Counters that the throttle
  bounds are natural numbers (the invariant shows the \<open>u32\<close> never exceeds 31), counters that can wrap are words. No fuel is used: every loop is
  structural over the events or items it consumes. Text is a list of bytes, and \<open>len\<close> counts bytes. Logging is left out.

  Not modelled: what the operating system does in a socket (a parameter of \<open>Supervision\<close>), the SQLite engine and the
  connection pool (parameters of \<open>Database_Open\<close>), the protobuf wire format and the websocket upgrade, the floating-point arithmetic and
  formatting of four relay settings (parameters of \<open>Relay_Admin\<close>), the splitting of the
  command line by \<open>clap\<close>, what Tauri draws. Arithmetic that overflows wraps, as in the release build.
\<close>

end
